(* ===== verification/GN_Prelude.thy ===== *)
theory GN_Prelude
  imports Complex_Main "HOL-Library.Multiset" "HOL-Library.Sublist"
begin

text \<open>
  Shared material of the GeoNote development: the result type of fallible Go
  functions, the named collections the component theories fill
  (\<open>db_frame\<close>: what an operation leaves unchanged, \<open>db_inv\<close>: preservation of the
  database invariant, \<open>go_defs\<close>: definitions unfolded when a concrete run is evaluated),
  the model of \<open>sort.Slice\<close>, generic facts on lists, and the states that a step relation reaches, with the locale
  \<open>step_system\<close> of relations that keep an invariant.
\<close>

named_theorems db_frame "facts saying which tables an operation leaves alone"
named_theorems db_inv "preservation of the database invariant"
named_theorems go_defs "definitions unfolded to evaluate a concrete run"

section \<open>Fallible functions\<close>

text \<open>A Go pair \<open>(value, error)\<close>: \<open>Inl\<close> is a non-nil error.\<close>

type_synonym ('e, 'a) go_result = "'e + 'a"

text \<open>A stateful fallible call: the state is threaded also through the error path.\<close>

type_synonym ('s, 'e, 'a) call = "'s \<Rightarrow> ('e + 'a) \<times> 's"

definition is_ok :: "('e, 'a) go_result \<Rightarrow> bool" where
  "is_ok r = (case r of Inl _ \<Rightarrow> False | Inr _ \<Rightarrow> True)"

lemma is_ok_simps [simp]: "is_ok (Inl e) = False" "is_ok (Inr x) = True"
  by (simp_all add: is_ok_def)

lemma is_ok_iff: "is_ok r \<longleftrightarrow> (\<exists>x. r = Inr x)"
  by (cases r) simp_all

section \<open>sort.Slice\<close>

text \<open>
  \<open>sort.Slice\<close> with a comparison \<open>lt\<close>. Up to twelve elements the library runs this
  insertion sort, which moves each element left past the elements it precedes (the sorted prefix
  is kept reversed, so that its last element is the head). Above twelve elements the library may
  order elements that are equivalent under \<open>lt\<close> in another way, so nothing below says more of
  the result than that it is a sorted permutation.
\<close>

fun insert_back :: "('a \<Rightarrow> 'a \<Rightarrow> bool) \<Rightarrow> 'a \<Rightarrow> 'a list \<Rightarrow> 'a list" where
  "insert_back lt x [] = [x]"
| "insert_back lt x (y # ys) = (if lt x y then y # insert_back lt x ys else x # y # ys)"

definition sort_slice :: "('a \<Rightarrow> 'a \<Rightarrow> bool) \<Rightarrow> 'a list \<Rightarrow> 'a list" where
  "sort_slice lt xs = rev (fold (insert_back lt) xs [])"

lemma mset_insert_back [simp]: "mset (insert_back lt x xs) = add_mset x (mset xs)"
  by (induction xs) auto

lemma set_insert_back [simp]: "set (insert_back lt x xs) = insert x (set xs)"
  by (metis mset_insert_back set_mset_add_mset_insert set_mset_mset)

lemma mset_fold_insert_back: "mset (fold (insert_back lt) xs acc) = mset xs + mset acc"
  by (induction xs arbitrary: acc) auto

lemma mset_sort_slice [simp]: "mset (sort_slice lt xs) = mset xs"
  by (simp add: sort_slice_def mset_fold_insert_back)

lemma set_sort_slice [simp]: "set (sort_slice lt xs) = set xs"
  by (metis mset_sort_slice set_mset_mset)

lemma length_sort_slice [simp]: "length (sort_slice lt xs) = length xs"
  by (metis mset_sort_slice size_mset)

text \<open>
  The comparisons of the code are of the form \<open>key i > key j\<close>; for those the result is in
  descending order of the key.
\<close>

lemma sorted_insert_back_desc:
  fixes key :: "'a \<Rightarrow> 'k::linorder"
  assumes "sorted_wrt (\<lambda>a b. key a \<le> key b) xs"
  shows "sorted_wrt (\<lambda>a b. key a \<le> key b) (insert_back (\<lambda>a b. key a > key b) x xs)"
  using assms by (induction xs) (auto simp: not_less intro: order_trans)

lemma sorted_fold_insert_back_desc:
  fixes key :: "'a \<Rightarrow> 'k::linorder"
  assumes "sorted_wrt (\<lambda>a b. key a \<le> key b) acc"
  shows "sorted_wrt (\<lambda>a b. key a \<le> key b) (fold (insert_back (\<lambda>a b. key a > key b)) xs acc)"
  using assms by (induction xs arbitrary: acc) (auto intro: sorted_insert_back_desc)

lemma sorted_sort_slice_desc:
  fixes key :: "'a \<Rightarrow> 'k::linorder"
  shows "sorted_wrt (\<lambda>a b. key b \<le> key a) (sort_slice (\<lambda>a b. key a > key b) xs)"
  unfolding sort_slice_def sorted_wrt_rev
  using sorted_fold_insert_back_desc [of key "[]" xs] by simp

section \<open>Lists used as tables\<close>

text \<open>An UPDATE rewrites the rows that satisfy its condition, in place.\<close>

definition update_where :: "('r \<Rightarrow> bool) \<Rightarrow> ('r \<Rightarrow> 'r) \<Rightarrow> 'r list \<Rightarrow> 'r list" where
  "update_where P f rs = map (\<lambda>r. if P r then f r else r) rs"

lemma length_update_where [simp]: "length (update_where P f rs) = length rs"
  by (simp add: update_where_def)

lemma update_where_simps [simp]:
  "update_where P f [] = []"
  "update_where P f (r # rs) = (if P r then f r else r) # update_where P f rs"
  by (simp_all add: update_where_def)

lemma map_update_where:
  assumes "\<And>r. k (f r) = k r"
  shows "map k (update_where P f rs) = map k rs"
  using assms by (simp add: update_where_def)

lemma in_set_update_where:
  "r \<in> set (update_where P f rs) \<longleftrightarrow>
     (\<exists>r0 \<in> set rs. r = (if P r0 then f r0 else r0))"
  by (auto simp: update_where_def)

lemma find_Some_in: "find P xs = Some x \<Longrightarrow> x \<in> set xs \<and> P x"
  by (induction xs) (auto split: if_splits)

lemma distinct_map_unique:
  "distinct (map k rs) \<Longrightarrow> r \<in> set rs \<Longrightarrow> r' \<in> set rs \<Longrightarrow> k r = k r' \<Longrightarrow> r = r'"
  by (auto simp: distinct_map dest: inj_onD)

lemma find_map_unique:
  assumes "distinct (map k rs)" and "r \<in> set rs" and "\<And>x. P x \<longleftrightarrow> k x = k r"
  shows "find P rs = Some r"
proof (cases "find P rs")
  case None
  with assms(2) have "\<not> P r" by (auto simp: find_None_iff)
  with assms(3) show ?thesis by simp
next
  case (Some x)
  from find_Some_in [OF Some] assms(3) have "x \<in> set rs" and "k x = k r" by auto
  with assms(1,2) have "x = r" by (auto dest: distinct_map_unique)
  with Some show ?thesis by simp
qed

lemma distinct_filter_map: "distinct (map k rs) \<Longrightarrow> distinct (map k (filter P rs))"
  by (induction rs) auto

lemma distinct_filter_map_conj:
  "distinct (map k (filter P rs)) \<Longrightarrow> distinct (map k (filter (\<lambda>r. Q r \<and> P r) rs))"
  by (induction rs) (auto split: if_splits)

text \<open>Rows counted by a condition, and how insertion and deletion move the count.\<close>

definition count_where :: "('r \<Rightarrow> bool) \<Rightarrow> 'r list \<Rightarrow> nat" where
  "count_where P rs = length (filter P rs)"

lemma count_where_simps [simp]:
  "count_where P [] = 0"
  "count_where P (r # rs) = (if P r then 1 else 0) + count_where P rs"
  "count_where P (rs @ ss) = count_where P rs + count_where P ss"
  by (simp_all add: count_where_def)

lemma count_where_filter: "count_where P (filter Q rs) = count_where (\<lambda>r. Q r \<and> P r) rs"
  by (induction rs) auto

lemma count_where_split:
  "count_where P rs = count_where P (filter Q rs) + count_where P (filter (\<lambda>r. \<not> Q r) rs)"
  by (induction rs) auto

lemma count_where_cong: "(\<And>r. r \<in> set rs \<Longrightarrow> P r = Q r) \<Longrightarrow> count_where P rs = count_where Q rs"
  by (induction rs) auto

lemma count_where_keep:
  "x \<notin> G \<Longrightarrow>
   count_where (\<lambda>r. k r = x \<and> K r) (filter (\<lambda>r. k r \<notin> G) rs) = count_where (\<lambda>r. k r = x \<and> K r) rs"
  by (induction rs) auto

lemma count_where_zero: "count_where P rs = 0 \<longleftrightarrow> (\<forall>r \<in> set rs. \<not> P r)"
  by (induction rs) auto

lemma count_where_remove_key:
  assumes "distinct (map k rs)" and "r \<in> set rs" and "P r"
  shows "count_where P rs = Suc (count_where P (filter (\<lambda>x. k x \<noteq> k r) rs))"
  using assms
proof (induction rs)
  case (Cons x rs)
  show ?case
  proof (cases "x = r")
    case True
    with Cons.prems have "\<forall>y \<in> set rs. k y \<noteq> k r" by (auto simp: image_iff)
    then have "filter (\<lambda>y. k y \<noteq> k r) rs = rs" by (simp add: filter_id_conv)
    with True Cons.prems show ?thesis by simp
  next
    case False
    with Cons.prems have "k x \<noteq> k r" by (auto simp: image_iff)
    with False Cons show ?thesis by simp
  qed
qed simp

section \<open>Step relations\<close>

text \<open>The states that a machine comes to from the states it may start in.\<close>

inductive reachable :: "('s \<Rightarrow> bool) \<Rightarrow> ('s \<Rightarrow> 's \<Rightarrow> bool) \<Rightarrow> 's \<Rightarrow> bool" for start step where
  start: "start s \<Longrightarrow> reachable start step s"
| step: "reachable start step s \<Longrightarrow> step s t \<Longrightarrow> reachable start step t"

lemma reachable_steps: "step\<^sup>*\<^sup>* s t \<Longrightarrow> reachable start step s \<Longrightarrow> reachable start step t"
  by (induction rule: rtranclp_induct) (auto intro: reachable.step)

text \<open>
  The contract of the concurrent parts of the program: the start states have the invariant and every step keeps it. Then it holds in every
  reachable state, and a part of the machine that can always move with less left to do can reach its goal.
\<close>

locale step_system =
  fixes start :: "'s \<Rightarrow> bool" and step :: "'s \<Rightarrow> 's \<Rightarrow> bool" and inv :: "'s \<Rightarrow> bool"
  assumes start_inv: "start s \<Longrightarrow> inv s"
    and step_inv: "step s t \<Longrightarrow> inv s \<Longrightarrow> inv t"
begin

lemma reachable_inv: "reachable start step s \<Longrightarrow> inv s"
  by (induction rule: reachable.induct) (auto intro: start_inv step_inv)

lemma steps_inv: "step\<^sup>*\<^sup>* s t \<Longrightarrow> inv s \<Longrightarrow> inv t"
  by (induction rule: rtranclp_induct) (auto intro: step_inv)

lemma progress:
  fixes left :: "'s \<Rightarrow> nat"
  assumes "inv s" and "P s"
    and move: "\<And>s. inv s \<Longrightarrow> P s \<Longrightarrow> \<not> goal s \<Longrightarrow> \<exists>t. step s t \<and> P t \<and> left t < left s"
  shows "\<exists>t. step\<^sup>*\<^sup>* s t \<and> inv t \<and> P t \<and> goal t"
  using assms(1,2)
proof (induction "left s" arbitrary: s rule: less_induct)
  case less
  show ?case
  proof (cases "goal s")
    case False
    with move less.prems obtain t where t: "step s t" "P t" "left t < left s" by blast
    from less.hyps [OF t(3) step_inv [OF t(1) less.prems(1)] t(2)] t(1) show ?thesis
      by (meson converse_rtranclp_into_rtranclp)
  qed (use less.prems in blast)
qed

end

end
