(* ===== verification/Geo.thy ===== *)
theory Geo
  imports GN_Prelude
begin

text \<open>
  \<open>backend/internal/geo/haversine.go\<close>: the great-circle distance, over the real numbers (the
  rounding of float64 is not modelled, so neither is a haversine term that rounding pushes
  above 1).
\<close>

definition earthRadiusMeters :: real where
  "earthRadiusMeters = 6371000"

text \<open>\<open>math.Atan2\<close>, by the quadrant of the point \<open>(x, y)\<close>.\<close>

definition math_Atan2 :: "real \<Rightarrow> real \<Rightarrow> real" where
  "math_Atan2 y x =
     (if x > 0 then arctan (y / x)
      else if x < 0 then (if y \<ge> 0 then arctan (y / x) + pi else arctan (y / x) - pi)
      else if y > 0 then pi / 2 else if y < 0 then - pi / 2 else 0)"

text \<open>The term \<open>a\<close> of the source.\<close>

definition haversine :: "real \<Rightarrow> real \<Rightarrow> real \<Rightarrow> real \<Rightarrow> real" where
  "haversine lat1 lng1 lat2 lng2 =
     (let lat1Rad = lat1 * pi / 180; lat2Rad = lat2 * pi / 180;
          dLat = (lat2 - lat1) * pi / 180; dLng = (lng2 - lng1) * pi / 180
      in sin (dLat / 2) * sin (dLat / 2) +
         cos lat1Rad * cos lat2Rad * sin (dLng / 2) * sin (dLng / 2))"

definition DistanceMeters :: "real \<Rightarrow> real \<Rightarrow> real \<Rightarrow> real \<Rightarrow> real" where
  "DistanceMeters lat1 lng1 lat2 lng2 =
     (let a = haversine lat1 lng1 lat2 lng2;
          c = 2 * math_Atan2 (sqrt a) (sqrt (1 - a))
      in earthRadiusMeters * c)"

section \<open>The haversine term lies between 0 and 1\<close>

lemma sin_half_sq: "sin (d / 2) * sin (d / 2) = (1 - cos d) / (2::real)"
proof -
  have "cos (2 * (d / 2)) = 1 - 2 * (sin (d / 2))\<^sup>2" by (rule cos_double_sin)
  then show ?thesis by (simp add: power2_eq_square)
qed

lemma cos_times_cos: "cos p * cos q = (cos (p - q) + cos (p + q)) / (2::real)"
  by (simp add: cos_diff cos_add)

text \<open>
  With \<open>s\<close> the squared sine of half the longitude difference, the term moves linearly between two
  values that both lie in the unit interval.
\<close>

lemma haversine_bounds_aux:
  fixes p q s :: real
  assumes "0 \<le> s" "s \<le> 1"
  shows "0 \<le> sin ((q - p) / 2) * sin ((q - p) / 2) + cos p * cos q * s"
    and "sin ((q - p) / 2) * sin ((q - p) / 2) + cos p * cos q * s \<le> 1"
proof -
  have mix_eq: "U + (V - U) * s = (1 - s) * U + s * V" for U V by (simp add: algebra_simps)
  let ?u = "(1 - cos (q - p)) / 2" and ?v = "(1 + cos (p + q)) / 2"
  have "cos (p - q) = cos (q - p)" by (metis cos_minus minus_diff_eq)
  then have cc: "cos p * cos q = ?v - ?u" using cos_times_cos [of p q] by argo
  have mix: "sin ((q - p) / 2) * sin ((q - p) / 2) + cos p * cos q * s = (1 - s) * ?u + s * ?v"
    unfolding sin_half_sq cc by (rule mix_eq)
  have half: "0 \<le> (1 - c) / 2 \<and> (1 - c) / 2 \<le> 1 \<and> 0 \<le> (1 + c) / 2 \<and> (1 + c) / 2 \<le> 1"
    if "- 1 \<le> c" "c \<le> 1" for c :: real
    using that by (simp add: field_simps)
  have u: "0 \<le> ?u" "?u \<le> 1" and v: "0 \<le> ?v" "?v \<le> 1"
    using half [OF cos_ge_minus_one cos_le_one, of "q - p"]
      half [OF cos_ge_minus_one cos_le_one, of "p + q"] by blast+
  show "0 \<le> sin ((q - p) / 2) * sin ((q - p) / 2) + cos p * cos q * s"
    unfolding mix using assms u v by simp
  have "(1 - s) * ?u + s * ?v \<le> (1 - s) * 1 + s * 1"
    using assms u v by (intro add_mono mult_left_mono) auto
  then show "sin ((q - p) / 2) * sin ((q - p) / 2) + cos p * cos q * s \<le> 1"
    unfolding mix by simp
qed

lemma haversine_bounds:
  "0 \<le> haversine lat1 lng1 lat2 lng2" "haversine lat1 lng1 lat2 lng2 \<le> 1"
proof -
  let ?h = "sin ((lng2 - lng1) * pi / 180 / 2) * sin ((lng2 - lng1) * pi / 180 / 2)"
  have s: "0 \<le> ?h" "?h \<le> 1"
    using cos_ge_minus_one [of "(lng2 - lng1) * pi / 180"] cos_le_one [of "(lng2 - lng1) * pi / 180"]
    unfolding sin_half_sq by simp_all
  have eq: "haversine lat1 lng1 lat2 lng2 =
    sin ((lat2 * pi / 180 - lat1 * pi / 180) / 2) * sin ((lat2 * pi / 180 - lat1 * pi / 180) / 2) +
    cos (lat1 * pi / 180) * cos (lat2 * pi / 180) * ?h"
    by (simp add: haversine_def Let_def algebra_simps diff_divide_distrib)
  show "0 \<le> haversine lat1 lng1 lat2 lng2" "haversine lat1 lng1 lat2 lng2 \<le> 1"
    unfolding eq by (rule haversine_bounds_aux [OF s])+
qed

lemma sin_half_sq_sym:
  "sin ((b - a) * pi / 180 / 2) * sin ((b - a) * pi / 180 / 2) =
   sin ((a - b) * pi / 180 / 2) * sin ((a - b) * pi / 180 / (2::real))"
proof -
  have "(b - a) * pi / 180 = - ((a - b) * pi / 180)"
    by (simp add: left_diff_distrib diff_divide_distrib)
  then show ?thesis unfolding sin_half_sq by (simp only: cos_minus)
qed

lemma haversine_sym: "haversine lat1 lng1 lat2 lng2 = haversine lat2 lng2 lat1 lng1"
  unfolding haversine_def Let_def mult.assoc [of "_ * _"] sin_half_sq_sym [of lat2 lat1]
    sin_half_sq_sym [of lng2 lng1]
  by (simp only: mult.commute [of "cos (lat1 * pi / 180)"])

lemma Atan2_quarter:
  assumes "0 \<le> y" "0 \<le> x"
  shows "0 \<le> math_Atan2 y x" and "math_Atan2 y x \<le> pi / 2"
  using assms arctan_ubound [of "y / x"] by (auto simp: math_Atan2_def)

lemma Atan2_zero_iff: "0 \<le> y \<Longrightarrow> 0 \<le> x \<Longrightarrow> x + y > 0 \<Longrightarrow> math_Atan2 y x = 0 \<longleftrightarrow> y = 0"
  by (auto simp: math_Atan2_def)

section \<open>The distance\<close>

text \<open>\<open>DistanceMeters\<close> behaves as a distance on the sphere of radius 6371 km: it is
  symmetric, lies between zero and half a circumference, and is zero exactly when the haversine
  term is zero.\<close>

lemma DistanceMeters_spherical:
  "DistanceMeters lat1 lng1 lat2 lng2 = DistanceMeters lat2 lng2 lat1 lng1 \<and>
   0 \<le> DistanceMeters lat1 lng1 lat2 lng2 \<and>
   DistanceMeters lat1 lng1 lat2 lng2 \<le> pi * earthRadiusMeters \<and>
   (DistanceMeters lat1 lng1 lat2 lng2 = 0 \<longleftrightarrow> haversine lat1 lng1 lat2 lng2 = 0)"
proof -
  let ?a = "haversine lat1 lng1 lat2 lng2"
  have root: "0 \<le> sqrt ?a" "0 \<le> sqrt (1 - ?a)"
    using haversine_bounds by simp_all
  have pos: "sqrt (1 - ?a) + sqrt ?a > 0"
    using haversine_bounds(1) [of lat1 lng1 lat2 lng2] root
    by (cases "?a = 0") (simp_all add: add_nonneg_pos)
  have zero: "math_Atan2 (sqrt ?a) (sqrt (1 - ?a)) = 0 \<longleftrightarrow> ?a = 0"
    using Atan2_zero_iff [OF root pos] by simp
  have R: "0 < earthRadiusMeters" by (simp add: earthRadiusMeters_def)
  have quarter: "0 \<le> math_Atan2 (sqrt ?a) (sqrt (1 - ?a))"
    "2 * math_Atan2 (sqrt ?a) (sqrt (1 - ?a)) \<le> pi"
    using Atan2_quarter [OF root] by simp_all
  then have "earthRadiusMeters * (2 * math_Atan2 (sqrt ?a) (sqrt (1 - ?a))) \<le> earthRadiusMeters * pi"
    using R by (intro mult_left_mono) auto
  with R quarter zero show ?thesis
    unfolding DistanceMeters_def Let_def haversine_sym [of lat2]
    by (simp add: mult.commute)
qed

section \<open>The great circle\<close>

text \<open>The point of the unit sphere with a latitude and a longitude in degrees, and the scalar product.\<close>

definition sphere_point :: "real \<Rightarrow> real \<Rightarrow> real \<times> real \<times> real" where
  "sphere_point lat lng =
     (let p = lat * pi / 180; l = lng * pi / 180 in (cos p * cos l, cos p * sin l, sin p))"

fun scalar :: "real \<times> real \<times> real \<Rightarrow> real \<times> real \<times> real \<Rightarrow> real" where
  "scalar (x, y, z) (x', y', z') = x * x' + y * y' + z * z'"

lemma half_sum: "1 - 2 * ((1 - c) / 2 + w * ((1 - e) / 2)) = c - w * (1 - e)" for c w e :: real
  by (simp add: algebra_simps diff_divide_distrib)

lemma scalar_terms:
  fixes a b c d e f g h :: real
  shows "(b * a + d * c) - a * b * (1 - (f * e + h * g)) = c * d + a * b * (e * f + g * h)"
    and "c * d + a * b * (e * f + g * h) = a * e * (b * f) + a * g * (b * h) + c * d"
  by (simp_all add: algebra_simps)

lemma scalar_sphere:
  "scalar (sphere_point lat1 lng1) (sphere_point lat2 lng2) = 1 - 2 * haversine lat1 lng1 lat2 lng2"
proof -
  let ?p = "lat1 * pi / 180" and ?q = "lat2 * pi / 180" and ?k = "lng1 * pi / 180" and ?l = "lng2 * pi / 180"
  have d: "(lat2 - lat1) * pi / 180 = ?q - ?p" "(lng2 - lng1) * pi / 180 = ?l - ?k"
    by (simp_all add: left_diff_distrib diff_divide_distrib)
  have "1 - 2 * haversine lat1 lng1 lat2 lng2 = cos (?q - ?p) - cos ?p * cos ?q * (1 - cos (?l - ?k))"
    unfolding haversine_def Let_def d mult.assoc [of "_ * _"] sin_half_sq by (rule half_sum)
  also have "\<dots> = sin ?p * sin ?q + cos ?p * cos ?q * (cos ?k * cos ?l + sin ?k * sin ?l)"
    unfolding cos_diff by (rule scalar_terms(1))
  also have "\<dots> = scalar (sphere_point lat1 lng1) (sphere_point lat2 lng2)"
    unfolding sphere_point_def Let_def scalar.simps by (rule scalar_terms(2))
  finally show ?thesis by simp
qed

lemma Atan2_unit:
  assumes "0 \<le> a" and "a \<le> 1"
  shows "2 * math_Atan2 (sqrt a) (sqrt (1 - a)) = arccos (1 - 2 * a)"
proof -
  let ?t = "math_Atan2 (sqrt a) (sqrt (1 - a))"
  have "cos ?t = sqrt (1 - a)"
  proof (cases "a = 1")
    case False
    with assms have "a < 1" by simp
    moreover from this have "1 + (sqrt a / sqrt (1 - a))\<^sup>2 = 1 / (1 - a)"
      using assms by (simp add: power_divide field_simps)
    ultimately show ?thesis using assms
      by (simp add: math_Atan2_def cos_arctan real_sqrt_divide)
  qed (simp add: math_Atan2_def)
  then have "cos (2 * ?t) = 1 - 2 * a" using assms by (simp add: cos_double_cos)
  moreover have "0 \<le> 2 * ?t" "2 * ?t \<le> pi" using Atan2_quarter [of "sqrt a" "sqrt (1 - a)"] assms by simp_all
  ultimately show ?thesis by (metis arccos_cos)
qed

text \<open>C38: \<open>DistanceMeters\<close> is the great-circle distance: the earth's radius times the angle between the two points as
  vectors of the unit sphere.\<close>

theorem DistanceMeters_great_circle:
  "DistanceMeters lat1 lng1 lat2 lng2 =
     earthRadiusMeters * arccos (scalar (sphere_point lat1 lng1) (sphere_point lat2 lng2))"
  using Atan2_unit [OF haversine_bounds] by (simp add: DistanceMeters_def scalar_sphere Let_def)

text \<open>The test points of \<open>haversine_test.go\<close> that have a closed form.\<close>

lemma DistanceMeters_known_points:
  "DistanceMeters lat lng lat lng = 0"
  "DistanceMeters 90 lng (-90) lng = pi * earthRadiusMeters"
proof -
  have "sin (- pi / 2) * sin (- pi / 2) = (1::real)" by simp
  then have "haversine 90 lng (-90) lng = 1" by (simp add: haversine_def)
  then show "DistanceMeters 90 lng (-90) lng = pi * earthRadiusMeters"
    by (simp add: DistanceMeters_def math_Atan2_def)
qed (simp add: DistanceMeters_def haversine_def math_Atan2_def)

end
