(* ===== verification/Go_Strings.thy ===== *)
theory Go_Strings
  imports GN_Prelude
begin

text \<open>
  The part of Go's \<open>strings\<close>, \<open>strconv\<close>, \<open>fmt\<close> and \<open>regexp\<close> packages the backend uses.
  A Go string is a sequence of bytes, so it is a HOL \<open>string\<close>: every \<open>char\<close> is one byte, text is
  UTF-8, and \<open>len\<close> is \<open>length\<close>.
\<close>

section \<open>Bytes\<close>

abbreviation byte :: "char \<Rightarrow> nat" where
  "byte c \<equiv> of_char c"

definition is_ascii :: "char \<Rightarrow> bool" where
  "is_ascii c \<longleftrightarrow> byte c < 128"

definition is_upper :: "char \<Rightarrow> bool" where
  "is_upper c \<longleftrightarrow> 65 \<le> byte c \<and> byte c \<le> 90"

definition is_lower :: "char \<Rightarrow> bool" where
  "is_lower c \<longleftrightarrow> 97 \<le> byte c \<and> byte c \<le> 122"

definition is_digit :: "char \<Rightarrow> bool" where
  "is_digit c \<longleftrightarrow> 48 \<le> byte c \<and> byte c \<le> 57"

text \<open>The class \<open>[a-zA-Z0-9_]\<close> of \<open>hashtagRe\<close> and of the username constraint.\<close>

definition is_word :: "char \<Rightarrow> bool" where
  "is_word c \<longleftrightarrow> is_upper c \<or> is_lower c \<or> is_digit c \<or> c = CHR ''_''"

definition lower_byte :: "char \<Rightarrow> char" where
  "lower_byte c = (if is_upper c then char_of (byte c + 32) else c)"

lemma byte_lower_byte: "byte (lower_byte c) = (if is_upper c then byte c + 32 else byte c)"
  by (auto simp: lower_byte_def is_upper_def)

lemma lower_byte_not_upper [simp]: "\<not> is_upper (lower_byte c)"
  by (simp add: is_upper_def byte_lower_byte)

lemma lower_byte_idem [simp]: "lower_byte (lower_byte c) = lower_byte c"
  using lower_byte_not_upper [of c] by (simp only: lower_byte_def [of "lower_byte c"]) simp

lemma is_word_lower_byte [simp]: "is_word (lower_byte c) = is_word c"
proof (cases "is_upper c")
  case True
  then have "is_lower (lower_byte c)" by (auto simp: is_lower_def is_upper_def byte_lower_byte)
  with True show ?thesis by (simp add: is_word_def)
qed (simp add: lower_byte_def)

lemma is_word_ascii: "is_word c \<Longrightarrow> is_ascii c"
  by (auto simp: is_word_def is_ascii_def is_upper_def is_lower_def is_digit_def)

lemma not_word_hash: "\<not> is_word (CHR ''#'')"
  by code_simp

section \<open>strings\<close>

definition strings_TrimPrefix :: "string \<Rightarrow> string \<Rightarrow> string" where
  "strings_TrimPrefix s pre = (if prefix pre s then drop (length pre) s else s)"

definition strings_Contains :: "string \<Rightarrow> string \<Rightarrow> bool" where
  "strings_Contains s sub \<longleftrightarrow> sublist sub s"

text \<open>
  \<open>strings.ToLower\<close> maps ASCII strings bytewise; on other strings it uses the Unicode case
  tables, which are the argument \<open>uni\<close>.
\<close>

definition strings_ToLower :: "(string \<Rightarrow> string) \<Rightarrow> string \<Rightarrow> string" where
  "strings_ToLower uni s = (if list_all is_ascii s then map lower_byte s else uni s)"

lemma ToLower_word: "list_all is_word w \<Longrightarrow> strings_ToLower uni w = map lower_byte w"
  by (auto simp: strings_ToLower_def list_all_iff is_word_ascii)

lemma TrimPrefix_eq_iff: "strings_TrimPrefix s pre = s \<longleftrightarrow> \<not> prefix pre s \<or> pre = []"
proof -
  have "drop (length pre) s = s \<longleftrightarrow> pre = []" if "prefix pre s"
    using that by (metis append_eq_conv_conj append_self_conv2 drop0 list.size(3) prefix_def)
  then show ?thesis by (auto simp: strings_TrimPrefix_def)
qed

lemma TrimPrefix_append [simp]: "strings_TrimPrefix (pre @ s) pre = s"
  by (simp add: strings_TrimPrefix_def)

text \<open>
  \<open>strings.TrimSpace\<close>: the UTF-8 encodings of the runes \<open>unicode.IsSpace\<close> accepts, removed
  at both ends as often as possible.
\<close>

definition space_runes :: "string list" where
  "space_runes =
    [[CHR 0x09], [CHR 0x0A], [CHR 0x0B], [CHR 0x0C], [CHR 0x0D], [CHR 0x20],
     [CHR 0xC2, CHR 0x85], [CHR 0xC2, CHR 0xA0], [CHR 0xE1, CHR 0x9A, CHR 0x80],
     [CHR 0xE2, CHR 0x80, CHR 0x80], [CHR 0xE2, CHR 0x80, CHR 0x81], [CHR 0xE2, CHR 0x80, CHR 0x82],
     [CHR 0xE2, CHR 0x80, CHR 0x83], [CHR 0xE2, CHR 0x80, CHR 0x84], [CHR 0xE2, CHR 0x80, CHR 0x85],
     [CHR 0xE2, CHR 0x80, CHR 0x86], [CHR 0xE2, CHR 0x80, CHR 0x87], [CHR 0xE2, CHR 0x80, CHR 0x88],
     [CHR 0xE2, CHR 0x80, CHR 0x89], [CHR 0xE2, CHR 0x80, CHR 0x8A],
     [CHR 0xE2, CHR 0x80, CHR 0xA8], [CHR 0xE2, CHR 0x80, CHR 0xA9], [CHR 0xE2, CHR 0x80, CHR 0xAF],
     [CHR 0xE2, CHR 0x81, CHR 0x9F], [CHR 0xE3, CHR 0x80, CHR 0x80]]"

text \<open>The length of the space rune a string starts with, 0 when it starts with none.\<close>

definition leading_rune :: "string list \<Rightarrow> string \<Rightarrow> nat" where
  "leading_rune rs s = (case find (\<lambda>r. prefix r s) rs of None \<Rightarrow> 0 | Some r \<Rightarrow> length r)"

function strip_runes :: "string list \<Rightarrow> string \<Rightarrow> string" where
  "strip_runes rs s =
     (if leading_rune rs s = 0 \<or> s = [] then s else strip_runes rs (drop (leading_rune rs s) s))"
  by pat_completeness auto
termination
  by (relation "measure (\<lambda>(rs, s). length s)") auto

declare strip_runes.simps [simp del]

definition strings_TrimSpace :: "string \<Rightarrow> string" where
  "strings_TrimSpace s =
     rev (strip_runes (map rev space_runes) (rev (strip_runes space_runes s)))"

lemma strip_runes_suffix: "suffix (strip_runes rs s) s"
proof (induction rs s rule: strip_runes.induct)
  case (1 rs s)
  show ?case
  proof (cases "leading_rune rs s = 0 \<or> s = []")
    case True
    then show ?thesis by (simp add: strip_runes.simps [of rs s])
  next
    case False
    with 1 have "suffix (strip_runes rs (drop (leading_rune rs s) s)) (drop (leading_rune rs s) s)"
      by simp
    with False show ?thesis
      by (simp add: strip_runes.simps [of rs s]) (meson suffix_drop suffix_order.trans)
  qed
qed

lemma strip_runes_done: "strip_runes rs s = [] \<or> leading_rune rs (strip_runes rs s) = 0"
proof (induction rs s rule: strip_runes.induct)
  case (1 rs s)
  then show ?case by (cases "leading_rune rs s = 0 \<or> s = []") (auto simp: strip_runes.simps [of rs s])
qed

lemma strip_runes_idem: "leading_rune rs s = 0 \<Longrightarrow> strip_runes rs s = s"
  by (simp add: strip_runes.simps [of rs s])

text \<open>What \<open>TrimSpace\<close> keeps is a contiguous part of its argument.\<close>

lemma TrimSpace_sublist: "sublist (strings_TrimSpace s) s"
proof -
  let ?m = "strip_runes space_runes s"
  have "suffix (rev (strings_TrimSpace s)) (rev ?m)"
    unfolding strings_TrimSpace_def by (simp add: strip_runes_suffix)
  then have "prefix (strings_TrimSpace s) ?m" by (simp add: suffix_to_prefix)
  moreover have "suffix ?m s" by (rule strip_runes_suffix)
  ultimately show ?thesis
    by (meson prefix_imp_sublist suffix_imp_sublist sublist_order.order.trans)
qed

lemma TrimSpace_length: "length (strings_TrimSpace s) \<le> length s"
  using TrimSpace_sublist by (rule sublist_length_le)

lemma TrimSpace_set: "set (strings_TrimSpace s) \<subseteq> set s"
  using TrimSpace_sublist by (rule set_mono_sublist)

text \<open>A string that starts and ends with no space rune is returned unchanged.\<close>

lemma TrimSpace_id:
  assumes "leading_rune space_runes s = 0" and "leading_rune (map rev space_runes) (rev s) = 0"
  shows "strings_TrimSpace s = s"
  using assms by (simp add: strings_TrimSpace_def strip_runes_idem)

section \<open>strconv\<close>

definition digit_char :: "nat \<Rightarrow> char" where
  "digit_char d = char_of (48 + d)"

fun dec_of_nat :: "nat \<Rightarrow> string" where
  "dec_of_nat n = (if n < 10 then [digit_char n] else dec_of_nat (n div 10) @ [digit_char (n mod 10)])"

declare dec_of_nat.simps [simp del]

definition nat_of_dec :: "string \<Rightarrow> nat" where
  "nat_of_dec ds = foldl (\<lambda>n d. 10 * n + (byte d - 48)) 0 ds"

text \<open>\<open>%d\<close>: the decimal numeral of an integer.\<close>

definition itoa :: "int \<Rightarrow> string" where
  "itoa i = (if i < 0 then CHR ''-'' # dec_of_nat (nat (- i)) else dec_of_nat (nat i))"

text \<open>\<open>strconv.Atoi\<close> on a 64-bit platform: \<open>None\<close> for a syntax or a range error.\<close>

definition strconv_Atoi :: "string \<Rightarrow> int option" where
  "strconv_Atoi s =
     (let neg = prefix ''-'' s;
          ds = (if neg \<or> prefix ''+'' s then tl s else s);
          v = (if neg then - int (nat_of_dec ds) else int (nat_of_dec ds))
      in if ds = [] \<or> \<not> list_all is_digit ds then None
         else if v < - (2 ^ 63) \<or> v \<ge> 2 ^ 63 then None
         else Some v)"

lemma byte_digit_char: "d < 10 \<Longrightarrow> byte (digit_char d) = 48 + d"
  by (simp add: digit_char_def)

lemma is_digit_digit_char: "d < 10 \<Longrightarrow> is_digit (digit_char d)"
  by (simp add: is_digit_def byte_digit_char)

lemma nat_of_dec_snoc: "nat_of_dec (ds @ [d]) = 10 * nat_of_dec ds + (byte d - 48)"
  by (simp add: nat_of_dec_def)

lemma dec_of_nat_digits: "list_all is_digit (dec_of_nat n)"
proof (induction n rule: dec_of_nat.induct)
  case (1 n)
  then show ?case
    by (cases "n < 10") (simp_all add: dec_of_nat.simps [of n] is_digit_digit_char)
qed

lemma dec_of_nat_nonempty [simp]: "dec_of_nat n \<noteq> []"
  by (simp add: dec_of_nat.simps [of n])

lemma nat_of_dec_of_nat [simp]: "nat_of_dec (dec_of_nat n) = n"
proof (induction n rule: dec_of_nat.induct)
  case (1 n)
  show ?case
  proof (cases "n < 10")
    case True
    then show ?thesis by (simp add: dec_of_nat.simps [of n] nat_of_dec_def byte_digit_char)
  next
    case False
    with 1 have "nat_of_dec (dec_of_nat (n div 10)) = n div 10" by simp
    with False show ?thesis
      by (simp add: dec_of_nat.simps [of n] nat_of_dec_snoc byte_digit_char)
  qed
qed

lemma dec_of_nat_inj [simp]: "dec_of_nat m = dec_of_nat n \<longleftrightarrow> m = n"
  by (metis nat_of_dec_of_nat)

lemma dec_of_nat_hd_digit: "is_digit (hd (dec_of_nat n))"
  using dec_of_nat_digits [of n] by (cases "dec_of_nat n") auto

lemma not_digit_sign: "\<not> is_digit (CHR ''-'')" "\<not> is_digit (CHR ''+'')" "\<not> is_digit (CHR '':'')"
  "\<not> is_digit (CHR ''.'')"
  by code_simp+

lemma itoa_inj [simp]: "itoa i = itoa j \<longleftrightarrow> i = j"
proof -
  have sign: "CHR ''-'' # ds \<noteq> dec_of_nat n" "dec_of_nat n \<noteq> CHR ''-'' # ds" for ds n
    using dec_of_nat_hd_digit [of n] not_digit_sign by (metis list.sel(1))+
  show ?thesis by (auto simp: itoa_def sign)
qed

lemma not_prefix_sign_dec [simp]:
  "\<not> prefix ''-'' (dec_of_nat n)" "\<not> prefix ''+'' (dec_of_nat n)"
  using dec_of_nat_hd_digit [of n] not_digit_sign
  by (cases "dec_of_nat n"; auto)+

text \<open>Every 64-bit integer survives formatting and parsing.\<close>

lemma Atoi_itoa:
  assumes "- (2 ^ 63) \<le> i" and "i < 2 ^ 63"
  shows "strconv_Atoi (itoa i) = Some i"
proof (cases "i < 0")
  case True
  with assms have "nat (- i) \<le> 2 ^ 63" by (simp add: nat_le_iff)
  with True show ?thesis by (simp add: strconv_Atoi_def itoa_def dec_of_nat_digits)
next
  case False
  with assms have "nat i < 2 ^ 63" by (simp add: nat_less_iff)
  with False show ?thesis by (simp add: strconv_Atoi_def itoa_def dec_of_nat_digits)
qed

section \<open>fmt: the verb \<open>%.3f\<close>\<close>

text \<open>
  The nearest multiple of a thousandth, ties to the even one, as \<open>strconv\<close> rounds the exact value
  of a float64. A finite float64 is a real number here (the sign of zero is left out). \<open>strconv.ParseFloat\<close> also accepts the
  texts of NaN and of the infinities, so a number that comes from a query string is a \<open>go_float\<close>.
\<close>

datatype go_float = Finite real | NaN | PosInf | NegInf

fun is_finite :: "go_float \<Rightarrow> bool" where
  "is_finite (Finite x) = True"
| "is_finite _ = False"

definition round_half_even :: "real \<Rightarrow> int" where
  "round_half_even y =
     (let f = \<lfloor>y\<rfloor>; d = y - of_int f
      in if d < 1/2 then f else if d > 1/2 then f + 1 else if even f then f else f + 1)"

definition millis :: "real \<Rightarrow> nat" where
  "millis x = nat (round_half_even (\<bar>x\<bar> * 1000))"

definition pad3 :: "nat \<Rightarrow> string" where
  "pad3 n = [digit_char (n div 100 mod 10), digit_char (n div 10 mod 10), digit_char (n mod 10)]"

definition fmt_3f :: "real \<Rightarrow> string" where
  "fmt_3f x = (if x < 0 then ''-'' else []) @ dec_of_nat (millis x div 1000) @ ''.'' @ pad3 (millis x mod 1000)"

fun fmt_float :: "go_float \<Rightarrow> string" where
  "fmt_float (Finite x) = fmt_3f x"
| "fmt_float NaN = ''NaN''"
| "fmt_float PosInf = ''+Inf''"
| "fmt_float NegInf = ''-Inf''"

lemma round_half_even_close: "\<bar>of_int (round_half_even y) - y\<bar> \<le> 1/2"
  unfolding round_half_even_def Let_def
  using of_int_floor_le [of y] real_of_int_floor_add_one_gt [of y] by (auto simp: abs_le_iff)

lemma round_half_even_nonneg: "0 \<le> y \<Longrightarrow> 0 \<le> round_half_even y"
  by (auto simp: round_half_even_def Let_def)

lemma millis_close: "\<bar>real (millis x) / 1000 - \<bar>x\<bar>\<bar> \<le> 1/2000"
proof -
  have "0 \<le> round_half_even (\<bar>x\<bar> * 1000)" by (rule round_half_even_nonneg) simp
  then have "real (millis x) = of_int (round_half_even (\<bar>x\<bar> * 1000))" by (simp add: millis_def)
  moreover have "of_int (round_half_even (\<bar>x\<bar> * 1000)) - \<bar>x\<bar> * 1000 \<le> 1/2"
    and "\<bar>x\<bar> * 1000 - of_int (round_half_even (\<bar>x\<bar> * 1000)) \<le> 1/2"
    using round_half_even_close [of "\<bar>x\<bar> * 1000"] by linarith+
  ultimately show ?thesis by (intro abs_leI) linarith+
qed

section \<open>regexp: \<open>#([a-zA-Z0-9_]+)\<close>\<close>

text \<open>
  \<open>hashtagRe.FindAllStringSubmatch(content, -1)\<close>, first group of each match: leftmost,
  longest, non-overlapping.
\<close>

function hashtag_matches :: "string \<Rightarrow> string list" where
  "hashtag_matches [] = []"
| "hashtag_matches (c # cs) =
     (if c = CHR ''#'' \<and> takeWhile is_word cs \<noteq> []
      then takeWhile is_word cs # hashtag_matches (dropWhile is_word cs)
      else hashtag_matches cs)"
  by pat_completeness auto
termination
  by (relation "measure length") (auto simp: le_imp_less_Suc length_dropWhile_le)

text \<open>
  What the scan finds, without the scan: the maximal runs of word characters that follow a hash.
\<close>

definition tagged_run :: "string \<Rightarrow> string \<Rightarrow> bool" where
  "tagged_run s w \<longleftrightarrow>
     w \<noteq> [] \<and> list_all is_word w \<and>
     (\<exists>pre post. s = pre @ CHR ''#'' # w @ post \<and> (post = [] \<or> \<not> is_word (hd post)))"

lemma tagged_run_Nil [simp]: "\<not> tagged_run [] w"
  by (simp add: tagged_run_def)

lemma takeWhile_maximal:
  assumes "list_all P w" and "post = [] \<or> \<not> P (hd post)"
  shows "takeWhile P (w @ post) = w" and "dropWhile P (w @ post) = post"
  using assms by (induction w) (cases post; simp)+

lemma tagged_run_Cons:
  "tagged_run (c # cs) w \<longleftrightarrow>
     (c = CHR ''#'' \<and> w \<noteq> [] \<and> w = takeWhile is_word cs) \<or> tagged_run cs w"
proof
  assume "tagged_run (c # cs) w"
  then obtain pre post where w: "w \<noteq> []" "list_all is_word w"
    and s: "c # cs = pre @ CHR ''#'' # w @ post" and post: "post = [] \<or> \<not> is_word (hd post)"
    by (auto simp: tagged_run_def)
  show "(c = CHR ''#'' \<and> w \<noteq> [] \<and> w = takeWhile is_word cs) \<or> tagged_run cs w"
  proof (cases pre)
    case Nil
    with s have "c = CHR ''#''" and "cs = w @ post" by auto
    with takeWhile_maximal(1) [OF w(2) post] w show ?thesis by simp
  next
    case (Cons p pre')
    with s have "cs = pre' @ CHR ''#'' # w @ post" by simp
    with w post show ?thesis by (auto simp: tagged_run_def)
  qed
next
  assume "(c = CHR ''#'' \<and> w \<noteq> [] \<and> w = takeWhile is_word cs) \<or> tagged_run cs w"
  then show "tagged_run (c # cs) w"
  proof (elim disjE conjE)
    assume c: "c = CHR ''#''" and w: "w \<noteq> []" "w = takeWhile is_word cs"
    have "c # cs = [] @ CHR ''#'' # w @ dropWhile is_word cs" using c w by simp
    moreover have "dropWhile is_word cs = [] \<or> \<not> is_word (hd (dropWhile is_word cs))"
      by (metis hd_dropWhile)
    moreover have "list_all is_word w" using w by (auto simp: list_all_iff dest: set_takeWhileD)
    ultimately show ?thesis using w(1) unfolding tagged_run_def by blast
  next
    assume "tagged_run cs w"
    then show ?thesis unfolding tagged_run_def by (metis append_Cons)
  qed
qed

lemma tagged_run_word_prefix:
  "list_all is_word ws \<Longrightarrow> tagged_run (ws @ cs) w \<longleftrightarrow> tagged_run cs w"
  using not_word_hash by (induction ws) (auto simp: tagged_run_Cons)

lemma hashtag_matches_iff: "w \<in> set (hashtag_matches s) \<longleftrightarrow> tagged_run s w"
proof (induction s rule: hashtag_matches.induct)
  case (2 c cs)
  have split: "tagged_run cs w \<longleftrightarrow> tagged_run (dropWhile is_word cs) w"
    using tagged_run_word_prefix [of "takeWhile is_word cs" "dropWhile is_word cs" w]
    by (auto simp: list_all_iff dest: set_takeWhileD)
  show ?case
  proof (cases "c = CHR ''#'' \<and> takeWhile is_word cs \<noteq> []")
    case True
    with 2(1) split show ?thesis by (auto simp: tagged_run_Cons)
  next
    case False
    with 2(2) show ?thesis by (auto simp: tagged_run_Cons)
  qed
qed simp

section \<open>PostgreSQL text\<close>

text \<open>
  \<open>char_length\<close> counts code points: the bytes of UTF-8 text that are not continuation bytes.
  A text value may not hold a zero byte.
\<close>

definition char_length :: "string \<Rightarrow> nat" where
  "char_length s = count_where (\<lambda>c. \<not> (128 \<le> byte c \<and> byte c < 192)) s"

definition pg_text_ok :: "string \<Rightarrow> bool" where
  "pg_text_ok s \<longleftrightarrow> CHR 0x00 \<notin> set s"

lemma char_length_le: "char_length s \<le> length s"
  by (simp add: char_length_def count_where_def)

lemma char_length_ascii: "list_all is_ascii s \<Longrightarrow> char_length s = length s"
  by (induction s) (auto simp: char_length_def is_ascii_def)

end
