(* ===== verification/Api_Model.thy ===== *)
theory Api_Model
  imports Go_Strings
begin

text \<open>
  The structs of \<open>backend/internal/model\<close> and the \<open>Validate\<close> methods of the requests.
  An instant (\<open>time.Time\<close>) is an integer number of nanoseconds, a \<open>float64\<close> a real number, a
  pointer an option, a slice a list. The error map a \<open>Validate\<close> method returns is the list of
  its entries in the order the code adds them; every key is added at most once.
\<close>

type_synonym instant = int
type_synonym fields = "(string \<times> string) list"

section \<open>user.go\<close>

record user =
  usr_ID :: string
  usr_Username :: string
  usr_Email :: string
  usr_PasswordHash :: string
  usr_AvatarURL :: "string option"
  usr_IsAnonymous :: bool
  usr_CreatedAt :: instant

record RegisterRequest =
  reg_Username :: string
  reg_Email :: string
  reg_Password :: string

definition RegisterRequest_Validate :: "RegisterRequest \<Rightarrow> fields" where
  "RegisterRequest_Validate r =
     (if length (reg_Username r) < 3 \<or> length (reg_Username r) > 30
      then [(''username'', ''doit contenir entre 3 et 30 caracteres'')] else []) @
     (if reg_Email r = [] then [(''email'', ''requis'')] else []) @
     (if length (reg_Password r) < 8 then [(''password'', ''8 caracteres minimum'')] else [])"

record LoginRequest =
  lgn_Email :: string
  lgn_Password :: string

definition LoginRequest_Validate :: "LoginRequest \<Rightarrow> fields" where
  "LoginRequest_Validate r =
     (if lgn_Email r = [] then [(''email'', ''requis'')] else []) @
     (if lgn_Password r = [] then [(''password'', ''requis'')] else [])"

record AuthResponse =
  aur_Token :: string
  aur_User :: user

section \<open>interaction.go\<close>

record Interaction =
  int_ID :: string
  int_MessageID :: string
  int_UserID :: string
  int_Username :: string
  int_Type :: string
  int_Content :: "string option"
  int_CreatedAt :: instant

record CreateCommentRequest =
  ccr_Content :: string

definition CreateCommentRequest_Validate :: "CreateCommentRequest \<Rightarrow> fields" where
  "CreateCommentRequest_Validate r =
     (if ccr_Content r = [] \<or> length (ccr_Content r) > 300
      then [(''content'', ''entre 1 et 300 caracteres'')] else [])"

record LikeResponse =
  lkr_Liked :: bool
  lkr_LikesCount :: int

record ReportRequest =
  rpt_Reason :: string
  rpt_Description :: string

definition validReasons :: "string list" where
  "validReasons = [''spam'', ''harassment'', ''inappropriate'', ''misinformation'', ''other'']"

definition ReportRequest_Validate :: "ReportRequest \<Rightarrow> fields" where
  "ReportRequest_Validate r =
     (if rpt_Reason r = [] then [(''reason'', ''raison requise'')]
      else if rpt_Reason r \<notin> set validReasons
      then [(''reason'', ''raison invalide (spam, harassment, inappropriate, misinformation, other)'')]
      else []) @
     (if length (rpt_Description r) > 500 then [(''description'', ''500 caracteres maximum'')] else [])"

record Reaction =
  rea_ID :: string
  rea_MessageID :: string
  rea_UserID :: string
  rea_Username :: string
  rea_Emoji :: string
  rea_CreatedAt :: instant

record ReactionRequest =
  rrq_Emoji :: string

text \<open>The UTF-8 bytes of the six emoji: heart, joy, open mouth, cry, fire, clap.\<close>

definition allowed_emoji :: "string list" where
  "allowed_emoji =
    [[CHR 0xE2, CHR 0x9D, CHR 0xA4, CHR 0xEF, CHR 0xB8, CHR 0x8F],
     [CHR 0xF0, CHR 0x9F, CHR 0x98, CHR 0x82],
     [CHR 0xF0, CHR 0x9F, CHR 0x98, CHR 0xAE],
     [CHR 0xF0, CHR 0x9F, CHR 0x98, CHR 0xA2],
     [CHR 0xF0, CHR 0x9F, CHR 0x94, CHR 0xA5],
     [CHR 0xF0, CHR 0x9F, CHR 0x91, CHR 0x8F]]"

definition ReactionRequest_Validate :: "ReactionRequest \<Rightarrow> fields" where
  "ReactionRequest_Validate r =
     (if rrq_Emoji r = [] then [(''emoji'', ''emoji requis'')]
      else if rrq_Emoji r \<notin> set allowed_emoji then [(''emoji'', ''emoji non autorise'')]
      else [])"

record ReactionSummary =
  rsm_Emoji :: string
  rsm_Count :: int
  rsm_Reacted :: bool

record ReactionResponse =
  rrs_Reacted :: bool
  rrs_Reactions :: "ReactionSummary list"

section \<open>message.go\<close>

record Message =
  msg_ID :: string
  msg_UserID :: string
  msg_Username :: string
  msg_Content :: string
  msg_Latitude :: real
  msg_Longitude :: real
  msg_Visibility :: string
  msg_Hashtags :: "string list"
  msg_LikesCount :: int
  msg_CommentsCount :: int
  msg_Distance :: "real option"
  msg_CreatedAt :: instant
  msg_MessageType :: string
  msg_ExpiresAt :: "instant option"
  msg_MysteryRadius :: int
  msg_ScheduledAt :: "instant option"
  msg_UnlocksCount :: int
  msg_Reactions :: "ReactionSummary list"

text \<open>
  What \<open>encoding/json\<close> can write of a message: no time outside the years 0 to 9999 (in UTC, the zone of the process in its image). Its
  floats come from the database and are finite.
\<close>

definition json_time :: "instant \<Rightarrow> bool" where
  "json_time t \<longleftrightarrow> - 62167219200000000000 \<le> t \<and> t < 253402300800000000000"

definition json_times :: "Message \<Rightarrow> bool" where
  "json_times m \<longleftrightarrow> json_time (msg_CreatedAt m) \<and> pred_option json_time (msg_ExpiresAt m) \<and> pred_option json_time (msg_ScheduledAt m)"

record CreateMessageRequest =
  cmr_Content :: string
  cmr_Latitude :: real
  cmr_Longitude :: real
  cmr_Visibility :: string
  cmr_MessageType :: string
  cmr_MysteryRadius :: int
  cmr_ScheduledAt :: string

definition CreateMessageRequest_Validate :: "CreateMessageRequest \<Rightarrow> fields" where
  "CreateMessageRequest_Validate r =
     (if cmr_Content r = [] \<or> length (cmr_Content r) > 500
      then [(''content'', ''entre 1 et 500 caracteres'')] else []) @
     (if cmr_Latitude r < -90 \<or> cmr_Latitude r > 90
      then [(''latitude'', ''doit etre entre -90 et 90'')] else []) @
     (if cmr_Longitude r < -180 \<or> cmr_Longitude r > 180
      then [(''longitude'', ''doit etre entre -180 et 180'')] else []) @
     (if cmr_Visibility r \<in> {''public'', ''friends'', ''private'', ''''} then []
      else [(''visibility'', ''public, friends ou private'')]) @
     (if cmr_MessageType r \<in> {''standard'', ''mystery'', ''capsule'', ''''} then []
      else [(''message_type'', ''standard, mystery ou capsule'')]) @
     (if cmr_MessageType r = ''mystery'' \<and> cmr_MysteryRadius r > 500
      then [(''mystery_radius'', ''max 500 metres'')] else []) @
     (if cmr_MessageType r = ''capsule'' \<and> cmr_ScheduledAt r = []
      then [(''scheduled_at'', ''date requise pour une capsule'')] else [])"

record NearbyQuery =
  nq_Latitude :: go_float
  nq_Longitude :: go_float
  nq_Radius :: int
  nq_Limit :: int
  nq_Sort :: string
  nq_Hashtag :: string
  nq_UserID :: string

record HeatmapPoint =
  hmp_Lat :: real
  hmp_Lng :: real
  hmp_Intensity :: int

record LeaderboardEntry =
  lbe_UserID :: string
  lbe_Username :: string
  lbe_TotalPosts :: int
  lbe_TotalLikes :: int
  lbe_Score :: int

record UserStreak =
  stk_UserID :: string
  stk_CurrentStreak :: int
  stk_MaxStreak :: int
  stk_TotalPosts :: int
  stk_TotalZones :: int
  stk_TotalUnlocks :: int

record Badge =
  bdg_ID :: string
  bdg_BadgeType :: string
  bdg_EarnedAt :: instant

record Event =
  evt_GridLat :: real
  evt_GridLng :: real
  evt_MessageCount :: int
  evt_UserCount :: int
  evt_FirstMessageAt :: instant
  evt_LastMessageAt :: instant
  evt_TopHashtags :: "string list"

section \<open>search.go\<close>

record SearchQuery =
  sq_Query :: string
  sq_Type :: string
  sq_Limit :: int
  sq_Offset :: int

record UserSummary =
  usm_ID :: string
  usm_Username :: string

record HashtagResult =
  htr_Tag :: string
  htr_Count :: int

record SearchResult =
  srs_Messages :: "Message list"
  srs_Users :: "UserSummary list"
  srs_Hashtags :: "HashtagResult list"
  srs_Total :: int

section \<open>What a valid request satisfies\<close>

lemma CreateMessage_valid_iff:
  "CreateMessageRequest_Validate r = [] \<longleftrightarrow>
     0 < length (cmr_Content r) \<and> length (cmr_Content r) \<le> 500 \<and>
     \<bar>cmr_Latitude r\<bar> \<le> 90 \<and> \<bar>cmr_Longitude r\<bar> \<le> 180 \<and>
     cmr_Visibility r \<in> {''public'', ''friends'', ''private'', ''''} \<and>
     cmr_MessageType r \<in> {''standard'', ''mystery'', ''capsule'', ''''} \<and>
     (cmr_MessageType r = ''mystery'' \<longrightarrow> cmr_MysteryRadius r \<le> 500) \<and>
     (cmr_MessageType r = ''capsule'' \<longrightarrow> cmr_ScheduledAt r \<noteq> [])"
  by (auto simp: CreateMessageRequest_Validate_def abs_le_iff not_less not_le)

lemma Report_valid_iff:
  "ReportRequest_Validate r = [] \<longleftrightarrow>
     rpt_Reason r \<in> set validReasons \<and> length (rpt_Description r) \<le> 500"
  by (auto simp: ReportRequest_Validate_def validReasons_def)

lemma Reaction_valid_iff: "ReactionRequest_Validate r = [] \<longleftrightarrow> rrq_Emoji r \<in> set allowed_emoji"
  by (auto simp: ReactionRequest_Validate_def allowed_emoji_def)

lemma Comment_valid_iff:
  "CreateCommentRequest_Validate r = [] \<longleftrightarrow> ccr_Content r \<noteq> [] \<and> length (ccr_Content r) \<le> 300"
  by (auto simp: CreateCommentRequest_Validate_def)

lemma Register_valid_iff:
  "RegisterRequest_Validate r = [] \<longleftrightarrow>
     3 \<le> length (reg_Username r) \<and> length (reg_Username r) \<le> 30 \<and> reg_Email r \<noteq> [] \<and>
     8 \<le> length (reg_Password r)"
  by (auto simp: RegisterRequest_Validate_def)

lemmas valid_iffs = CreateMessage_valid_iff Report_valid_iff Reaction_valid_iff Comment_valid_iff
  Register_valid_iff

text \<open>An allowed emoji starts and ends with no space rune, so trimming keeps it.\<close>

lemma allowed_emoji_trim: "e \<in> set allowed_emoji \<Longrightarrow> strings_TrimSpace e = e"
proof (rule TrimSpace_id)
  assume e: "e \<in> set allowed_emoji"
  have "list_all (\<lambda>e. leading_rune space_runes e = 0) allowed_emoji" by code_simp
  with e show "leading_rune space_runes e = 0" by (simp add: list_all_iff)
  have "list_all (\<lambda>e. leading_rune (map rev space_runes) (rev e) = 0) allowed_emoji" by code_simp
  with e show "leading_rune (map rev space_runes) (rev e) = 0" by (simp add: list_all_iff)
qed

end
