(* ===== verification/Database.thy ===== *)
theory Database
  imports Api_Model
begin

text \<open>
  The PostgreSQL schema of \<open>backend/migrations\<close> as a record of tables, the constraints, triggers
  and cascades of the schema as functions on it, and the way one SQL statement runs.

  What the sources do not define is an argument: the record \<open>env\<close> holds the server's clock and
  UUID generator, the PostGIS predicates, the text conversions, and the constraints of the
  table \<open>content_reports\<close>, whose \<open>CREATE TABLE\<close> is in no migration of the repository.

  A table is the list of its rows in the order a scan returns them; nothing proved here depends on
  which order that is. Column values that fit their column type in every run are unbounded integers.
\<close>

section \<open>Tables\<close>

record user_row =
  ur_id :: string
  ur_username :: string
  ur_email :: string
  ur_password_hash :: string
  ur_avatar_url :: "string option"
  ur_is_anonymous :: bool
  ur_created_at :: instant

record message_row =
  mr_id :: string
  mr_user_id :: string
  mr_content :: string
  mr_lat :: real
  mr_lng :: real
  mr_visibility :: string
  mr_hashtags :: "string list"
  mr_likes_count :: int
  mr_comments_count :: int
  mr_created_at :: instant
  mr_message_type :: string
  mr_expires_at :: "instant option"
  mr_mystery_radius :: int
  mr_scheduled_at :: "instant option"
  mr_unlocks_count :: int
  mr_is_hidden :: bool

record interaction_row =
  ir_id :: string
  ir_message_id :: string
  ir_user_id :: string
  ir_type :: string
  ir_content :: "string option"
  ir_created_at :: instant

record unlock_row =
  kr_message_id :: string
  kr_user_id :: string

record streak_row =
  sr_user_id :: string
  sr_current_streak :: int
  sr_max_streak :: int
  sr_last_post_date :: "int option"
  sr_total_posts :: int
  sr_total_zones :: int
  sr_total_unlocks :: int

record badge_row =
  br_id :: string
  br_user_id :: string
  br_badge_type :: string
  br_earned_at :: instant

record reaction_row =
  rr_id :: string
  rr_message_id :: string
  rr_user_id :: string
  rr_emoji :: string
  rr_created_at :: instant

record report_row =
  pr_reporter_id :: string
  pr_message_id :: string
  pr_reason :: string
  pr_description :: string

text \<open>
  The fate of one round trip to the server: it is answered, it never reaches the server, or the
  server executes it and the answer is lost.
\<close>

datatype link = Answered | Unreachable | ReplyLost

record db =
  t_users :: "user_row list"
  t_messages :: "message_row list"
  t_interactions :: "interaction_row list"
  t_unlocks :: "unlock_row list"
  t_streaks :: "streak_row list"
  t_badges :: "badge_row list"
  t_reactions :: "reaction_row list"
  t_reports :: "report_row list"
  t_uuids :: nat
  t_links :: "link list"

text \<open>\<open>t_uuids\<close> counts the UUIDs generated so far, \<open>t_links\<close> is the fate of the round trips to
  come (all answered once the list is empty).\<close>

definition empty_db :: db where
  "empty_db = \<lparr>t_users = [], t_messages = [], t_interactions = [], t_unlocks = [], t_streaks = [],
     t_badges = [], t_reactions = [], t_reports = [], t_uuids = 0, t_links = []\<rparr>"

datatype db_error =
    ConnectionError
  | InvalidTextRepresentation
  | InvalidByteSequence
  | StringDataTruncation
  | NumericOutOfRange
  | CheckViolation string
  | UniqueViolation string
  | ForeignKeyViolation string
  | UnknownConstraint string

text \<open>
  How a Go call fails: the sentinel errors, an error of the server, an \<open>errors.New\<close> of the code, an error
  of a library; \<open>Panic\<close> is a run-time panic, which no error branch sees and which unwinds to the HTTP server.
\<close>

datatype go_error = ErrNotFound | ErrNoRows | ErrDB db_error | ErrNew string | ErrLibrary string | Panic string

type_synonym 'a stmt = "(db, db_error, 'a) call"
type_synonym 'a action = "(db, go_error, 'a) call"

record env =
  uuid_in :: "string \<Rightarrow> string option"
  uuid_v4 :: "nat \<Rightarrow> string"
  db_now :: instant
  db_today :: int
  pg_ts :: "instant \<Rightarrow> instant"
  st_dwithin :: "real \<times> real \<Rightarrow> go_float \<times> go_float \<Rightarrow> int \<Rightarrow> bool"
  st_distance :: "real \<times> real \<Rightarrow> go_float \<times> go_float \<Rightarrow> real"
  st_in_envelope :: "real \<times> real \<Rightarrow> real \<times> real \<Rightarrow> real \<times> real \<Rightarrow> bool"
  pg_round :: "real \<Rightarrow> nat \<Rightarrow> real"
  pg_lower :: "string \<Rightarrow> string"
  pg_collate :: "string \<Rightarrow> real"
  rows_seen :: "nat \<Rightarrow> nat option"
  report_conflict :: "report_row \<Rightarrow> report_row \<Rightarrow> bool"
  report_reject :: "report_row \<Rightarrow> db \<Rightarrow> db_error option"
  report_on_delete :: "string list \<Rightarrow> report_row list \<Rightarrow> db_error + report_row list"
  go_now :: instant
  uni_lower :: "string \<Rightarrow> string"
  time_Parse :: "string \<Rightarrow> instant option"
  strconv_ParseFloat :: "string \<Rightarrow> go_float option"

text \<open>
  \<open>uuid_in\<close> reads a UUID parameter (\<open>None\<close>: the server rejects the text) and gives its canonical
  text; \<open>pg_ts\<close> is the precision of \<open>TIMESTAMPTZ\<close>; a point is a pair (longitude, latitude);
  the point of a query may have coordinates that are not finite, and then \<open>st_dwithin\<close> says which rows the range conditions let through
  (none when the server rejects the statement); the distance of a row in range is a number; \<open>pg_round x n\<close>
  is \<open>ROUND(x::numeric, n)\<close>; \<open>pg_collate\<close> orders text as the database's collation does; \<open>rows_seen\<close> is
  how many rows of an answer arrive before a connection breaks (below); the three \<open>report\<close> fields are what the unknown
  definition of \<open>content_reports\<close> does on conflict, on insert and on the deletion of a message. The last four fields belong to the Go
  process: its clock, the Unicode case table, and the parsers of RFC 3339 times and of floats.
  One environment describes one request, which reads one instant of each clock.
\<close>

section \<open>One SQL statement\<close>

definition next_link :: "db \<Rightarrow> link \<times> db" where
  "next_link d = (case t_links d of [] \<Rightarrow> (Answered, d) | l # ls \<Rightarrow> (l, d\<lparr>t_links := ls\<rparr>))"

text \<open>
  A statement of its own transaction: it takes effect as a whole or, when a constraint rejects it,
  not at all.
\<close>

definition exec :: "'a stmt \<Rightarrow> 'a action" where
  "exec st d =
     (case next_link d of (l, d1) \<Rightarrow>
        if l = Unreachable then (Inl (ErrDB ConnectionError), d1)
        else (case st d1 of
            (Inl e, d2) \<Rightarrow> (Inl (ErrDB (if l = ReplyLost then ConnectionError else e)), d1)
          | (Inr x, d2) \<Rightarrow> if l = ReplyLost then (Inl (ErrDB ConnectionError), d2) else (Inr x, d2)))"

text \<open>A query: it reads the tables and changes none.\<close>

definition query :: "(db \<Rightarrow> db_error + 'a) \<Rightarrow> 'a action" where
  "query q = exec (\<lambda>d. (q d, d))"

text \<open>
  \<open>pool.Query\<close> and the loop over \<open>rows.Next()\<close>, after which the code never asks \<open>rows.Err()\<close>. By the documentation of pgx, \<open>Query\<close>
  itself reports only what goes wrong before the statement is sent (no connection, a parameter that cannot be encoded: an
  integer beyond the width of the column); an error of the server, and a connection that breaks later, end the loop, so that the code goes on with the rows it has, as
  if there were no more. For the statement with \<open>k\<close> fates to come, \<open>rows_seen env k\<close> is the number of rows that arrive before the connection
  breaks, or \<open>None\<close> when \<open>Query\<close> notices.
\<close>

definition encode_error :: "db_error \<Rightarrow> bool" where
  "encode_error e \<longleftrightarrow> e = NumericOutOfRange"

definition received :: "link \<Rightarrow> nat \<Rightarrow> 'a list \<Rightarrow> 'a list" where
  "received l n rows = (case l of Answered \<Rightarrow> rows | Unreachable \<Rightarrow> [] | ReplyLost \<Rightarrow> take n rows)"

definition query_rows :: "env \<Rightarrow> (db \<Rightarrow> db_error + 'a list) \<Rightarrow> 'a list action" where
  "query_rows env q d =
     (case next_link d of (l, d1) \<Rightarrow>
        let seen = rows_seen env (length (t_links d)) in
        if l \<noteq> Answered \<and> seen = None then (Inl (ErrDB ConnectionError), d1)
        else (case q d1 of
                Inl e \<Rightarrow> (if encode_error e then Inl (ErrDB e) else Inr [], d1)
              | Inr rows \<Rightarrow> (Inr (received l (the seen) rows), d1)))"

definition gen_uuid :: "env \<Rightarrow> db \<Rightarrow> string \<times> db" where
  "gen_uuid env d = (uuid_v4 env (t_uuids d), d\<lparr>t_uuids := Suc (t_uuids d)\<rparr>)"

section \<open>Constraints, triggers and cascades of the migrations\<close>

definition has_user :: "db \<Rightarrow> string \<Rightarrow> bool" where
  "has_user d u \<longleftrightarrow> (\<exists>r \<in> set (t_users d). ur_id r = u)"

definition has_message :: "db \<Rightarrow> string \<Rightarrow> bool" where
  "has_message d m \<longleftrightarrow> (\<exists>r \<in> set (t_messages d). mr_id r = m)"

definition username_format :: "string \<Rightarrow> bool" where
  "username_format s \<longleftrightarrow> 3 \<le> length s \<and> length s \<le> 30 \<and> list_all is_word s"

definition insert_user :: "user_row \<Rightarrow> db \<Rightarrow> db_error + db" where
  "insert_user r d =
     (if \<not> pg_text_ok (ur_username r) \<or> \<not> pg_text_ok (ur_email r) \<or> \<not> pg_text_ok (ur_password_hash r)
      then Inl InvalidByteSequence
      else if char_length (ur_username r) > 30 \<or> char_length (ur_email r) > 255
      then Inl StringDataTruncation
      else if \<not> username_format (ur_username r) then Inl (CheckViolation ''username_format'')
      else if has_user d (ur_id r) then Inl (UniqueViolation ''users_pkey'')
      else if \<exists>x \<in> set (t_users d). ur_username x = ur_username r
      then Inl (UniqueViolation ''users_username_key'')
      else if \<exists>x \<in> set (t_users d). ur_email x = ur_email r
      then Inl (UniqueViolation ''users_email_key'')
      else Inr (d\<lparr>t_users := t_users d @ [r]\<rparr>))"

definition valid_visibilities :: "string list" where
  "valid_visibilities = [''public'', ''friends'', ''private'']"

definition valid_message_types :: "string list" where
  "valid_message_types = [''standard'', ''mystery'', ''capsule'']"

definition int4_ok :: "int \<Rightarrow> bool" where
  "int4_ok i \<longleftrightarrow> - 2147483648 \<le> i \<and> i \<le> 2147483647"

definition insert_message :: "message_row \<Rightarrow> db \<Rightarrow> db_error + db" where
  "insert_message r d =
     (if \<not> pg_text_ok (mr_content r) then Inl InvalidByteSequence
      else if \<not> int4_ok (mr_mystery_radius r) then Inl NumericOutOfRange
      else if char_length (mr_visibility r) > 10 \<or> char_length (mr_message_type r) > 10
      then Inl StringDataTruncation
      else if \<not> char_length (mr_content r) > 0 then Inl (CheckViolation ''content_not_empty'')
      else if \<not> char_length (mr_content r) \<le> 500 then Inl (CheckViolation ''content_max_length'')
      else if mr_visibility r \<notin> set valid_visibilities then Inl (CheckViolation ''valid_visibility'')
      else if mr_message_type r \<notin> set valid_message_types
      then Inl (CheckViolation ''valid_message_type'')
      else if has_message d (mr_id r) then Inl (UniqueViolation ''messages_pkey'')
      else if \<not> has_user d (mr_user_id r) then Inl (ForeignKeyViolation ''messages_user_id_fkey'')
      else Inr (d\<lparr>t_messages := t_messages d @ [r]\<rparr>))"

text \<open>\<open>update_interaction_counts\<close>: \<open>delta\<close> is 1 after an INSERT and -1 after a DELETE.\<close>

definition update_interaction_counts :: "int \<Rightarrow> interaction_row \<Rightarrow> db \<Rightarrow> db" where
  "update_interaction_counts delta r d =
     (if ir_type r = ''like''
      then d\<lparr>t_messages := update_where (\<lambda>m. mr_id m = ir_message_id r)
                (\<lambda>m. m\<lparr>mr_likes_count := mr_likes_count m + delta\<rparr>) (t_messages d)\<rparr>
      else if ir_type r = ''comment''
      then d\<lparr>t_messages := update_where (\<lambda>m. mr_id m = ir_message_id r)
                (\<lambda>m. m\<lparr>mr_comments_count := mr_comments_count m + delta\<rparr>) (t_messages d)\<rparr>
      else d)"

definition comment_has_content :: "interaction_row \<Rightarrow> bool" where
  "comment_has_content r \<longleftrightarrow>
     (ir_type r = ''comment'' \<and> (case ir_content r of None \<Rightarrow> False | Some c \<Rightarrow> char_length c > 0)) \<or>
     ir_type r = ''like''"

definition is_like_of :: "string \<Rightarrow> string \<Rightarrow> interaction_row \<Rightarrow> bool" where
  "is_like_of m u r \<longleftrightarrow> ir_message_id r = m \<and> ir_user_id r = u \<and> ir_type r = ''like''"

definition insert_interaction :: "interaction_row \<Rightarrow> db \<Rightarrow> db_error + db" where
  "insert_interaction r d =
     (if \<not> (case ir_content r of None \<Rightarrow> True | Some c \<Rightarrow> pg_text_ok c) then Inl InvalidByteSequence
      else if ir_type r \<notin> {''like'', ''comment''} then Inl (CheckViolation ''valid_type'')
      else if \<not> comment_has_content r then Inl (CheckViolation ''comment_has_content'')
      else if \<exists>x \<in> set (t_interactions d). ir_id x = ir_id r
      then Inl (UniqueViolation ''interactions_pkey'')
      else if ir_type r = ''like'' \<and>
              (\<exists>x \<in> set (t_interactions d). is_like_of (ir_message_id r) (ir_user_id r) x)
      then Inl (UniqueViolation ''one_like_per_user_per_message'')
      else if \<not> has_message d (ir_message_id r)
      then Inl (ForeignKeyViolation ''interactions_message_id_fkey'')
      else if \<not> has_user d (ir_user_id r) then Inl (ForeignKeyViolation ''interactions_user_id_fkey'')
      else Inr (update_interaction_counts 1 r (d\<lparr>t_interactions := t_interactions d @ [r]\<rparr>)))"

definition delete_interactions :: "(interaction_row \<Rightarrow> bool) \<Rightarrow> db \<Rightarrow> db" where
  "delete_interactions P d =
     fold (update_interaction_counts (-1)) (filter P (t_interactions d))
       (d\<lparr>t_interactions := filter (\<lambda>r. \<not> P r) (t_interactions d)\<rparr>)"

text \<open>
  Deleting messages cascades to their interactions, unlocks and reactions. The count trigger that
  fires for a cascaded interaction updates no row: its message is gone.
\<close>

definition delete_messages :: "env \<Rightarrow> (message_row \<Rightarrow> bool) \<Rightarrow> db \<Rightarrow> db_error + db" where
  "delete_messages env P d =
     (let gone = map mr_id (filter P (t_messages d)) in
      if gone = [] then Inr d
      else case report_on_delete env gone (t_reports d) of
        Inl e \<Rightarrow> Inl e
      | Inr reps \<Rightarrow> Inr (d\<lparr>t_messages := filter (\<lambda>m. \<not> P m) (t_messages d),
            t_interactions := filter (\<lambda>r. ir_message_id r \<notin> set gone) (t_interactions d),
            t_unlocks := filter (\<lambda>r. kr_message_id r \<notin> set gone) (t_unlocks d),
            t_reactions := filter (\<lambda>r. rr_message_id r \<notin> set gone) (t_reactions d),
            t_reports := reps\<rparr>))"

text \<open>The trigger \<open>update_unlock_count\<close> runs for the inserted row.\<close>

definition insert_unlock :: "unlock_row \<Rightarrow> db \<Rightarrow> db_error + bool \<times> db" where
  "insert_unlock r d =
     (if \<exists>x \<in> set (t_unlocks d). kr_message_id x = kr_message_id r \<and> kr_user_id x = kr_user_id r
      then Inr (False, d)
      else if \<not> has_message d (kr_message_id r)
      then Inl (ForeignKeyViolation ''message_unlocks_message_id_fkey'')
      else if \<not> has_user d (kr_user_id r) then Inl (ForeignKeyViolation ''message_unlocks_user_id_fkey'')
      else Inr (True, d\<lparr>t_unlocks := t_unlocks d @ [r],
             t_messages := update_where (\<lambda>m. mr_id m = kr_message_id r)
               (\<lambda>m. m\<lparr>mr_unlocks_count := mr_unlocks_count m + 1\<rparr>) (t_messages d)\<rparr>))"

definition insert_badge :: "badge_row \<Rightarrow> db \<Rightarrow> db_error + db" where
  "insert_badge r d =
     (if char_length (br_badge_type r) > 30 then Inl StringDataTruncation
      else if \<exists>x \<in> set (t_badges d). br_user_id x = br_user_id r \<and> br_badge_type x = br_badge_type r
      then Inr d
      else if \<exists>x \<in> set (t_badges d). br_id x = br_id r then Inr d
      else if \<not> has_user d (br_user_id r) then Inl (ForeignKeyViolation ''user_badges_user_id_fkey'')
      else Inr (d\<lparr>t_badges := t_badges d @ [r]\<rparr>))"

definition insert_reaction :: "reaction_row \<Rightarrow> db \<Rightarrow> db_error + db" where
  "insert_reaction r d =
     (if \<not> pg_text_ok (rr_emoji r) then Inl InvalidByteSequence
      else if char_length (rr_emoji r) > 10 then Inl StringDataTruncation
      else if \<exists>x \<in> set (t_reactions d). rr_id x = rr_id r then Inl (UniqueViolation ''reactions_pkey'')
      else if \<exists>x \<in> set (t_reactions d). rr_message_id x = rr_message_id r \<and>
                 rr_user_id x = rr_user_id r \<and> rr_emoji x = rr_emoji r
      then Inl (UniqueViolation ''reactions_message_id_user_id_emoji_key'')
      else if \<not> has_message d (rr_message_id r)
      then Inl (ForeignKeyViolation ''reactions_message_id_fkey'')
      else if \<not> has_user d (rr_user_id r) then Inl (ForeignKeyViolation ''reactions_user_id_fkey'')
      else Inr (d\<lparr>t_reactions := t_reactions d @ [r]\<rparr>))"

text \<open>\<open>ON CONFLICT DO NOTHING\<close> on \<open>content_reports\<close>, with the reason constraint of migration 007.\<close>

definition insert_report :: "env \<Rightarrow> report_row \<Rightarrow> db \<Rightarrow> db_error + db" where
  "insert_report env r d =
     (if \<not> pg_text_ok (pr_reason r) \<or> \<not> pg_text_ok (pr_description r) then Inl InvalidByteSequence
      else if pr_reason r \<notin> set validReasons then Inl (CheckViolation ''valid_report_reason'')
      else if \<exists>x \<in> set (t_reports d). report_conflict env r x then Inr d
      else (case report_reject env r d of
              Some e \<Rightarrow> Inl e
            | None \<Rightarrow> Inr (d\<lparr>t_reports := t_reports d @ [r]\<rparr>)))"

section \<open>A concrete environment\<close>

text \<open>
  An environment in which the examples run: every non-empty text is a UUID, distance is measured
  in degrees along the axes, the only float text is that of NaN, and a user reports a message at most once.
\<close>

definition demo_env :: env where
  "demo_env = \<lparr>uuid_in = (\<lambda>s. if s = [] then None else Some s),
     uuid_v4 = (\<lambda>n. ''uuid-'' @ dec_of_nat n), db_now = 1000, db_today = 100, pg_ts = (\<lambda>t. t),
     st_dwithin = (\<lambda>p q r. case q of (Finite x, Finite y) \<Rightarrow> \<bar>fst p - x\<bar> + \<bar>snd p - y\<bar> \<le> of_int r | _ \<Rightarrow> False),
     st_distance = (\<lambda>p q. case q of (Finite x, Finite y) \<Rightarrow> \<bar>fst p - x\<bar> + \<bar>snd p - y\<bar> | _ \<Rightarrow> 0),
     st_in_envelope = (\<lambda>p q r. True), pg_round = (\<lambda>x n. x), pg_lower = map lower_byte,
     pg_collate = (\<lambda>s. 0), rows_seen = (\<lambda>n. Some 1),
     report_conflict = (\<lambda>a b. pr_reporter_id a = pr_reporter_id b \<and> pr_message_id a = pr_message_id b),
     report_reject = (\<lambda>r d. None),
     report_on_delete = (\<lambda>ids rs. Inr (filter (\<lambda>r. pr_message_id r \<notin> set ids) rs)),
     go_now = 1000, uni_lower = (\<lambda>s. s), time_Parse = (\<lambda>s. if s = ''later'' then Some 5000 else None),
     strconv_ParseFloat = (\<lambda>s. if s = ''NaN'' then Some NaN else None)\<rparr>"

definition demo_user :: "string \<Rightarrow> string \<Rightarrow> user_row" where
  "demo_user i name = \<lparr>ur_id = i, ur_username = name, ur_email = name, ur_password_hash = ''h'',
     ur_avatar_url = None, ur_is_anonymous = False, ur_created_at = 0\<rparr>"

definition demo_message :: "string \<Rightarrow> string \<Rightarrow> message_row" where
  "demo_message i u = \<lparr>mr_id = i, mr_user_id = u, mr_content = ''hello'', mr_lat = 0, mr_lng = 0,
     mr_visibility = ''public'', mr_hashtags = [], mr_likes_count = 0, mr_comments_count = 0,
     mr_created_at = 0, mr_message_type = ''standard'', mr_expires_at = None, mr_mystery_radius = 50,
     mr_scheduled_at = None, mr_unlocks_count = 0, mr_is_hidden = False\<rparr>"

text \<open>Two users, \<open>alice\<close> and \<open>bobby\<close>, and one message \<open>m1\<close> of \<open>alice\<close>.\<close>

definition demo_db :: db where
  "demo_db = empty_db\<lparr>t_users := [demo_user ''alice'' ''alice'', demo_user ''bobby'' ''bobby''],
     t_messages := [demo_message ''m1'' ''alice'']\<rparr>"

end
