(* ===== verification/Db_Invariant.thy ===== *)
theory Db_Invariant
  imports Database
begin

text \<open>
  What the schema promises of every state of the database: keys are unique, references resolve,
  checks hold, and the counters the triggers maintain equal the number of rows they count. Every
  insertion and deletion of \<open>Database\<close> keeps it. A statement with this contract is the
  locale \<open>pg_statement\<close>; what follows for its execution over an unreliable connection is proved
  there once.
\<close>

section \<open>The invariant\<close>

definition wf_users :: "db \<Rightarrow> bool" where
  "wf_users d \<longleftrightarrow>
     distinct (map ur_id (t_users d)) \<and> distinct (map ur_username (t_users d)) \<and>
     distinct (map ur_email (t_users d)) \<and> (\<forall>r \<in> set (t_users d). username_format (ur_username r))"

definition message_row_ok :: "db \<Rightarrow> message_row \<Rightarrow> bool" where
  "message_row_ok d m \<longleftrightarrow>
     has_user d (mr_user_id m) \<and> 0 < char_length (mr_content m) \<and> char_length (mr_content m) \<le> 500 \<and>
     mr_visibility m \<in> set valid_visibilities \<and> mr_message_type m \<in> set valid_message_types"

definition wf_messages :: "db \<Rightarrow> bool" where
  "wf_messages d \<longleftrightarrow>
     distinct (map mr_id (t_messages d)) \<and> (\<forall>m \<in> set (t_messages d). message_row_ok d m)"

definition like_key :: "interaction_row \<Rightarrow> string \<times> string" where
  "like_key r = (ir_message_id r, ir_user_id r)"

definition is_like :: "interaction_row \<Rightarrow> bool" where
  "is_like r \<longleftrightarrow> ir_type r = ''like''"

definition is_comment :: "interaction_row \<Rightarrow> bool" where
  "is_comment r \<longleftrightarrow> ir_type r = ''comment''"

definition wf_interactions :: "db \<Rightarrow> bool" where
  "wf_interactions d \<longleftrightarrow>
     distinct (map ir_id (t_interactions d)) \<and>
     distinct (map like_key (filter is_like (t_interactions d))) \<and>
     (\<forall>r \<in> set (t_interactions d).
        has_message d (ir_message_id r) \<and> has_user d (ir_user_id r) \<and> comment_has_content r)"

definition unlock_key :: "unlock_row \<Rightarrow> string \<times> string" where
  "unlock_key r = (kr_message_id r, kr_user_id r)"

definition wf_unlocks :: "db \<Rightarrow> bool" where
  "wf_unlocks d \<longleftrightarrow>
     distinct (map unlock_key (t_unlocks d)) \<and>
     (\<forall>r \<in> set (t_unlocks d). has_message d (kr_message_id r) \<and> has_user d (kr_user_id r))"

definition reaction_key :: "reaction_row \<Rightarrow> string \<times> string \<times> string" where
  "reaction_key r = (rr_message_id r, rr_user_id r, rr_emoji r)"

definition wf_reactions :: "db \<Rightarrow> bool" where
  "wf_reactions d \<longleftrightarrow>
     distinct (map rr_id (t_reactions d)) \<and> distinct (map reaction_key (t_reactions d)) \<and>
     (\<forall>r \<in> set (t_reactions d). has_message d (rr_message_id r) \<and> has_user d (rr_user_id r))"

definition badge_key :: "badge_row \<Rightarrow> string \<times> string" where
  "badge_key r = (br_user_id r, br_badge_type r)"

definition wf_badges :: "db \<Rightarrow> bool" where
  "wf_badges d \<longleftrightarrow>
     distinct (map br_id (t_badges d)) \<and> distinct (map badge_key (t_badges d)) \<and>
     (\<forall>r \<in> set (t_badges d). has_user d (br_user_id r))"

definition streak_row_ok :: "streak_row \<Rightarrow> bool" where
  "streak_row_ok s \<longleftrightarrow>
     0 \<le> sr_current_streak s \<and> sr_current_streak s \<le> sr_max_streak s \<and> 0 \<le> sr_total_posts s \<and>
     0 \<le> sr_total_zones s \<and> 0 \<le> sr_total_unlocks s"

definition wf_streaks :: "db \<Rightarrow> bool" where
  "wf_streaks d \<longleftrightarrow>
     distinct (map sr_user_id (t_streaks d)) \<and>
     (\<forall>s \<in> set (t_streaks d). has_user d (sr_user_id s) \<and> streak_row_ok s)"

definition counts_ok :: "db \<Rightarrow> message_row \<Rightarrow> bool" where
  "counts_ok d m \<longleftrightarrow>
     mr_likes_count m = int (count_where (\<lambda>r. ir_message_id r = mr_id m \<and> is_like r) (t_interactions d)) \<and>
     mr_comments_count m = int (count_where (\<lambda>r. ir_message_id r = mr_id m \<and> is_comment r) (t_interactions d)) \<and>
     mr_unlocks_count m = int (count_where (\<lambda>r. kr_message_id r = mr_id m) (t_unlocks d))"

definition wf_counts :: "db \<Rightarrow> bool" where
  "wf_counts d \<longleftrightarrow> (\<forall>m \<in> set (t_messages d). counts_ok d m)"

definition db_ok :: "db \<Rightarrow> bool" where
  "db_ok d \<longleftrightarrow> wf_users d \<and> wf_messages d \<and> wf_interactions d \<and> wf_unlocks d \<and> wf_reactions d \<and>
     wf_badges d \<and> wf_streaks d \<and> wf_counts d"

lemmas wf_defs = wf_users_def wf_messages_def wf_interactions_def wf_unlocks_def wf_reactions_def
  wf_badges_def wf_streaks_def wf_counts_def

section \<open>Frames\<close>

text \<open>References only depend on the users and on the identifiers of the messages.\<close>

lemma has_user_cong: "t_users d' = t_users d \<Longrightarrow> has_user d' u = has_user d u"
  by (simp add: has_user_def)

lemma has_message_iff: "has_message d m \<longleftrightarrow> m \<in> set (map mr_id (t_messages d))"
  by (auto simp: has_message_def)

lemma has_message_cong: "map mr_id (t_messages d') = map mr_id (t_messages d) \<Longrightarrow> has_message d' m = has_message d m"
  by (metis has_message_iff)

text \<open>The invariant does not read the UUID counter, the connection or the reports.\<close>

lemma db_ok_frame:
  assumes "t_users d' = t_users d" "t_messages d' = t_messages d" "t_interactions d' = t_interactions d"
    "t_unlocks d' = t_unlocks d" "t_streaks d' = t_streaks d" "t_badges d' = t_badges d"
    "t_reactions d' = t_reactions d"
  shows "db_ok d' = db_ok d"
  using assms by (simp add: db_ok_def wf_defs message_row_ok_def counts_ok_def has_user_def has_message_def)

lemma db_ok_frames [simp]:
  "db_ok (d\<lparr>t_uuids := n\<rparr>) = db_ok d" "db_ok (d\<lparr>t_links := ls\<rparr>) = db_ok d"
  "db_ok (d\<lparr>t_reports := rs\<rparr>) = db_ok d"
  by (rule db_ok_frame; simp)+

lemma empty_db_ok: "db_ok empty_db"
  by (simp add: db_ok_def wf_defs empty_db_def)

lemma db_ok_refs:
  assumes "db_ok d"
  shows "r \<in> set (t_interactions d) \<Longrightarrow> has_message d (ir_message_id r)"
    and "k \<in> set (t_unlocks d) \<Longrightarrow> has_message d (kr_message_id k)"
    and "e \<in> set (t_reactions d) \<Longrightarrow> has_message d (rr_message_id e)"
    and "m \<in> set (t_messages d) \<Longrightarrow> has_user d (mr_user_id m)"
  using assms by (simp_all add: db_ok_def wf_defs message_row_ok_def)

lemma demo_db_ok: "db_ok demo_db"
  unfolding db_ok_def wf_defs by code_simp

section \<open>Insertions\<close>

lemma insert_user_ok:
  assumes "insert_user r d = Inr d'" and "db_ok d"
  shows "db_ok d'"
proof -
  from assms(1) have d': "d' = d\<lparr>t_users := t_users d @ [r]\<rparr>"
    and new: "ur_id r \<notin> set (map ur_id (t_users d))" "ur_username r \<notin> set (map ur_username (t_users d))"
      "ur_email r \<notin> set (map ur_email (t_users d))" "username_format (ur_username r)"
    by (auto simp: insert_user_def has_user_def split: if_splits)
  have mono: "has_user d u \<Longrightarrow> has_user d' u" for u by (auto simp: d' has_user_def)
  have "has_message d' = has_message d" by (simp add: d' has_message_def fun_eq_iff)
  with assms(2) new mono show ?thesis
    by (simp add: db_ok_def wf_defs message_row_ok_def counts_ok_def d')
qed

lemma insert_message_ok:
  assumes "insert_message r d = Inr d'" and "db_ok d"
    and "mr_likes_count r = 0" "mr_comments_count r = 0" "mr_unlocks_count r = 0"
  shows "db_ok d'"
proof -
  from assms(1) have d': "d' = d\<lparr>t_messages := t_messages d @ [r]\<rparr>"
    and new: "mr_id r \<notin> set (map mr_id (t_messages d))" and row: "message_row_ok d r"
    by (auto simp: insert_message_def has_message_def message_row_ok_def split: if_splits)
  have user: "has_user d' = has_user d" by (simp add: d' has_user_def fun_eq_iff)
  have mono: "has_message d m \<Longrightarrow> has_message d' m" for m by (auto simp: d' has_message_def)
  have refs: "\<forall>x \<in> set (t_interactions d). ir_message_id x \<noteq> mr_id r"
    "\<forall>x \<in> set (t_unlocks d). kr_message_id x \<noteq> mr_id r"
    using db_ok_refs [OF assms(2)] new unfolding has_message_iff by metis+
  have "counts_ok d' r"
    using refs assms(3-5) by (auto simp: counts_ok_def d' count_where_zero)
  with assms(2) new row mono user show ?thesis
    by (simp add: db_ok_def wf_defs message_row_ok_def counts_ok_def d')
qed

text \<open>Rewriting counters keeps everything but the counters.\<close>

lemma db_ok_counters:
  assumes "db_ok d" and f: "\<And>m. mr_id (f m) = mr_id m \<and> mr_user_id (f m) = mr_user_id m \<and>
      mr_content (f m) = mr_content m \<and> mr_visibility (f m) = mr_visibility m \<and>
      mr_message_type (f m) = mr_message_type m"
    and d': "d' = d\<lparr>t_messages := map f (t_messages d)\<rparr>"
  shows "wf_users d'" "wf_messages d'" "wf_interactions d'" "wf_unlocks d'" "wf_reactions d'"
    "wf_badges d'" "wf_streaks d'"
proof -
  have user: "has_user d' = has_user d" by (simp add: d' has_user_def fun_eq_iff)
  have ids: "map mr_id (t_messages d') = map mr_id (t_messages d)" using f by (simp add: d')
  have msg: "has_message d' = has_message d" by (rule ext) (rule has_message_cong [OF ids])
  show "wf_messages d'"
    using assms(1) f unfolding wf_messages_def message_row_ok_def ids user
    by (auto simp: db_ok_def wf_messages_def message_row_ok_def d')
  show "wf_users d'" "wf_interactions d'" "wf_unlocks d'" "wf_reactions d'" "wf_badges d'" "wf_streaks d'"
    using assms(1) user msg by (simp_all add: db_ok_def wf_defs d')
qed

text \<open>The count trigger in closed form.\<close>

definition count_rows :: "(interaction_row \<Rightarrow> bool) \<Rightarrow> message_row \<Rightarrow> interaction_row list \<Rightarrow> int" where
  "count_rows K m rs = int (count_where (\<lambda>r. ir_message_id r = mr_id m \<and> K r) rs)"

definition shift_counts :: "int \<Rightarrow> interaction_row list \<Rightarrow> message_row \<Rightarrow> message_row" where
  "shift_counts delta rs m = m\<lparr>mr_likes_count := mr_likes_count m + delta * count_rows is_like m rs,
     mr_comments_count := mr_comments_count m + delta * count_rows is_comment m rs\<rparr>"

lemma shift_counts_frame [simp]:
  "mr_id (shift_counts k rs m) = mr_id m" "mr_user_id (shift_counts k rs m) = mr_user_id m"
  "mr_content (shift_counts k rs m) = mr_content m"
  "mr_visibility (shift_counts k rs m) = mr_visibility m"
  "mr_message_type (shift_counts k rs m) = mr_message_type m"
  "mr_unlocks_count (shift_counts k rs m) = mr_unlocks_count m"
  by (simp_all add: shift_counts_def)

lemma shift_counts_Nil [simp]: "shift_counts k [] m = m"
  by (simp add: shift_counts_def count_rows_def)

lemma shift_counts_Cons: "shift_counts k (r # rs) m = shift_counts k rs (shift_counts k [r] m)"
  by (simp add: shift_counts_def count_rows_def algebra_simps)

lemma update_interaction_counts_eq:
  "update_interaction_counts k r d = d\<lparr>t_messages := map (shift_counts k [r]) (t_messages d)\<rparr>"
proof -
  have eq: "shift_counts k [r] m =
      (if mr_id m = ir_message_id r then
         (if is_like r then m\<lparr>mr_likes_count := mr_likes_count m + k\<rparr>
          else if is_comment r then m\<lparr>mr_comments_count := mr_comments_count m + k\<rparr> else m)
       else m)" for m
    by (auto simp: shift_counts_def count_rows_def is_like_def is_comment_def)
  show ?thesis
    unfolding update_interaction_counts_def update_where_def eq is_like_def is_comment_def
    by (simp cong: if_cong)
qed

lemma fold_update_interaction_counts:
  "fold (update_interaction_counts k) rs d = d\<lparr>t_messages := map (shift_counts k rs) (t_messages d)\<rparr>"
proof (induction rs arbitrary: d)
  case (Cons r rs)
  have "fold (update_interaction_counts k) (r # rs) d =
      d\<lparr>t_messages := map (\<lambda>m. shift_counts k rs (shift_counts k [r] m)) (t_messages d)\<rparr>"
    unfolding fold_simps comp_def Cons update_interaction_counts_eq by (simp add: comp_def)
  then show ?case by (simp only: shift_counts_Cons [symmetric])
qed (simp add: map_idI)

lemma insert_interaction_ok:
  assumes "insert_interaction r d = Inr d'" and "db_ok d"
  shows "db_ok d'"
proof -
  let ?d = "d\<lparr>t_interactions := t_interactions d @ [r]\<rparr>"
  from assms(1) have d': "d' = ?d\<lparr>t_messages := map (shift_counts 1 [r]) (t_messages ?d)\<rparr>"
    and new: "ir_id r \<notin> set (map ir_id (t_interactions d))"
      "is_like r \<Longrightarrow> like_key r \<notin> set (map like_key (filter is_like (t_interactions d)))"
      "has_message d (ir_message_id r)" "has_user d (ir_user_id r)" "comment_has_content r"
    by (auto simp: insert_interaction_def update_interaction_counts_eq is_like_of_def is_like_def
        like_key_def split: if_splits)
  have frame: "has_user ?d = has_user d" "has_message ?d = has_message d"
    by (simp_all add: has_user_def has_message_def fun_eq_iff)
  let ?dm = "d\<lparr>t_messages := map (shift_counts 1 [r]) (t_messages d)\<rparr>"
  have parts: "wf_users ?dm" "wf_messages ?dm" "wf_interactions ?dm" "wf_unlocks ?dm"
    "wf_reactions ?dm" "wf_badges ?dm" "wf_streaks ?dm"
    by (rule db_ok_counters [OF assms(2) _ refl]; simp)+
  have frame': "has_user d' = has_user ?dm" "has_message d' = has_message ?dm"
    "has_user ?dm = has_user d" "has_message ?dm = has_message d"
    by (auto simp: d' has_user_def has_message_def fun_eq_iff)
  have "wf_counts d'"
    using assms(2) by (auto simp: db_ok_def wf_counts_def counts_ok_def d' shift_counts_def count_rows_def)
  moreover have "wf_interactions d'"
    using parts(3) new unfolding wf_interactions_def frame' by (simp add: d' frame')
  ultimately show ?thesis
    using parts unfolding db_ok_def wf_users_def wf_messages_def wf_unlocks_def wf_reactions_def
      wf_badges_def wf_streaks_def message_row_ok_def frame' by (simp add: d')
qed

lemma delete_interactions_ok:
  assumes "db_ok d"
  shows "db_ok (delete_interactions P d)"
proof -
  let ?gone = "filter P (t_interactions d)"
  let ?dm = "d\<lparr>t_messages := map (shift_counts (-1) ?gone) (t_messages d)\<rparr>"
  define d' where "d' = delete_interactions P d"
  have d'_eq: "d' = ?dm\<lparr>t_interactions := filter (\<lambda>r. \<not> P r) (t_interactions d)\<rparr>"
    by (simp add: d'_def delete_interactions_def fold_update_interaction_counts)
  have parts: "wf_users ?dm" "wf_messages ?dm" "wf_interactions ?dm" "wf_unlocks ?dm"
    "wf_reactions ?dm" "wf_badges ?dm" "wf_streaks ?dm"
    by (rule db_ok_counters [OF assms _ refl]; simp)+
  have frame: "has_user d' = has_user ?dm" "has_message d' = has_message ?dm"
    by (auto simp: d'_eq has_user_def has_message_def fun_eq_iff)
  have "wf_counts d'"
    using assms count_where_split [of _ "t_interactions d" P]
    by (simp add: db_ok_def wf_counts_def counts_ok_def d'_eq shift_counts_def count_rows_def)
  moreover have "wf_interactions d'"
    using parts(3) unfolding wf_interactions_def frame
    by (simp add: d'_eq distinct_filter_map distinct_filter_map_conj)
  ultimately show ?thesis
    unfolding d'_def [symmetric]
    using parts unfolding db_ok_def wf_users_def wf_messages_def wf_unlocks_def wf_reactions_def
      wf_badges_def wf_streaks_def message_row_ok_def frame by (simp add: d'_eq)
qed

lemma insert_unlock_ok:
  assumes "insert_unlock r d = Inr (b, d')" and "db_ok d"
  shows "db_ok d'"
proof (cases b)
  case False
  with assms show ?thesis by (auto simp: insert_unlock_def split: if_splits)
next
  case True
  let ?f = "\<lambda>m. if mr_id m = kr_message_id r then m\<lparr>mr_unlocks_count := mr_unlocks_count m + 1\<rparr> else m"
  let ?dm = "d\<lparr>t_messages := map ?f (t_messages d)\<rparr>"
  from assms(1) True have d': "d' = ?dm\<lparr>t_unlocks := t_unlocks d @ [r]\<rparr>"
    and new: "unlock_key r \<notin> set (map unlock_key (t_unlocks d))"
      "has_message d (kr_message_id r)" "has_user d (kr_user_id r)"
    by (auto simp: insert_unlock_def unlock_key_def update_where_def split: if_splits)
  have parts: "wf_users ?dm" "wf_messages ?dm" "wf_interactions ?dm" "wf_unlocks ?dm"
    "wf_reactions ?dm" "wf_badges ?dm" "wf_streaks ?dm"
    by (rule db_ok_counters [OF assms(2) _ refl]; simp)+
  have "has_message ?dm = has_message d" by (rule ext) (rule has_message_cong, simp)
  then have frame: "has_user d' = has_user ?dm" "has_message d' = has_message ?dm"
    "has_user ?dm = has_user d" "has_message ?dm = has_message d"
    by (simp_all add: d' has_user_def has_message_def fun_eq_iff)
  have "wf_counts d'"
    using assms(2) by (auto simp: db_ok_def wf_counts_def counts_ok_def d')
  moreover have "wf_unlocks d'"
    using parts(4) new unfolding wf_unlocks_def frame by (simp add: d' frame)
  ultimately show ?thesis
    using parts unfolding db_ok_def wf_users_def wf_messages_def wf_interactions_def wf_reactions_def
      wf_badges_def wf_streaks_def message_row_ok_def frame by (simp add: d')
qed

lemma insert_badge_ok:
  assumes "insert_badge r d = Inr d'" and "db_ok d"
  shows "db_ok d'"
proof (cases "d' = d")
  case False
  with assms(1) have d': "d' = d\<lparr>t_badges := t_badges d @ [r]\<rparr>"
    and new: "br_id r \<notin> set (map br_id (t_badges d))" "badge_key r \<notin> set (map badge_key (t_badges d))"
      "has_user d (br_user_id r)"
    by (auto simp: insert_badge_def badge_key_def split: if_splits)
  have frame: "has_user d' = has_user d" "has_message d' = has_message d"
    by (simp_all add: d' has_user_def has_message_def fun_eq_iff)
  show ?thesis
    using assms(2) new unfolding db_ok_def wf_defs message_row_ok_def counts_ok_def frame
    by (simp add: d')
qed (use assms in simp)

lemma insert_reaction_ok:
  assumes "insert_reaction r d = Inr d'" and "db_ok d"
  shows "db_ok d'"
proof -
  from assms(1) have d': "d' = d\<lparr>t_reactions := t_reactions d @ [r]\<rparr>"
    and new: "rr_id r \<notin> set (map rr_id (t_reactions d))"
      "reaction_key r \<notin> set (map reaction_key (t_reactions d))"
      "has_message d (rr_message_id r)" "has_user d (rr_user_id r)"
    by (auto simp: insert_reaction_def reaction_key_def split: if_splits)
  have frame: "has_user d' = has_user d" "has_message d' = has_message d"
    by (simp_all add: d' has_user_def has_message_def fun_eq_iff)
  show ?thesis
    using assms(2) new unfolding db_ok_def wf_defs message_row_ok_def counts_ok_def frame
    by (simp add: d')
qed

lemma insert_report_ok: "insert_report env r d = Inr d' \<Longrightarrow> db_ok d \<Longrightarrow> db_ok d'"
  by (auto simp: insert_report_def split: if_splits option.splits)

section \<open>Deletions and updates\<close>

lemma delete_reactions_ok:
  assumes "db_ok d"
  shows "db_ok (d\<lparr>t_reactions := filter P (t_reactions d)\<rparr>)"
proof -
  let ?d = "d\<lparr>t_reactions := filter P (t_reactions d)\<rparr>"
  have frame: "has_user ?d = has_user d" "has_message ?d = has_message d"
    by (simp_all add: has_user_def has_message_def fun_eq_iff)
  show ?thesis
    using assms unfolding db_ok_def wf_defs message_row_ok_def counts_ok_def frame
    by (simp add: distinct_filter_map)
qed

lemma delete_messages_ok:
  assumes "delete_messages env P d = Inr d'" and "db_ok d"
  shows "db_ok d'"
proof (cases "map mr_id (filter P (t_messages d)) = []")
  case True
  with assms show ?thesis by (simp add: delete_messages_def)
next
  case False
  let ?gone = "map mr_id (filter P (t_messages d))"
  from assms(1) False obtain reps where d': "d' = d\<lparr>t_messages := filter (\<lambda>m. \<not> P m) (t_messages d),
      t_interactions := filter (\<lambda>r. ir_message_id r \<notin> set ?gone) (t_interactions d),
      t_unlocks := filter (\<lambda>r. kr_message_id r \<notin> set ?gone) (t_unlocks d),
      t_reactions := filter (\<lambda>r. rr_message_id r \<notin> set ?gone) (t_reactions d), t_reports := reps\<rparr>"
    by (auto simp: delete_messages_def Let_def split: sum.splits)
  have user: "has_user d' = has_user d" by (simp add: d' has_user_def fun_eq_iff)
  have msg: "has_message d' x \<longleftrightarrow> has_message d x \<and> x \<notin> set ?gone" for x
  proof -
    have "mr_id m \<notin> set ?gone \<longleftrightarrow> \<not> P m" if "m \<in> set (t_messages d)" for m
      using assms(2) that by (auto simp: db_ok_def wf_messages_def dest: distinct_map_unique)
    then show ?thesis by (auto simp: d' has_message_def)
  qed
  have kept: "mr_id m \<notin> set ?gone" if "m \<in> set (t_messages d')" for m
    using that msg [of "mr_id m"] by (auto simp: has_message_def)
  have "count_where (\<lambda>r. kr_message_id r = mr_id m) (t_unlocks d') =
      count_where (\<lambda>r. kr_message_id r = mr_id m) (t_unlocks d)" if "m \<in> set (t_messages d')" for m
    using count_where_keep [OF kept [OF that], of kr_message_id "\<lambda>_. True"] by (simp add: d')
  moreover have "count_where (\<lambda>r. ir_message_id r = mr_id m \<and> K r) (t_interactions d') =
      count_where (\<lambda>r. ir_message_id r = mr_id m \<and> K r) (t_interactions d)"
    if "m \<in> set (t_messages d')" for m K
    using count_where_keep [OF kept [OF that], of ir_message_id K] by (simp add: d')
  moreover have "set (t_messages d') \<subseteq> set (t_messages d)" by (auto simp: d')
  ultimately have "wf_counts d'"
    using assms(2) unfolding db_ok_def wf_counts_def counts_ok_def by auto
  moreover have "wf_interactions d'"
    using assms(2) unfolding db_ok_def wf_interactions_def user msg
    by (simp add: d' distinct_filter_map distinct_filter_map_conj)
  ultimately show ?thesis
    using assms(2) unfolding db_ok_def wf_users_def wf_messages_def wf_unlocks_def wf_reactions_def
      wf_badges_def wf_streaks_def message_row_ok_def user msg
    by (simp add: d' distinct_filter_map)
qed

text \<open>An UPDATE of columns no constraint and no counter reads.\<close>

lemma update_messages_ok:
  assumes "db_ok d" and f: "\<And>m. mr_id (f m) = mr_id m \<and> mr_user_id (f m) = mr_user_id m \<and>
      mr_content (f m) = mr_content m \<and> mr_visibility (f m) = mr_visibility m \<and>
      mr_message_type (f m) = mr_message_type m"
    and g: "\<And>m. mr_likes_count (f m) = mr_likes_count m \<and> mr_comments_count (f m) = mr_comments_count m \<and>
      mr_unlocks_count (f m) = mr_unlocks_count m"
  shows "db_ok (d\<lparr>t_messages := map f (t_messages d)\<rparr>)"
proof -
  let ?dm = "d\<lparr>t_messages := map f (t_messages d)\<rparr>"
  have parts: "wf_users ?dm" "wf_messages ?dm" "wf_interactions ?dm" "wf_unlocks ?dm"
    "wf_reactions ?dm" "wf_badges ?dm" "wf_streaks ?dm"
    by (rule db_ok_counters [OF assms(1) f refl])+
  moreover have "wf_counts ?dm"
    using assms(1) f g by (auto simp: db_ok_def wf_counts_def counts_ok_def)
  ultimately show ?thesis by (simp add: db_ok_def)
qed

lemma streaks_ok:
  assumes "db_ok d" and "distinct (map sr_user_id rs)"
    and "\<And>s. s \<in> set rs \<Longrightarrow> has_user d (sr_user_id s) \<and> streak_row_ok s"
  shows "db_ok (d\<lparr>t_streaks := rs\<rparr>)"
proof -
  let ?d = "d\<lparr>t_streaks := rs\<rparr>"
  have frame: "has_user ?d = has_user d" "has_message ?d = has_message d"
    by (simp_all add: has_user_def has_message_def fun_eq_iff)
  show ?thesis
    using assms unfolding db_ok_def wf_defs message_row_ok_def counts_ok_def frame by simp
qed

section \<open>Statements over the connection\<close>

locale pg_statement =
  fixes st :: "'a stmt"
  assumes keeps: "st d = (Inr x, d') \<Longrightarrow> db_ok d \<Longrightarrow> db_ok d'"
    and keeps_links: "st d = (Inr x, d') \<Longrightarrow> t_links d' = t_links d"
begin

text \<open>However the connection behaves, executing the statement keeps the invariant.\<close>

lemma exec_keeps: "db_ok d \<Longrightarrow> db_ok (snd (exec st d))"
  by (auto simp: exec_def next_link_def split: list.splits sum.splits prod.splits dest: keeps)

lemma exec_keepsD: "exec st d = (r, d') \<Longrightarrow> db_ok d \<Longrightarrow> db_ok d'"
  by (metis exec_keeps snd_conv)

text \<open>On a connection that answers, an error means that nothing happened.\<close>

lemma exec_error_atomic:
  assumes "t_links d = []" and "exec st d = (Inl e, d')"
  shows "d' = d"
  using assms by (auto simp: exec_def next_link_def split: sum.splits prod.splits)

text \<open>A healthy connection stays healthy.\<close>

lemma exec_links: "t_links d = [] \<Longrightarrow> t_links (snd (exec st d)) = []"
  by (auto simp: exec_def next_link_def split: sum.splits prod.splits dest: keeps_links)

end

text \<open>Every query is such a statement.\<close>

interpretation query_stmt: pg_statement "\<lambda>d. (q d, d)" for q :: "db \<Rightarrow> db_error + 'a"
  by unfold_locales auto

lemma query_keeps [db_inv]: "db_ok d \<Longrightarrow> db_ok (snd (query q d))"
  unfolding query_def by (rule query_stmt.exec_keeps)

lemma query_keepsD: "query q d = (r, d') \<Longrightarrow> db_ok d \<Longrightarrow> db_ok d'"
  by (metis query_keeps snd_conv)

lemma db_same_links: "t_links d = ls \<Longrightarrow> d\<lparr>t_links := ls\<rparr> = d"
  by auto

lemma exec_cases:
  assumes "exec st d = (r, d')"
  shows "(\<exists>ls. d' = d\<lparr>t_links := ls\<rparr>) \<or> (\<exists>ls x. st (d\<lparr>t_links := ls\<rparr>) = (Inr x, d'))"
proof -
  obtain l d1 where n: "next_link d = (l, d1)" by fastforce
  have d1: "\<exists>ls. d1 = d\<lparr>t_links := ls\<rparr>"
    using n db_same_links [of d] by (auto simp: next_link_def split: list.splits intro: exI [of _ "t_links d"])
  from assms n have "d' = d1 \<or> (\<exists>x. st d1 = (Inr x, d'))"
    by (auto simp: exec_def split: sum.splits prod.splits if_splits)
  with d1 show ?thesis by blast
qed

lemma query_tables:
  "query q d = (r, d') \<Longrightarrow> d' = d \<or> (\<exists>ls. d' = d\<lparr>t_links := ls\<rparr>)"
  by (auto simp: query_def exec_def next_link_def split: list.splits sum.splits if_splits)

lemma query_up: "t_links d = [] \<Longrightarrow> query q d = (case q d of Inl e \<Rightarrow> (Inl (ErrDB e), d) | Inr x \<Rightarrow> (Inr x, d))"
  by (simp add: query_def exec_def next_link_def split: sum.splits)

text \<open>What the loop over the rows of a query sees is a prefix of the answer.\<close>

lemma query_rows_cases:
  assumes "query_rows env q d = (r, d')"
  shows "(\<exists>ls. d' = d\<lparr>t_links := ls\<rparr>) \<and> (\<forall>xs. r = Inr xs \<longrightarrow> xs = [] \<or> (\<exists>rows. q d' = Inr rows \<and> prefix xs rows))"
proof -
  obtain l d1 where n: "next_link d = (l, d1)" by fastforce
  have d1: "\<exists>ls. d1 = d\<lparr>t_links := ls\<rparr>"
    using n db_same_links [of d] by (auto simp: next_link_def split: list.splits intro: exI [of _ "t_links d"])
  have pre: "prefix (received l n rows) rows" for n and rows :: "'a list"
    by (cases l) (simp_all add: received_def take_is_prefix)
  from assms n have "d' = d1 \<and> (\<forall>xs. r = Inr xs \<longrightarrow> xs = [] \<or> (\<exists>rows. q d1 = Inr rows \<and> prefix xs rows))"
    using pre by (fastforce simp: query_rows_def Let_def split: sum.splits if_splits)
  with d1 show ?thesis by auto
qed

lemma query_rows_tables: "query_rows env q d = (r, d') \<Longrightarrow> \<exists>ls. d' = d\<lparr>t_links := ls\<rparr>"
  using query_rows_cases by blast

lemma query_rows_prefix: "query_rows env q d = (Inr xs, d') \<Longrightarrow> xs = [] \<or> (\<exists>rows. q d' = Inr rows \<and> prefix xs rows)"
  using query_rows_cases by blast

lemma query_rows_keepsD: "query_rows env q d = (r, d') \<Longrightarrow> db_ok d \<Longrightarrow> db_ok d'"
  using query_rows_tables [of env q d r d'] by auto

lemma query_rows_keeps [db_inv]: "db_ok d \<Longrightarrow> db_ok (snd (query_rows env q d))"
  by (metis query_rows_keepsD prod.collapse)

lemma query_rows_up:
  "t_links d = [] \<Longrightarrow> query_rows env q d =
    (case q d of Inl e \<Rightarrow> (if encode_error e then Inl (ErrDB e) else Inr [], d) | Inr rows \<Rightarrow> (Inr rows, d))"
  by (simp add: query_rows_def next_link_def received_def Let_def split: sum.splits)

lemma exec_up:
  "t_links d = [] \<Longrightarrow>
   exec st d = (case st d of (Inl e, d2) \<Rightarrow> (Inl (ErrDB e), d) | (Inr x, d2) \<Rightarrow> (Inr x, d2))"
  by (simp add: exec_def next_link_def split: sum.splits prod.splits)

end
