(* ===== verification/Message_Repo.thy ===== *)
theory Message_Repo
  imports Db_Invariant
begin

text \<open>
  \<open>backend/internal/repository/message_repo.go\<close> and the SQL functions of the migrations it calls.
  A method is an \<open>action\<close>: it runs its statements with \<open>exec\<close>, \<open>query\<close> or, where it loops over rows, \<open>query_rows\<close>,
  and gets an error where the source does. A UUID parameter is read by \<open>uuid_in\<close>; an inner join is the list of the
  matching pairs; \<open>ORDER BY\<close> is a stable sort of the rows, \<open>LIMIT\<close> and \<open>OFFSET\<close> are \<open>take\<close>
  and \<open>drop\<close>.
\<close>

section \<open>extractHashtags\<close>

fun collect_tags :: "(string \<Rightarrow> string) \<Rightarrow> string list \<Rightarrow> string list \<Rightarrow> string list" where
  "collect_tags uni seen [] = []"
| "collect_tags uni seen (m # ms) =
     (let tag = strings_ToLower uni m in
      if tag \<in> set seen then collect_tags uni seen ms else tag # collect_tags uni (tag # seen) ms)"

definition extractHashtags :: "env \<Rightarrow> string \<Rightarrow> string list" where
  "extractHashtags env content = collect_tags (uni_lower env) [] (hashtag_matches content)"

section \<open>Rows to structs\<close>

definition join_users :: "db \<Rightarrow> message_row list \<Rightarrow> (message_row \<times> user_row) list" where
  "join_users d ms = concat (map (\<lambda>m. map (Pair m) (filter (\<lambda>u. ur_id u = mr_user_id m) (t_users d))) ms)"

definition scan_message :: "message_row \<times> user_row \<Rightarrow> Message" where
  "scan_message p = (case p of (m, u) \<Rightarrow>
     \<lparr>msg_ID = mr_id m, msg_UserID = mr_user_id m, msg_Username = ur_username u,
      msg_Content = mr_content m, msg_Latitude = mr_lat m, msg_Longitude = mr_lng m,
      msg_Visibility = mr_visibility m, msg_Hashtags = mr_hashtags m,
      msg_LikesCount = mr_likes_count m, msg_CommentsCount = mr_comments_count m,
      msg_Distance = None, msg_CreatedAt = mr_created_at m, msg_MessageType = mr_message_type m,
      msg_ExpiresAt = mr_expires_at m, msg_MysteryRadius = mr_mystery_radius m,
      msg_ScheduledAt = mr_scheduled_at m, msg_UnlocksCount = mr_unlocks_count m,
      msg_Reactions = []\<rparr>)"

text \<open>\<open>QueryRow(...).Scan\<close>: the first row, or \<open>pgx.ErrNoRows\<close>.\<close>

definition first_row :: "(go_error + 'a list) \<times> db \<Rightarrow> (go_error + 'a) \<times> db" where
  "first_row p = (case p of (Inl e, d) \<Rightarrow> (Inl e, d)
     | (Inr [], d) \<Rightarrow> (Inl ErrNoRows, d) | (Inr (x # xs), d) \<Rightarrow> (Inr x, d))"

definition day_ns :: int where
  "day_ns = 24 * 3600 * 1000000000"

section \<open>Create\<close>

text \<open>The values the method computes before the statement: visibility, type, radius and times.\<close>

definition create_visibility :: "CreateMessageRequest \<Rightarrow> string" where
  "create_visibility req = (if cmr_Visibility req = [] then ''public'' else cmr_Visibility req)"

definition create_type :: "CreateMessageRequest \<Rightarrow> string" where
  "create_type req = (if cmr_MessageType req = [] then ''standard'' else cmr_MessageType req)"

definition create_radius :: "CreateMessageRequest \<Rightarrow> int" where
  "create_radius req = (if cmr_MysteryRadius req \<le> 0 then 50 else cmr_MysteryRadius req)"

definition create_expiry :: "env \<Rightarrow> CreateMessageRequest \<Rightarrow> instant option" where
  "create_expiry env req =
     (if create_type req = ''standard'' then Some (go_now env + day_ns)
      else if create_type req = ''capsule''
      then (case time_Parse env (cmr_ScheduledAt req) of
              None \<Rightarrow> None | Some scheduled \<Rightarrow> Some (scheduled + day_ns))
      else None)"

definition create_scheduled :: "env \<Rightarrow> CreateMessageRequest \<Rightarrow> instant option" where
  "create_scheduled env req =
     (if create_type req = ''capsule'' \<and> cmr_ScheduledAt req \<noteq> []
      then time_Parse env (cmr_ScheduledAt req) else None)"

definition create_row :: "env \<Rightarrow> string \<Rightarrow> string \<Rightarrow> CreateMessageRequest \<Rightarrow> message_row" where
  "create_row env mid uid req =
     \<lparr>mr_id = mid, mr_user_id = uid, mr_content = strings_TrimSpace (cmr_Content req),
      mr_lat = cmr_Latitude req, mr_lng = cmr_Longitude req, mr_visibility = create_visibility req,
      mr_hashtags = extractHashtags env (cmr_Content req), mr_likes_count = 0,
      mr_comments_count = 0, mr_created_at = db_now env, mr_message_type = create_type req,
      mr_expires_at = map_option (pg_ts env) (create_expiry env req),
      mr_mystery_radius = create_radius req,
      mr_scheduled_at = map_option (pg_ts env) (create_scheduled env req),
      mr_unlocks_count = 0, mr_is_hidden = False\<rparr>"

definition create_stmt :: "env \<Rightarrow> string \<Rightarrow> CreateMessageRequest \<Rightarrow> Message list stmt" where
  "create_stmt env userID req d =
     (case uuid_in env userID of
        None \<Rightarrow> (Inl InvalidTextRepresentation, d)
      | Some uid \<Rightarrow>
          (case gen_uuid env d of (mid, d1) \<Rightarrow>
             (let row = create_row env mid uid req in
              case insert_message row d1 of
                Inl e \<Rightarrow> (Inl e, d)
              | Inr d2 \<Rightarrow> (Inr (map scan_message (join_users d1 [row])), d2))))"

definition MessageRepo_Create :: "env \<Rightarrow> string \<Rightarrow> CreateMessageRequest \<Rightarrow> Message action" where
  "MessageRepo_Create env userID req d = first_row (exec (create_stmt env userID req) d)"

section \<open>GetNearby\<close>

definition live :: "env \<Rightarrow> message_row \<Rightarrow> bool" where
  "live env m \<longleftrightarrow>
     (case mr_expires_at m of None \<Rightarrow> True | Some t \<Rightarrow> t > db_now env) \<and>
     (case mr_scheduled_at m of None \<Rightarrow> True | Some t \<Rightarrow> t \<le> db_now env)"

definition visible_to :: "string option \<Rightarrow> message_row \<Rightarrow> bool" where
  "visible_to uid m \<longleftrightarrow> mr_visibility m = ''public'' \<or> uid = Some (mr_user_id m)"

text \<open>The SQL function \<open>get_nearby_messages\<close> as migration 007 leaves it.\<close>

definition in_box :: "env \<Rightarrow> go_float \<Rightarrow> go_float \<Rightarrow> int \<Rightarrow> message_row \<Rightarrow> bool" where
  "in_box env user_lat user_lng radius m =
     (case (user_lat, user_lng) of
        (Finite lat, Finite lng) \<Rightarrow>
          (let delta_lat = of_int radius / 111000 * 1.2;
               delta_lng = of_int radius / (111000 * cos (lat * pi / 180)) * 1.2
           in st_in_envelope env (lng - delta_lng, lat - delta_lat) (lng + delta_lng, lat + delta_lat)
                (mr_lng m, mr_lat m))
      | _ \<Rightarrow> True)"

definition nearby_where :: "env \<Rightarrow> go_float \<Rightarrow> go_float \<Rightarrow> int \<Rightarrow> string option \<Rightarrow> message_row \<Rightarrow> bool" where
  "nearby_where env lat lng radius uid m \<longleftrightarrow>
     in_box env lat lng radius m \<and>
     st_dwithin env (mr_lng m, mr_lat m) (lng, lat) radius \<and>
     visible_to uid m \<and> live env m \<and> \<not> mr_is_hidden m"

definition row_distance :: "env \<Rightarrow> go_float \<Rightarrow> go_float \<Rightarrow> message_row \<Rightarrow> real" where
  "row_distance env lat lng m = st_distance env (mr_lng m, mr_lat m) (lng, lat)"

definition get_nearby_messages ::
  "env \<Rightarrow> go_float \<Rightarrow> go_float \<Rightarrow> int \<Rightarrow> int \<Rightarrow> string option \<Rightarrow> db \<Rightarrow> Message list" where
  "get_nearby_messages env lat lng radius lmt uid d =
     take (nat lmt)
       (map (\<lambda>(m, u). (scan_message (m, u))\<lparr>msg_Distance := Some (row_distance env lat lng m)\<rparr>)
         (sort_key (\<lambda>(m, u). row_distance env lat lng m)
           (join_users d (filter (nearby_where env lat lng radius uid) (t_messages d)))))"

definition hashtag_filter :: "env \<Rightarrow> string \<Rightarrow> Message list \<Rightarrow> Message list" where
  "hashtag_filter env h ms =
     (if h = [] then ms
      else let tag = strings_ToLower (uni_lower env) (strings_TrimPrefix h ''#'')
           in filter (\<lambda>m. \<exists>x \<in> set (msg_Hashtags m).
                strings_Contains (strings_ToLower (uni_lower env) x) tag) ms)"

definition uuid_param :: "env \<Rightarrow> string \<Rightarrow> db_error + string" where
  "uuid_param env s = (case uuid_in env s of None \<Rightarrow> Inl InvalidTextRepresentation | Some u \<Rightarrow> Inr u)"

definition nearby_query :: "env \<Rightarrow> NearbyQuery \<Rightarrow> db \<Rightarrow> db_error + Message list" where
  "nearby_query env q d =
     (if \<not> int4_ok (nq_Radius q) \<or> \<not> int4_ok (nq_Limit q) then Inl NumericOutOfRange
      else if nq_UserID q = []
      then Inr (get_nearby_messages env (nq_Latitude q) (nq_Longitude q) (nq_Radius q) (nq_Limit q) None d)
      else (case uuid_param env (nq_UserID q) of
              Inl e \<Rightarrow> Inl e
            | Inr uid \<Rightarrow> Inr (get_nearby_messages env (nq_Latitude q) (nq_Longitude q) (nq_Radius q)
                               (nq_Limit q) (Some uid) d)))"

definition MessageRepo_GetNearby :: "env \<Rightarrow> NearbyQuery \<Rightarrow> Message list action" where
  "MessageRepo_GetNearby env q d =
     (case query_rows env (nearby_query env q) d of
        (Inl e, d1) \<Rightarrow> (Inl e, d1)
      | (Inr ms, d1) \<Rightarrow> (Inr (hashtag_filter env (nq_Hashtag q) ms), d1))"

section \<open>Delete, GetByUser\<close>

definition delete_message_stmt :: "env \<Rightarrow> string \<Rightarrow> string \<Rightarrow> nat stmt" where
  "delete_message_stmt env i userID d =
     (case uuid_param env i of Inl e \<Rightarrow> (Inl e, d) | Inr mid \<Rightarrow>
        (case uuid_param env userID of Inl e \<Rightarrow> (Inl e, d) | Inr uid \<Rightarrow>
           (let P = (\<lambda>m. mr_id m = mid \<and> mr_user_id m = uid) in
            case delete_messages env P d of
              Inl e \<Rightarrow> (Inl e, d)
            | Inr d1 \<Rightarrow> (Inr (count_where P (t_messages d)), d1))))"

definition MessageRepo_Delete :: "env \<Rightarrow> string \<Rightarrow> string \<Rightarrow> unit action" where
  "MessageRepo_Delete env i userID d =
     (case exec (delete_message_stmt env i userID) d of
        (Inl e, d1) \<Rightarrow> (Inl e, d1)
      | (Inr n, d1) \<Rightarrow> if n = 0 then (Inl ErrNotFound, d1) else (Inr (), d1))"

definition by_user_query :: "env \<Rightarrow> string \<Rightarrow> db \<Rightarrow> db_error + Message list" where
  "by_user_query env userID d =
     (case uuid_param env userID of Inl e \<Rightarrow> Inl e | Inr uid \<Rightarrow>
        Inr (map scan_message (sort_key (\<lambda>(m, u). - mr_created_at m)
          (join_users d (filter (\<lambda>m. mr_user_id m = uid) (t_messages d))))))"

definition MessageRepo_GetByUser :: "env \<Rightarrow> string \<Rightarrow> Message list action" where
  "MessageRepo_GetByUser env userID d = query_rows env (by_user_query env userID) d"

section \<open>UnlockMystery, IsUnlocked, GetMessageContent\<close>

definition unlock_stmt :: "env \<Rightarrow> string \<Rightarrow> string \<Rightarrow> bool stmt" where
  "unlock_stmt env messageID userID d =
     (case uuid_param env messageID of Inl e \<Rightarrow> (Inl e, d) | Inr mid \<Rightarrow>
        (case uuid_param env userID of Inl e \<Rightarrow> (Inl e, d) | Inr uid \<Rightarrow>
           (case insert_unlock \<lparr>kr_message_id = mid, kr_user_id = uid\<rparr> d of
              Inl e \<Rightarrow> (Inl e, d) | Inr (b, d1) \<Rightarrow> (Inr b, d1))))"

definition MessageRepo_UnlockMystery :: "env \<Rightarrow> string \<Rightarrow> string \<Rightarrow> bool action" where
  "MessageRepo_UnlockMystery env messageID userID d = exec (unlock_stmt env messageID userID) d"

definition is_unlocked_query :: "env \<Rightarrow> string \<Rightarrow> string \<Rightarrow> db \<Rightarrow> db_error + bool" where
  "is_unlocked_query env messageID userID d =
     (case uuid_param env messageID of Inl e \<Rightarrow> Inl e | Inr mid \<Rightarrow>
        (case uuid_param env userID of Inl e \<Rightarrow> Inl e | Inr uid \<Rightarrow>
           Inr (\<exists>r \<in> set (t_unlocks d). kr_message_id r = mid \<and> kr_user_id r = uid)))"

definition MessageRepo_IsUnlocked :: "env \<Rightarrow> string \<Rightarrow> string \<Rightarrow> bool action" where
  "MessageRepo_IsUnlocked env messageID userID d = query (is_unlocked_query env messageID userID) d"

definition content_query :: "env \<Rightarrow> string \<Rightarrow> db \<Rightarrow> db_error + string list" where
  "content_query env messageID d =
     (case uuid_param env messageID of Inl e \<Rightarrow> Inl e | Inr mid \<Rightarrow>
        Inr (map mr_content (filter (\<lambda>m. mr_id m = mid) (t_messages d))))"

definition MessageRepo_GetMessageContent :: "env \<Rightarrow> string \<Rightarrow> string action" where
  "MessageRepo_GetMessageContent env messageID d = first_row (query (content_query env messageID) d)"

section \<open>Heatmap, leaderboard, events\<close>

text \<open>\<open>GROUP BY\<close>: the distinct keys with the rows of each.\<close>

definition group_by :: "('r \<Rightarrow> 'k) \<Rightarrow> 'r list \<Rightarrow> ('k \<times> 'r list) list" where
  "group_by k rs = map (\<lambda>x. (x, filter (\<lambda>r. k r = x) rs)) (remdups (map k rs))"

definition grid_cell :: "env \<Rightarrow> nat \<Rightarrow> message_row \<Rightarrow> real \<times> real" where
  "grid_cell env n m = (pg_round env (mr_lat m) n, pg_round env (mr_lng m) n)"

definition get_heatmap :: "env \<Rightarrow> go_float \<Rightarrow> go_float \<Rightarrow> int \<Rightarrow> db \<Rightarrow> HeatmapPoint list" where
  "get_heatmap env lat lng radius d =
     sort_key (\<lambda>p. - hmp_Intensity p)
       (map (\<lambda>((glat, glng), rs). \<lparr>hmp_Lat = glat, hmp_Lng = glng, hmp_Intensity = int (length rs)\<rparr>)
         (group_by (grid_cell env 3)
           (filter (\<lambda>m. st_dwithin env (mr_lng m, mr_lat m) (lng, lat) radius \<and> live env m \<and>
              mr_visibility m = ''public'') (t_messages d))))"

definition MessageRepo_GetHeatmap :: "env \<Rightarrow> go_float \<Rightarrow> go_float \<Rightarrow> int \<Rightarrow> HeatmapPoint list action" where
  "MessageRepo_GetHeatmap env lat lng radius d =
     query_rows env (\<lambda>d. if int4_ok radius then Inr (get_heatmap env lat lng radius d) else Inl NumericOutOfRange) d"

definition get_leaderboard :: "env \<Rightarrow> go_float \<Rightarrow> go_float \<Rightarrow> int \<Rightarrow> int \<Rightarrow> db \<Rightarrow> LeaderboardEntry list" where
  "get_leaderboard env lat lng radius lmt d =
     take (nat lmt) (sort_key (\<lambda>e. - lbe_Score e)
       (map (\<lambda>((uid, name), rs).
           (let posts = int (length rs); likes = sum_list (map (\<lambda>(m, u). mr_likes_count m) rs)
            in \<lparr>lbe_UserID = uid, lbe_Username = name, lbe_TotalPosts = posts, lbe_TotalLikes = likes,
                lbe_Score = posts * 10 + likes * 5\<rparr>))
         (group_by (\<lambda>(m, u). (mr_user_id m, ur_username u))
           (join_users d (filter (\<lambda>m. st_dwithin env (mr_lng m, mr_lat m) (lng, lat) radius \<and>
              mr_created_at m > db_now env - 30 * day_ns) (t_messages d))))))"

definition MessageRepo_GetLeaderboard :: "env \<Rightarrow> go_float \<Rightarrow> go_float \<Rightarrow> int \<Rightarrow> int \<Rightarrow> LeaderboardEntry list action" where
  "MessageRepo_GetLeaderboard env lat lng radius limit d =
     query_rows env (\<lambda>d. if int4_ok radius \<and> int4_ok limit then Inr (get_leaderboard env lat lng radius limit d)
                else Inl NumericOutOfRange) d"

text \<open>\<open>LEFT JOIN LATERAL UNNEST(hashtags)\<close>: one row per tag, one row with NULL when there is none.\<close>

definition unnest_tags :: "message_row \<Rightarrow> (message_row \<times> string option) list" where
  "unnest_tags m = (if mr_hashtags m = [] then [(m, None)] else map (\<lambda>t. (m, Some t)) (mr_hashtags m))"

definition detect_events :: "env \<Rightarrow> go_float \<Rightarrow> go_float \<Rightarrow> int \<Rightarrow> db \<Rightarrow> Event list" where
  "detect_events env lat lng radius d =
     sort_key (\<lambda>e. - evt_MessageCount e)
       (map (\<lambda>((glat, glng), rs).
           \<lparr>evt_GridLat = glat, evt_GridLng = glng, evt_MessageCount = int (length rs),
            evt_UserCount = int (length (remdups (map (\<lambda>(m, t). mr_user_id m) rs))),
            evt_FirstMessageAt = Min (set (map (\<lambda>(m, t). mr_created_at m) rs)),
            evt_LastMessageAt = Max (set (map (\<lambda>(m, t). mr_created_at m) rs)),
            evt_TopHashtags = take 5 (sort_key (pg_collate env)
              (remdups (concat (map (\<lambda>(m, t). case t of None \<Rightarrow> [] | Some x \<Rightarrow> [x]) rs))))\<rparr>)
         (filter (\<lambda>(k, rs). length (remdups (map (\<lambda>(m, t). mr_id m) rs)) \<ge> 3 \<and>
                      length (remdups (map (\<lambda>(m, t). mr_user_id m) rs)) \<ge> 2)
           (group_by (\<lambda>(m, t). grid_cell env 3 m)
             (concat (map unnest_tags
               (filter (\<lambda>m. st_dwithin env (mr_lng m, mr_lat m) (lng, lat) radius \<and>
                  mr_created_at m > db_now env - 2 * 3600 * 1000000000 \<and>
                  mr_visibility m = ''public'' \<and>
                  (case mr_expires_at m of None \<Rightarrow> True | Some t \<Rightarrow> t > db_now env))
                 (t_messages d)))))))"

definition MessageRepo_DetectEvents :: "env \<Rightarrow> go_float \<Rightarrow> go_float \<Rightarrow> int \<Rightarrow> Event list action" where
  "MessageRepo_DetectEvents env lat lng radius d =
     query_rows env (\<lambda>d. if int4_ok radius then Inr (detect_events env lat lng radius d) else Inl NumericOutOfRange) d"

section \<open>SearchByHashtag, GetPopularHashtags\<close>

definition tag_matches :: "env \<Rightarrow> string \<Rightarrow> message_row \<Rightarrow> bool" where
  "tag_matches env tag m \<longleftrightarrow> tag \<in> set (mr_hashtags m) \<and> live env m"

text \<open>The count and the page are two statements.\<close>

definition MessageRepo_SearchByHashtag ::
  "env \<Rightarrow> string \<Rightarrow> int \<Rightarrow> int \<Rightarrow> (Message list \<times> int) action" where
  "MessageRepo_SearchByHashtag env hashtag limit offset d =
     (let tag = strings_ToLower (uni_lower env) (strings_TrimPrefix hashtag ''#'') in
      case query (\<lambda>d. if \<not> pg_text_ok tag then Inl InvalidByteSequence
                      else Inr (int (count_where (tag_matches env tag) (t_messages d)))) d of
        (Inl e, d1) \<Rightarrow> (Inl e, d1)
      | (Inr cnt, d1) \<Rightarrow>
          (case query_rows env (\<lambda>d. Inr (map scan_message (take (nat limit) (drop (nat offset)
                    (sort_key (\<lambda>(m, u). - mr_created_at m)
                      (join_users d (filter (tag_matches env tag) (t_messages d)))))))) d1 of
             (Inl e, d2) \<Rightarrow> (Inl e, d2)
           | (Inr ms, d2) \<Rightarrow> (Inr (ms, cnt), d2)))"

definition popular_hashtags :: "env \<Rightarrow> int \<Rightarrow> db \<Rightarrow> HashtagResult list" where
  "popular_hashtags env limit d =
     take (nat limit) (sort_key (\<lambda>h. - htr_Count h)
       (map (\<lambda>(tag, rs). \<lparr>htr_Tag = tag, htr_Count = int (length rs)\<rparr>)
         (group_by (\<lambda>t. t) (concat (map mr_hashtags (filter (live env) (t_messages d)))))))"

definition MessageRepo_GetPopularHashtags :: "env \<Rightarrow> int \<Rightarrow> HashtagResult list action" where
  "MessageRepo_GetPopularHashtags env limit d = query_rows env (\<lambda>d. Inr (popular_hashtags env limit d)) d"

section \<open>Every method keeps the invariant\<close>

lemma first_row_snd [simp]: "snd (first_row p) = snd p"
  by (cases p) (auto simp: first_row_def split: sum.splits list.splits)

lemma gen_uuid_frame:
  "gen_uuid env d = (i, d1) \<Longrightarrow> d1 = d\<lparr>t_uuids := Suc (t_uuids d)\<rparr> \<and> i = uuid_v4 env (t_uuids d)"
  by (auto simp: gen_uuid_def)

lemma insert_message_links: "insert_message r d = Inr d' \<Longrightarrow> t_links d' = t_links d"
  by (auto simp: insert_message_def split: if_splits)

lemma insert_unlock_links: "insert_unlock r d = Inr (b, d') \<Longrightarrow> t_links d' = t_links d"
  by (auto simp: insert_unlock_def split: if_splits)

lemma delete_messages_links: "delete_messages env P d = Inr d' \<Longrightarrow> t_links d' = t_links d"
  by (auto simp: delete_messages_def Let_def split: sum.splits if_splits)

interpretation create_stmt: pg_statement "create_stmt env userID req" for env userID req
proof
  fix d x d'
  assume st: "create_stmt env userID req d = (Inr x, d')"
  then obtain uid where ins: "insert_message (create_row env (uuid_v4 env (t_uuids d)) uid req)
      (d\<lparr>t_uuids := Suc (t_uuids d)\<rparr>) = Inr d'"
    by (auto simp: create_stmt_def gen_uuid_def Let_def split: option.splits sum.splits)
  from insert_message_links [OF ins] show "t_links d' = t_links d" by simp
  assume "db_ok d"
  then show "db_ok d'" by (intro insert_message_ok [OF ins]) (simp_all add: create_row_def)
qed

interpretation delete_message_stmt: pg_statement "delete_message_stmt env i userID" for env i userID
  by unfold_locales (auto simp: delete_message_stmt_def Let_def split: sum.splits
      dest: delete_messages_ok delete_messages_links)

interpretation unlock_stmt: pg_statement "unlock_stmt env messageID userID" for env messageID userID
  by unfold_locales (auto simp: unlock_stmt_def split: sum.splits dest: insert_unlock_ok insert_unlock_links)

lemma MessageRepo_Create_inv [db_inv]: "db_ok d \<Longrightarrow> db_ok (snd (MessageRepo_Create env userID req d))"
  by (simp add: MessageRepo_Create_def create_stmt.exec_keeps)

lemma MessageRepo_GetNearby_inv [db_inv]: "db_ok d \<Longrightarrow> db_ok (snd (MessageRepo_GetNearby env q d))"
  using query_rows_keeps [of d env "nearby_query env q"]
  by (auto simp: MessageRepo_GetNearby_def split: prod.splits sum.splits)

lemma MessageRepo_Delete_inv [db_inv]: "db_ok d \<Longrightarrow> db_ok (snd (MessageRepo_Delete env i userID d))"
  using delete_message_stmt.exec_keeps [of d env i userID]
  by (auto simp: MessageRepo_Delete_def split: prod.splits sum.splits)

lemma MessageRepo_UnlockMystery_inv [db_inv]:
  "db_ok d \<Longrightarrow> db_ok (snd (MessageRepo_UnlockMystery env m u d))"
  unfolding MessageRepo_UnlockMystery_def by (rule unlock_stmt.exec_keeps)

lemma MessageRepo_reads_inv [db_inv]:
  assumes "db_ok d"
  shows "db_ok (snd (MessageRepo_GetByUser env userID d))"
    "db_ok (snd (MessageRepo_IsUnlocked env m userID d))"
    "db_ok (snd (MessageRepo_GetMessageContent env m d))"
    "db_ok (snd (MessageRepo_GetHeatmap env lat lng radius d))"
    "db_ok (snd (MessageRepo_GetLeaderboard env lat lng radius limit d))"
    "db_ok (snd (MessageRepo_DetectEvents env lat lng radius d))"
    "db_ok (snd (MessageRepo_GetPopularHashtags env limit d))"
  using assms by (simp_all add: MessageRepo_GetByUser_def MessageRepo_IsUnlocked_def
      MessageRepo_GetMessageContent_def MessageRepo_GetHeatmap_def MessageRepo_GetLeaderboard_def
      MessageRepo_DetectEvents_def MessageRepo_GetPopularHashtags_def query_keeps query_rows_keeps)

section \<open>Joins and pages\<close>

lemma join_users_iff:
  "(m, u) \<in> set (join_users d ms) \<longleftrightarrow> m \<in> set ms \<and> u \<in> set (t_users d) \<and> ur_id u = mr_user_id m"
  by (auto simp: join_users_def)

text \<open>In a state that satisfies the invariant the join neither drops nor duplicates a message.\<close>

lemma filter_unique_key:
  assumes "distinct (map k rs)" and "r \<in> set rs"
  shows "filter (\<lambda>x. k x = k r) rs = [r]"
  using assms
proof (induction rs)
  case (Cons x rs)
  show ?case
  proof (cases "x = r")
    case True
    with Cons.prems have "\<forall>y \<in> set rs. k y \<noteq> k r" by (auto simp: image_iff)
    with True show ?thesis by simp
  next
    case False
    with Cons show ?thesis by (auto simp: image_iff)
  qed
qed simp

lemma join_users_fst:
  assumes "db_ok d" and "set ms \<subseteq> set (t_messages d)"
  shows "map fst (join_users d ms) = ms"
  using assms(2)
proof (induction ms)
  case (Cons m ms)
  have "has_user d (mr_user_id m)" using assms(1) Cons.prems by (auto dest: db_ok_refs(4))
  then obtain u where u: "u \<in> set (t_users d)" "ur_id u = mr_user_id m" by (auto simp: has_user_def)
  have "distinct (map ur_id (t_users d))" using assms(1) by (simp add: db_ok_def wf_users_def)
  from filter_unique_key [OF this u(1)] u(2)
  have "filter (\<lambda>x. ur_id x = mr_user_id m) (t_users d) = [u]" by simp
  with Cons show ?case by (simp add: join_users_def)
qed (simp add: join_users_def)

lemma scan_message_simps [simp]:
  "msg_ID (scan_message (m, u)) = mr_id m" "msg_UserID (scan_message (m, u)) = mr_user_id m"
  "msg_Content (scan_message (m, u)) = mr_content m"
  "msg_Visibility (scan_message (m, u)) = mr_visibility m"
  "msg_MessageType (scan_message (m, u)) = mr_message_type m"
  "msg_MysteryRadius (scan_message (m, u)) = mr_mystery_radius m"
  "msg_Hashtags (scan_message (m, u)) = mr_hashtags m"
  "msg_LikesCount (scan_message (m, u)) = mr_likes_count m"
  "msg_CreatedAt (scan_message (m, u)) = mr_created_at m"
  by (simp_all add: scan_message_def)

section \<open>Hashtags\<close>

lemma collect_tags_set:
  "set (collect_tags uni seen ms) = strings_ToLower uni ` set ms - set seen"
  by (induction ms arbitrary: seen) (auto simp: Let_def)

lemma collect_tags_distinct:
  "distinct (collect_tags uni seen ms)"
  by (induction ms arbitrary: seen) (auto simp: Let_def collect_tags_set)

lemma extractHashtags_spec:
  "distinct (extractHashtags env content)" "set (extractHashtags env content) = map lower_byte ` {w. tagged_run content w}"
proof -
  have "strings_ToLower (uni_lower env) w = map lower_byte w" if "tagged_run content w" for w
    using that by (intro ToLower_word) (simp add: tagged_run_def)
  then show "distinct (extractHashtags env content)" "set (extractHashtags env content) = map lower_byte ` {w. tagged_run content w}"
    by (auto simp: extractHashtags_def collect_tags_distinct collect_tags_set hashtag_matches_iff image_iff)
qed

text \<open>C30: \<open>extractHashtags\<close> returns, each once and in lower case, exactly the maximal runs of
  letters, digits and underscores that follow a hash sign of the content.\<close>

theorem extractHashtags_correct:
  "distinct (extractHashtags env content) \<and>
   set (extractHashtags env content) = map lower_byte ` {w. tagged_run content w}"
  by (intro conjI extractHashtags_spec)

section \<open>Create\<close>

text \<open>What the constraints ask of the row, once the request is valid.\<close>

lemma valid_request_row:
  assumes "CreateMessageRequest_Validate req = []"
  shows "create_visibility req \<in> set valid_visibilities" "create_type req \<in> set valid_message_types"
    "char_length (create_visibility req) \<le> 10" "char_length (create_type req) \<le> 10"
    "char_length (strings_TrimSpace (cmr_Content req)) \<le> 500"
proof -
  from assms have v: "cmr_Visibility req \<in> {''public'', ''friends'', ''private'', []}"
    and t: "cmr_MessageType req \<in> {''standard'', ''mystery'', ''capsule'', []}"
    and c: "length (cmr_Content req) \<le> 500" by (auto simp: CreateMessage_valid_iff)
  from v show vis: "create_visibility req \<in> set valid_visibilities"
    by (auto simp: create_visibility_def valid_visibilities_def)
  from t show ty: "create_type req \<in> set valid_message_types"
    by (auto simp: create_type_def valid_message_types_def)
  have "list_all (\<lambda>s. char_length s \<le> 10) (valid_visibilities @ valid_message_types)" by code_simp
  with vis ty show "char_length (create_visibility req) \<le> 10" "char_length (create_type req) \<le> 10"
    by (auto simp: list_all_iff)
  show "char_length (strings_TrimSpace (cmr_Content req)) \<le> 500"
    using char_length_le [of "strings_TrimSpace (cmr_Content req)"] TrimSpace_length [of "cmr_Content req"] c
    by linarith
qed

lemma Create_runs:
  assumes "t_links d = []" and "db_ok d"
    and "CreateMessageRequest_Validate req = []"
    and "0 < char_length (strings_TrimSpace (cmr_Content req))"
    and "pg_text_ok (cmr_Content req)" and "int4_ok (create_radius req)"
    and "uuid_in env userID = Some uid" and "has_user d uid"
    and "\<not> has_message d (uuid_v4 env (t_uuids d))"
  shows "\<exists>u. ur_id u = uid \<and> u \<in> set (t_users d) \<and>
     MessageRepo_Create env userID req d =
       (Inr (scan_message (create_row env (uuid_v4 env (t_uuids d)) uid req, u)),
        d\<lparr>t_uuids := Suc (t_uuids d),
          t_messages := t_messages d @ [create_row env (uuid_v4 env (t_uuids d)) uid req]\<rparr>)"
proof -
  let ?row = "create_row env (uuid_v4 env (t_uuids d)) uid req"
  let ?d1 = "d\<lparr>t_uuids := Suc (t_uuids d)\<rparr>"
  from assms(8) obtain u where u: "u \<in> set (t_users d)" "ur_id u = uid" by (auto simp: has_user_def)
  have nul: "pg_text_ok (strings_TrimSpace (cmr_Content req))"
    using assms(5) TrimSpace_set [of "cmr_Content req"] by (auto simp: pg_text_ok_def)
  have "has_user ?d1 uid" "\<not> has_message ?d1 (uuid_v4 env (t_uuids d))"
    using assms(8,9) by (simp_all add: has_user_def has_message_def)
  then have ins: "insert_message ?row ?d1 = Inr (?d1\<lparr>t_messages := t_messages d @ [?row]\<rparr>)"
    using valid_request_row [OF assms(3)] assms(4,6) nul
    by (simp add: insert_message_def create_row_def)
  have "distinct (map ur_id (t_users d))" using assms(2) by (simp add: db_ok_def wf_users_def)
  from filter_unique_key [OF this u(1)] u(2)
  have "join_users ?d1 [?row] = [(?row, u)]" by (simp add: join_users_def create_row_def)
  with assms(1,7) ins u show ?thesis
    by (intro exI [of _ u])
      (simp add: MessageRepo_Create_def exec_up create_stmt_def gen_uuid_def first_row_def Let_def)
qed

text \<open>C28: a valid request whose content is not blank, by a user that exists, is stored. On a
  connection that answers, \<open>Create\<close> adds exactly one row and returns it with the name of its author. The row has a new identifier, the author, the
  trimmed content, the position and the distinct lower-case hashtags of the content; without a visibility it is public, without a type standard, without a
  positive radius fifty metres; its counters are zero and it is not hidden; a standard message expires twenty-four hours after posting, a capsule
  twenty-four hours after the date it is revealed, which is stored too, and a mystery message never. Validation thus implies every constraint of the
  table but the text and integer ranges named as hypotheses.\<close>

theorem Create_stores:
  assumes "t_links d = []" and "db_ok d"
    and "CreateMessageRequest_Validate req = []"
    and "0 < char_length (strings_TrimSpace (cmr_Content req))"
    and "pg_text_ok (cmr_Content req)" and "int4_ok (create_radius req)"
    and "uuid_in env userID = Some uid" and "has_user d uid"
    and "\<not> has_message d (uuid_v4 env (t_uuids d))"
  shows "\<exists>u row msg. u \<in> set (t_users d) \<and> ur_id u = uid \<and>
     MessageRepo_Create env userID req d = (Inr msg, d\<lparr>t_uuids := Suc (t_uuids d), t_messages := t_messages d @ [row]\<rparr>) \<and>
     mr_id row = uuid_v4 env (t_uuids d) \<and> mr_user_id row = uid \<and> mr_created_at row = db_now env \<and>
     mr_content row = strings_TrimSpace (cmr_Content req) \<and> mr_lat row = cmr_Latitude req \<and> mr_lng row = cmr_Longitude req \<and>
     distinct (mr_hashtags row) \<and> set (mr_hashtags row) = map lower_byte ` {w. tagged_run (cmr_Content req) w} \<and>
     mr_visibility row = (if cmr_Visibility req = [] then ''public'' else cmr_Visibility req) \<and>
     mr_message_type row = (if cmr_MessageType req = [] then ''standard'' else cmr_MessageType req) \<and>
     mr_mystery_radius row = (if cmr_MysteryRadius req \<le> 0 then 50 else cmr_MysteryRadius req) \<and>
     mr_likes_count row = 0 \<and> mr_comments_count row = 0 \<and> mr_unlocks_count row = 0 \<and> \<not> mr_is_hidden row \<and>
     mr_expires_at row =
       (if mr_message_type row = ''standard'' then Some (pg_ts env (go_now env + 24 * 3600 * 1000000000))
        else if mr_message_type row = ''capsule''
        then map_option (\<lambda>t. pg_ts env (t + 24 * 3600 * 1000000000)) (time_Parse env (cmr_ScheduledAt req))
        else None) \<and>
     mr_scheduled_at row =
       (if mr_message_type row = ''capsule'' then map_option (pg_ts env) (time_Parse env (cmr_ScheduledAt req)) else None) \<and>
     msg_ID msg = mr_id row \<and> msg_UserID msg = uid \<and> msg_Username msg = ur_username u \<and> msg_Content msg = mr_content row \<and>
     msg_Hashtags msg = mr_hashtags row \<and> msg_MessageType msg = mr_message_type row \<and> msg_ExpiresAt msg = mr_expires_at row"
proof -
  let ?row = "create_row env (uuid_v4 env (t_uuids d)) uid req"
  from Create_runs [OF assms] obtain u where u: "ur_id u = uid" "u \<in> set (t_users d)"
    "MessageRepo_Create env userID req d = (Inr (scan_message (?row, u)), d\<lparr>t_uuids := Suc (t_uuids d), t_messages := t_messages d @ [?row]\<rparr>)"
    by blast
  have "cmr_MessageType req = ''capsule'' \<Longrightarrow> cmr_ScheduledAt req \<noteq> []"
    using assms(3) by (auto simp: CreateMessageRequest_Validate_def)
  with u show ?thesis
    by (intro exI [of _ u] exI [of _ ?row] exI [of _ "scan_message (?row, u)"])
      (auto simp: create_row_def create_visibility_def create_type_def create_radius_def create_expiry_def create_scheduled_def
        day_ns_def extractHashtags_spec scan_message_def split: option.splits)
qed

definition demo_request :: CreateMessageRequest where
  "demo_request = \<lparr>cmr_Content = '' hi #Paris '', cmr_Latitude = 1, cmr_Longitude = 2,
     cmr_Visibility = [], cmr_MessageType = [], cmr_MysteryRadius = 0, cmr_ScheduledAt = []\<rparr>"

lemma demo_request_ok:
  "CreateMessageRequest_Validate demo_request = []" "0 < char_length (strings_TrimSpace (cmr_Content demo_request))"
  "pg_text_ok (cmr_Content demo_request)" "int4_ok (create_radius demo_request)"
  "\<not> has_message demo_db (uuid_v4 demo_env (t_uuids demo_db))" "has_user demo_db ''alice''" "t_links demo_db = []"
  "uuid_in demo_env ''alice'' = Some ''alice''"
  by code_simp+

text \<open>The hashtag is stored in lower case, the content trimmed, and the message expires a day later.\<close>

lemma Create_stores_witness:
  "\<exists>row msg d'. MessageRepo_Create demo_env ''alice'' demo_request demo_db = (Inr msg, d') \<and> t_messages d' = t_messages demo_db @ [row] \<and>
     mr_content row = ''hi #Paris'' \<and> ''paris'' \<in> set (mr_hashtags row) \<and> mr_visibility row = ''public'' \<and> mr_mystery_radius row = 50 \<and>
     mr_expires_at row = Some 86400000001000"
proof -
  let ?d' = "\<lambda>row. demo_db\<lparr>t_uuids := Suc (t_uuids demo_db), t_messages := t_messages demo_db @ [row]\<rparr>"
  have trim: "strings_TrimSpace (cmr_Content demo_request) = ''hi #Paris''" by code_simp
  have "''Paris'' \<in> set (hashtag_matches (cmr_Content demo_request))" by code_simp
  then have "tagged_run (cmr_Content demo_request) ''Paris''" by (simp only: hashtag_matches_iff)
  moreover have "''paris'' = map lower_byte ''Paris''" by code_simp
  ultimately have paris: "''paris'' \<in> map lower_byte ` {w. tagged_run (cmr_Content demo_request) w}"
    by (intro image_eqI CollectI)
  have blank: "cmr_Visibility demo_request = []" "cmr_MessageType demo_request = []" "cmr_MysteryRadius demo_request = 0"
    by (simp_all add: demo_request_def)
  from Create_stores [OF demo_request_ok(7) demo_db_ok demo_request_ok(1-4) demo_request_ok(8,6,5)] show ?thesis
  proof (elim exE conjE)
    fix u row msg
    assume run: "MessageRepo_Create demo_env ''alice'' demo_request demo_db = (Inr msg, ?d' row)"
      and content: "mr_content row = strings_TrimSpace (cmr_Content demo_request)"
      and tags: "set (mr_hashtags row) = map lower_byte ` {w. tagged_run (cmr_Content demo_request) w}"
      and vis: "mr_visibility row = (if cmr_Visibility demo_request = [] then ''public'' else cmr_Visibility demo_request)"
      and type: "mr_message_type row = (if cmr_MessageType demo_request = [] then ''standard'' else cmr_MessageType demo_request)"
      and radius: "mr_mystery_radius row = (if cmr_MysteryRadius demo_request \<le> 0 then 50 else cmr_MysteryRadius demo_request)"
      and expiry: "mr_expires_at row =
        (if mr_message_type row = ''standard'' then Some (pg_ts demo_env (go_now demo_env + 24 * 3600 * 1000000000))
         else if mr_message_type row = ''capsule''
         then map_option (\<lambda>t. pg_ts demo_env (t + 24 * 3600 * 1000000000)) (time_Parse demo_env (cmr_ScheduledAt demo_request))
         else None)"
    have "''paris'' \<in> set (mr_hashtags row)" unfolding tags using paris by blast
    moreover have "mr_expires_at row = Some 86400000001000" unfolding expiry type blank by (simp add: demo_env_def)
    moreover have "mr_visibility row = ''public''" "mr_mystery_radius row = 50" unfolding vis radius blank by simp_all
    ultimately show ?thesis using run content unfolding trim
      by (intro exI [of _ row] exI [of _ msg] exI [of _ "?d' row"]) simp
  qed
qed

text \<open>
  Content of white space only passes \<open>Validate\<close>, is trimmed to nothing, and is then refused by the
  constraint \<open>content_not_empty\<close>; nothing is stored.
\<close>

lemma Create_blank:
  assumes "t_links d = []" and "CreateMessageRequest_Validate req = []"
    and "strings_TrimSpace (cmr_Content req) = []" and "int4_ok (create_radius req)"
    and "uuid_in env userID = Some uid"
  shows "MessageRepo_Create env userID req d = (Inl (ErrDB (CheckViolation ''content_not_empty'')), d)"
  using assms valid_request_row [OF assms(2)]
  by (simp add: MessageRepo_Create_def exec_up create_stmt_def gen_uuid_def first_row_def Let_def
      insert_message_def create_row_def pg_text_ok_def char_length_def)

section \<open>GetNearby\<close>

definition query_user :: "env \<Rightarrow> string \<Rightarrow> string option" where
  "query_user env userID = (if userID = [] then None else uuid_in env userID)"

lemma nearby_query_Inr:
  "nearby_query env q d = Inr ms \<Longrightarrow>
   ms = get_nearby_messages env (nq_Latitude q) (nq_Longitude q) (nq_Radius q) (nq_Limit q)
          (query_user env (nq_UserID q)) d"
  by (auto simp: nearby_query_def query_user_def uuid_param_def split: if_splits option.splits sum.splits)

lemma get_nearby_links [simp]:
  "get_nearby_messages env lat lng radius lmt uid (d\<lparr>t_links := ls\<rparr>) =
   get_nearby_messages env lat lng radius lmt uid d"
  by (simp add: get_nearby_messages_def join_users_def)

lemma hashtag_filter_le: "set (hashtag_filter env h ms) \<subseteq> set ms" "length (hashtag_filter env h ms) \<le> length ms"
  by (auto simp: hashtag_filter_def Let_def)

text \<open>What \<open>GetNearby\<close> returns is part of the answer of the SQL function; all of it on a connection that answers and for a user
  that the database can read.\<close>

lemma GetNearby_rows:
  assumes "MessageRepo_GetNearby env q d = (Inr ms, d')"
  shows "\<exists>n. ms = hashtag_filter env (nq_Hashtag q)
      (take n (get_nearby_messages env (nq_Latitude q) (nq_Longitude q) (nq_Radius q) (nq_Limit q) (query_user env (nq_UserID q)) d))"
    and "\<exists>ls. d' = d\<lparr>t_links := ls\<rparr>"
proof -
  from assms obtain ms0 where q: "query_rows env (nearby_query env q) d = (Inr ms0, d')"
    and ms: "ms = hashtag_filter env (nq_Hashtag q) ms0"
    by (auto simp: MessageRepo_GetNearby_def split: prod.splits sum.splits)
  from query_rows_tables [OF q] show d': "\<exists>ls. d' = d\<lparr>t_links := ls\<rparr>" .
  let ?got = "get_nearby_messages env (nq_Latitude q) (nq_Longitude q) (nq_Radius q) (nq_Limit q) (query_user env (nq_UserID q)) d"
  from query_rows_prefix [OF q] d' have "prefix ms0 ?got" by (auto dest!: nearby_query_Inr)
  then have "ms0 = take (length ms0) ?got" by (auto simp: prefix_def)
  with ms show "\<exists>n. ms = hashtag_filter env (nq_Hashtag q) (take n ?got)" by metis
qed

lemma GetNearby_up:
  assumes "t_links d = []" and "nq_UserID q = [] \<or> uuid_in env (nq_UserID q) \<noteq> None" and "int4_ok (nq_Radius q)" and "int4_ok (nq_Limit q)"
  shows "MessageRepo_GetNearby env q d = (Inr (hashtag_filter env (nq_Hashtag q)
      (get_nearby_messages env (nq_Latitude q) (nq_Longitude q) (nq_Radius q) (nq_Limit q) (query_user env (nq_UserID q)) d)), d)"
  using assms by (auto simp: MessageRepo_GetNearby_def query_rows_up nearby_query_def query_user_def uuid_param_def)

lemma GetNearby_int4: "t_links d = [] \<Longrightarrow> MessageRepo_GetNearby env q d = (Inr ms, d') \<Longrightarrow> int4_ok (nq_Radius q) \<and> int4_ok (nq_Limit q)"
  by (auto simp: MessageRepo_GetNearby_def query_rows_up nearby_query_def encode_error_def split: if_splits)

lemma get_nearby_sorted:
  "sorted_wrt (\<lambda>a b. the (msg_Distance a) \<le> the (msg_Distance b))
     (get_nearby_messages env lat lng radius lmt uid d)"
proof -
  let ?key = "\<lambda>(m, u). row_distance env lat lng m"
  let ?scan = "\<lambda>(m, u). (scan_message (m, u))\<lparr>msg_Distance := Some (row_distance env lat lng m)\<rparr>"
  have key: "the (msg_Distance (?scan p)) = ?key p" for p by (cases p) simp
  have "sorted (map ?key (sort_key ?key ps))" for ps by simp
  then have "sorted_wrt (\<lambda>a b. the (msg_Distance a) \<le> the (msg_Distance b)) (map ?scan (sort_key ?key ps))"
    for ps by (simp add: sorted_wrt_map key)
  then show ?thesis unfolding get_nearby_messages_def by (rule sorted_wrt_take)
qed

lemma get_nearby_sound:
  assumes "x \<in> set (get_nearby_messages env lat lng radius lmt uid d)"
  shows "\<exists>m \<in> set (t_messages d). nearby_where env lat lng radius uid m \<and>
    (\<exists>u \<in> set (t_users d). ur_id u = mr_user_id m \<and>
       x = (scan_message (m, u))\<lparr>msg_Distance := Some (row_distance env lat lng m)\<rparr>)"
  using in_set_takeD [OF assms [unfolded get_nearby_messages_def]] by (fastforce simp: join_users_iff)

lemma get_nearby_complete:
  assumes "db_ok d" and "m \<in> set (t_messages d)" and "nearby_where env lat lng radius uid m"
    and "count_where (nearby_where env lat lng radius uid) (t_messages d) \<le> nat lmt"
  shows "\<exists>x \<in> set (get_nearby_messages env lat lng radius lmt uid d). msg_ID x = mr_id m"
proof -
  let ?ms = "filter (nearby_where env lat lng radius uid) (t_messages d)"
  have fst: "map fst (join_users d ?ms) = ?ms" using assms(1) by (intro join_users_fst) auto
  then have "length (join_users d ?ms) = length ?ms" by (metis length_map)
  with assms(4) have len: "length (join_users d ?ms) \<le> nat lmt" by (simp add: count_where_def)
  have "m \<in> set (map fst (join_users d ?ms))" unfolding fst using assms(2,3) by simp
  then obtain u where "(m, u) \<in> set (join_users d ?ms)" by auto
  with len show ?thesis by (force simp: get_nearby_messages_def)
qed


definition demo_query :: NearbyQuery where
  "demo_query = \<lparr>nq_Latitude = Finite 1, nq_Longitude = Finite 2, nq_Radius = 1000, nq_Limit = 50, nq_Sort = [],
     nq_Hashtag = [], nq_UserID = ''bobby''\<rparr>"

lemma nearby_where_demo: "nearby_where demo_env (Finite lat) (Finite lng) radius uid m \<longleftrightarrow>
    \<bar>mr_lng m - lng\<bar> + \<bar>mr_lat m - lat\<bar> \<le> of_int radius \<and> visible_to uid m \<and> live demo_env m \<and> \<not> mr_is_hidden m"
  by (simp add: nearby_where_def in_box_def demo_env_def Let_def)

lemma GetNearby_demo:
  "MessageRepo_GetNearby demo_env demo_query demo_db =
   (Inr [(scan_message (demo_message ''m1'' ''alice'', demo_user ''alice'' ''alice''))
           \<lparr>msg_Distance := Some 3\<rparr>], demo_db)"
proof -
  have "filter (nearby_where demo_env (Finite 1) (Finite 2) 1000 uid) (t_messages demo_db) = t_messages demo_db" for uid
    unfolding nearby_where_demo by (simp add: demo_db_def demo_message_def visible_to_def live_def)
  then show ?thesis
    by (simp add: MessageRepo_GetNearby_def query_rows_up nearby_query_def demo_query_def int4_ok_def
        get_nearby_messages_def uuid_param_def hashtag_filter_def join_users_def row_distance_def
        demo_env_def demo_db_def empty_db_def demo_message_def demo_user_def)
qed


section \<open>Delete\<close>

text \<open>C29: only its author deletes a message. On a connection that answers, \<open>Delete\<close> by the author
  removes that message and, with it, its interactions, unlocks and reactions, and no other message;
  for anyone else, or for a message that does not exist, it returns \<open>ErrNotFound\<close> and the
  database is unchanged. (\<open>report_on_delete\<close> is what the unknown constraint on reports does; it is
  assumed not to refuse the deletion.)\<close>

theorem Delete_owner_only:
  assumes "t_links d = []" and "db_ok d" and "uuid_in env i = Some mid" and "uuid_in env userID = Some uid"
    and "\<And>ids rs. \<exists>rs'. report_on_delete env ids rs = Inr rs'"
  shows "\<exists>r d'. MessageRepo_Delete env i userID d = (r, d') \<and> db_ok d' \<and>
    (if \<exists>m \<in> set (t_messages d). mr_id m = mid \<and> mr_user_id m = uid
     then r = Inr () \<and> t_messages d' = filter (\<lambda>m. mr_id m \<noteq> mid) (t_messages d) \<and>
       t_interactions d' = filter (\<lambda>x. ir_message_id x \<noteq> mid) (t_interactions d) \<and>
       t_unlocks d' = filter (\<lambda>x. kr_message_id x \<noteq> mid) (t_unlocks d) \<and>
       t_reactions d' = filter (\<lambda>x. rr_message_id x \<noteq> mid) (t_reactions d)
     else r = Inl ErrNotFound \<and> d' = d)"
proof (cases "\<exists>m \<in> set (t_messages d). mr_id m = mid \<and> mr_user_id m = uid")
  case True
  then obtain m where m: "m \<in> set (t_messages d)" "mr_id m = mid" "mr_user_id m = uid" by blast
  let ?P = "\<lambda>m. mr_id m = mid \<and> mr_user_id m = uid"
  have uniq: "?P x \<longleftrightarrow> mr_id x = mid" if "x \<in> set (t_messages d)" for x
    using assms(2) m that by (auto simp: db_ok_def wf_messages_def dest: distinct_map_unique)
  then have gone: "filter ?P (t_messages d) = [m]" "count_where ?P (t_messages d) = 1"
    using filter_unique_key [of mr_id "t_messages d" m] assms(2) m
    by (auto simp: db_ok_def wf_messages_def count_where_def cong: filter_cong)
  have rest: "filter (\<lambda>x. \<not> ?P x) (t_messages d) = filter (\<lambda>x. mr_id x \<noteq> mid) (t_messages d)"
    using uniq by (auto intro: filter_cong)
  obtain reps where "report_on_delete env [mid] (t_reports d) = Inr reps" using assms(5) by blast
  with gone rest m assms(1,3,4) MessageRepo_Delete_inv [OF assms(2), of env i userID] True show ?thesis
    by (simp add: MessageRepo_Delete_def exec_up delete_message_stmt_def uuid_param_def Let_def
        delete_messages_def)
next
  case False
  then have "filter (\<lambda>m. mr_id m = mid \<and> mr_user_id m = uid) (t_messages d) = []"
    by (auto simp: filter_empty_conv)
  with assms False show ?thesis
    by (simp add: MessageRepo_Delete_def exec_up delete_message_stmt_def uuid_param_def Let_def
        delete_messages_def count_where_def)
qed

lemma Delete_owner_only_witness:
  "\<exists>r d'. MessageRepo_Delete demo_env ''m1'' ''bobby'' demo_db = (r, d') \<and> r = Inl ErrNotFound \<and> d' = demo_db"
proof -
  have up: "t_links demo_db = []" and ids: "uuid_in demo_env ''m1'' = Some ''m1''"
    "uuid_in demo_env ''bobby'' = Some ''bobby''"
    and reps: "\<And>ids rs. \<exists>rs'. report_on_delete demo_env ids rs = Inr rs'"
    by (simp_all add: demo_db_def empty_db_def demo_env_def)
  have "\<not> (\<exists>m \<in> set (t_messages demo_db). mr_id m = ''m1'' \<and> mr_user_id m = ''bobby'')"
    by (simp add: demo_db_def demo_message_def)
  with Delete_owner_only [OF up demo_db_ok ids reps] show ?thesis by auto
qed

section \<open>UnlockMystery\<close>

text \<open>Unlocking is idempotent. On a connection that answers, the first unlock of a message by a
  user returns true, records the pair and raises the unlock count of that message by one; from
  then on \<open>IsUnlocked\<close> says true, and unlocking again returns false and changes nothing.\<close>

lemma UnlockMystery_idempotent:
  assumes "t_links d = []" and "uuid_in env messageID = Some mid" and "uuid_in env userID = Some uid"
    and "MessageRepo_UnlockMystery env messageID userID d = (Inr b, d')"
  shows "b = (\<not> (\<exists>r \<in> set (t_unlocks d). kr_message_id r = mid \<and> kr_user_id r = uid)) \<and>
    MessageRepo_IsUnlocked env messageID userID d' = (Inr True, d') \<and>
    MessageRepo_UnlockMystery env messageID userID d' = (Inr False, d') \<and>
    t_messages d' = update_where (\<lambda>m. mr_id m = mid)
      (\<lambda>m. m\<lparr>mr_unlocks_count := mr_unlocks_count m + (if b then 1 else 0)\<rparr>) (t_messages d)"
proof -
  from assms have ins: "insert_unlock \<lparr>kr_message_id = mid, kr_user_id = uid\<rparr> d = Inr (b, d')"
    by (auto simp: MessageRepo_UnlockMystery_def exec_up unlock_stmt_def uuid_param_def
        split: sum.splits)
  then have b: "b = (\<not> (\<exists>r \<in> set (t_unlocks d). kr_message_id r = mid \<and> kr_user_id r = uid))"
    and has: "\<exists>r \<in> set (t_unlocks d'). kr_message_id r = mid \<and> kr_user_id r = uid"
    and links: "t_links d' = []"
    using assms(1) by (auto simp: insert_unlock_def split: if_splits)
  from ins have msgs: "t_messages d' = update_where (\<lambda>m. mr_id m = mid)
      (\<lambda>m. m\<lparr>mr_unlocks_count := mr_unlocks_count m + (if b then 1 else 0)\<rparr>) (t_messages d)"
    by (cases b) (auto simp: insert_unlock_def update_where_def map_idI split: if_splits)
  from has have "insert_unlock \<lparr>kr_message_id = mid, kr_user_id = uid\<rparr> d' = Inr (False, d')"
    by (auto simp: insert_unlock_def)
  with has links assms(2,3) b msgs show ?thesis
    by (simp add: MessageRepo_UnlockMystery_def MessageRepo_IsUnlocked_def exec_up query_up
        unlock_stmt_def is_unlocked_query_def uuid_param_def)
qed

lemma UnlockMystery_idempotent_witness:
  "MessageRepo_UnlockMystery demo_env ''m1'' ''bobby''
     (snd (MessageRepo_UnlockMystery demo_env ''m1'' ''bobby'' demo_db)) =
   (Inr False, snd (MessageRepo_UnlockMystery demo_env ''m1'' ''bobby'' demo_db))"
proof -
  have "fst (MessageRepo_UnlockMystery demo_env ''m1'' ''bobby'' demo_db) = Inr True"
    by (simp add: MessageRepo_UnlockMystery_def exec_up unlock_stmt_def uuid_param_def insert_unlock_def
        has_message_def has_user_def demo_db_def empty_db_def demo_env_def demo_message_def demo_user_def)
  then have "MessageRepo_UnlockMystery demo_env ''m1'' ''bobby'' demo_db =
      (Inr True, snd (MessageRepo_UnlockMystery demo_env ''m1'' ''bobby'' demo_db))"
    by (metis prod.collapse)
  from UnlockMystery_idempotent [OF _ _ _ this] show ?thesis
    by (simp add: demo_db_def empty_db_def demo_env_def)
qed

end
