(* ===== verification/Interaction_Repo.thy ===== *)
theory Interaction_Repo
  imports Message_Repo
begin

text \<open>
  \<open>backend/internal/repository/interaction_repo.go\<close>. \<open>ToggleLike\<close> is the one method that runs in
  an explicit transaction: every error path rolls back to the state at its start, and the
  commit itself may fail before or after it took effect.
\<close>

section \<open>Transactions\<close>

definition rollback_to :: "db \<Rightarrow> db \<Rightarrow> db" where
  "rollback_to d0 d = d0\<lparr>t_links := t_links d, t_uuids := t_uuids d\<rparr>"

definition tx_begin :: "unit action" where
  "tx_begin d = query (\<lambda>_. Inr ()) d"

text \<open>\<open>tx.Commit\<close> of the changes from \<open>d0\<close> to \<open>d\<close>.\<close>

definition tx_commit :: "db \<Rightarrow> db \<Rightarrow> (go_error + unit) \<times> db" where
  "tx_commit d0 d =
     (case next_link d of (l, d1) \<Rightarrow>
        if l = Unreachable then (Inl (ErrDB ConnectionError), rollback_to d0 d1)
        else if l = ReplyLost then (Inl (ErrDB ConnectionError), d1)
        else (Inr (), d1))"

section \<open>ToggleLike\<close>

definition find_like :: "env \<Rightarrow> string \<Rightarrow> string \<Rightarrow> db \<Rightarrow> db_error + string list" where
  "find_like env messageID userID d =
     (case uuid_param env messageID of Inl e \<Rightarrow> Inl e | Inr mid \<Rightarrow>
        (case uuid_param env userID of Inl e \<Rightarrow> Inl e | Inr uid \<Rightarrow>
           Inr (map ir_id (filter (is_like_of mid uid) (t_interactions d)))))"

definition delete_like_stmt :: "string \<Rightarrow> unit stmt" where
  "delete_like_stmt i d = (Inr (), delete_interactions (\<lambda>r. ir_id r = i) d)"

definition insert_interaction_stmt :: "env \<Rightarrow> string \<Rightarrow> string \<Rightarrow> string \<Rightarrow> string option \<Rightarrow> interaction_row list stmt" where
  "insert_interaction_stmt env messageID userID ty content d =
     (case uuid_param env messageID of Inl e \<Rightarrow> (Inl e, d) | Inr mid \<Rightarrow>
        (case uuid_param env userID of Inl e \<Rightarrow> (Inl e, d) | Inr uid \<Rightarrow>
           (case gen_uuid env d of (i, d1) \<Rightarrow>
              (let row = \<lparr>ir_id = i, ir_message_id = mid, ir_user_id = uid, ir_type = ty,
                          ir_content = content, ir_created_at = db_now env\<rparr> in
               case insert_interaction row d1 of
                 Inl e \<Rightarrow> (Inl e, d) | Inr d2 \<Rightarrow> (Inr [row], d2)))))"

definition likes_count_query :: "env \<Rightarrow> string \<Rightarrow> db \<Rightarrow> db_error + int list" where
  "likes_count_query env messageID d =
     (case uuid_param env messageID of Inl e \<Rightarrow> Inl e | Inr mid \<Rightarrow>
        Inr (map mr_likes_count (filter (\<lambda>m. mr_id m = mid) (t_messages d))))"

text \<open>The three-way branch on the look-up's result: unlike, like, or fail.\<close>

definition flip_like :: "env \<Rightarrow> string \<Rightarrow> string \<Rightarrow> go_error + string \<Rightarrow> bool action" where
  "flip_like env messageID userID found d =
     (case found of
        Inr existingID \<Rightarrow>
          (case exec (delete_like_stmt existingID) d of
             (Inl e, d1) \<Rightarrow> (Inl e, d1) | (Inr _, d1) \<Rightarrow> (Inr False, d1))
      | Inl e \<Rightarrow>
          (if e = ErrNoRows
           then (case exec (insert_interaction_stmt env messageID userID ''like'' None) d of
                   (Inl e', d1) \<Rightarrow> (Inl e', d1) | (Inr _, d1) \<Rightarrow> (Inr True, d1))
           else (Inl e, d)))"

definition like_tx :: "env \<Rightarrow> string \<Rightarrow> string \<Rightarrow> LikeResponse action" where
  "like_tx env messageID userID d =
     (case first_row (query (find_like env messageID userID) d) of
        (f, d1) \<Rightarrow>
          (case flip_like env messageID userID f d1 of
             (Inl e, d2) \<Rightarrow> (Inl e, d2)
           | (Inr liked, d2) \<Rightarrow>
               (case first_row (query (likes_count_query env messageID) d2) of
                  (Inl e, d3) \<Rightarrow> (Inl e, d3)
                | (Inr cnt, d3) \<Rightarrow> (Inr \<lparr>lkr_Liked = liked, lkr_LikesCount = cnt\<rparr>, d3))))"

text \<open>Every return before the commit runs the deferred \<open>tx.Rollback\<close>.\<close>

definition InteractionRepo_ToggleLike :: "env \<Rightarrow> string \<Rightarrow> string \<Rightarrow> LikeResponse action" where
  "InteractionRepo_ToggleLike env messageID userID d =
     (case tx_begin d of
        (Inl e, d1) \<Rightarrow> (Inl e, d1)
      | (Inr _, d1) \<Rightarrow>
          (case like_tx env messageID userID d1 of
             (Inl e, d2) \<Rightarrow> (Inl e, rollback_to d1 d2)
           | (Inr resp, d2) \<Rightarrow>
               (case tx_commit d1 d2 of
                  (Inl e, d3) \<Rightarrow> (Inl e, d3)
                | (Inr _, d3) \<Rightarrow> (Inr resp, d3))))"

section \<open>Comments\<close>

definition scan_interaction :: "string \<Rightarrow> interaction_row \<Rightarrow> Interaction" where
  "scan_interaction name r = \<lparr>int_ID = ir_id r, int_MessageID = ir_message_id r,
     int_UserID = ir_user_id r, int_Username = name, int_Type = ir_type r,
     int_Content = ir_content r, int_CreatedAt = ir_created_at r\<rparr>"

definition InteractionRepo_AddComment :: "env \<Rightarrow> string \<Rightarrow> string \<Rightarrow> string \<Rightarrow> Interaction action" where
  "InteractionRepo_AddComment env messageID userID content d =
     (case first_row (exec (insert_interaction_stmt env messageID userID ''comment'' (Some content)) d) of
        (Inl e, d1) \<Rightarrow> (Inl e, d1) | (Inr r, d1) \<Rightarrow> (Inr (scan_interaction [] r), d1))"

definition delete_comment_stmt :: "env \<Rightarrow> string \<Rightarrow> string \<Rightarrow> nat stmt" where
  "delete_comment_stmt env commentID userID d =
     (case uuid_param env commentID of Inl e \<Rightarrow> (Inl e, d) | Inr cid \<Rightarrow>
        (case uuid_param env userID of Inl e \<Rightarrow> (Inl e, d) | Inr uid \<Rightarrow>
           (let P = (\<lambda>r. ir_id r = cid \<and> ir_user_id r = uid \<and> ir_type r = ''comment'') in
            (Inr (count_where P (t_interactions d)), delete_interactions P d))))"

definition InteractionRepo_DeleteComment :: "env \<Rightarrow> string \<Rightarrow> string \<Rightarrow> unit action" where
  "InteractionRepo_DeleteComment env commentID userID d =
     (case exec (delete_comment_stmt env commentID userID) d of
        (Inl e, d1) \<Rightarrow> (Inl e, d1)
      | (Inr n, d1) \<Rightarrow> if n = 0 then (Inl ErrNotFound, d1) else (Inr (), d1))"

definition comments_query :: "env \<Rightarrow> string \<Rightarrow> db \<Rightarrow> db_error + Interaction list" where
  "comments_query env messageID d =
     (case uuid_param env messageID of Inl e \<Rightarrow> Inl e | Inr mid \<Rightarrow>
        Inr (map (\<lambda>(r, u). scan_interaction (ur_username u) r)
          (sort_key (\<lambda>(r, u). ir_created_at r)
            (concat (map (\<lambda>r. map (Pair r) (filter (\<lambda>u. ur_id u = ir_user_id r) (t_users d)))
              (filter (\<lambda>r. ir_message_id r = mid \<and> ir_type r = ''comment'') (t_interactions d)))))))"

definition InteractionRepo_GetComments :: "env \<Rightarrow> string \<Rightarrow> Interaction list action" where
  "InteractionRepo_GetComments env messageID d = query_rows env (comments_query env messageID) d"

section \<open>Reports\<close>

definition report_stmt :: "env \<Rightarrow> string \<Rightarrow> string \<Rightarrow> string \<Rightarrow> string \<Rightarrow> unit stmt" where
  "report_stmt env messageID userID reason description d =
     (case uuid_param env userID of Inl e \<Rightarrow> (Inl e, d) | Inr uid \<Rightarrow>
        (case uuid_param env messageID of Inl e \<Rightarrow> (Inl e, d) | Inr mid \<Rightarrow>
           (case insert_report env \<lparr>pr_reporter_id = uid, pr_message_id = mid, pr_reason = reason,
                   pr_description = description\<rparr> d of
              Inl e \<Rightarrow> (Inl e, d) | Inr d1 \<Rightarrow> (Inr (), d1))))"

definition InteractionRepo_ReportMessage ::
  "env \<Rightarrow> string \<Rightarrow> string \<Rightarrow> string \<Rightarrow> string \<Rightarrow> unit action" where
  "InteractionRepo_ReportMessage env messageID userID reason description d =
     exec (report_stmt env messageID userID reason description) d"

definition InteractionRepo_GetReportCount :: "env \<Rightarrow> string \<Rightarrow> nat action" where
  "InteractionRepo_GetReportCount env messageID d =
     query (\<lambda>d. case uuid_param env messageID of Inl e \<Rightarrow> Inl e | Inr mid \<Rightarrow>
        Inr (count_where (\<lambda>r. pr_message_id r = mid) (t_reports d))) d"

definition hide_stmt :: "env \<Rightarrow> string \<Rightarrow> unit stmt" where
  "hide_stmt env messageID d =
     (case uuid_param env messageID of Inl e \<Rightarrow> (Inl e, d) | Inr mid \<Rightarrow>
        (Inr (), d\<lparr>t_messages := update_where (\<lambda>m. mr_id m = mid) (\<lambda>m. m\<lparr>mr_is_hidden := True\<rparr>)
                     (t_messages d)\<rparr>))"

definition InteractionRepo_HideMessage :: "env \<Rightarrow> string \<Rightarrow> unit action" where
  "InteractionRepo_HideMessage env messageID d = exec (hide_stmt env messageID) d"

section \<open>Reactions\<close>

definition find_reaction :: "env \<Rightarrow> string \<Rightarrow> string \<Rightarrow> string \<Rightarrow> db \<Rightarrow> db_error + string list" where
  "find_reaction env messageID userID emoji d =
     (case uuid_param env messageID of Inl e \<Rightarrow> Inl e | Inr mid \<Rightarrow>
        (case uuid_param env userID of Inl e \<Rightarrow> Inl e | Inr uid \<Rightarrow>
           if \<not> pg_text_ok emoji then Inl InvalidByteSequence
           else Inr (map rr_id (filter (\<lambda>r. reaction_key r = (mid, uid, emoji)) (t_reactions d)))))"

definition delete_reaction_stmt :: "string \<Rightarrow> unit stmt" where
  "delete_reaction_stmt i d = (Inr (), d\<lparr>t_reactions := filter (\<lambda>r. rr_id r \<noteq> i) (t_reactions d)\<rparr>)"

definition insert_reaction_stmt :: "env \<Rightarrow> string \<Rightarrow> string \<Rightarrow> string \<Rightarrow> unit stmt" where
  "insert_reaction_stmt env messageID userID emoji d =
     (case uuid_param env messageID of Inl e \<Rightarrow> (Inl e, d) | Inr mid \<Rightarrow>
        (case uuid_param env userID of Inl e \<Rightarrow> (Inl e, d) | Inr uid \<Rightarrow>
           (case gen_uuid env d of (i, d1) \<Rightarrow>
              (case insert_reaction \<lparr>rr_id = i, rr_message_id = mid, rr_user_id = uid, rr_emoji = emoji,
                      rr_created_at = db_now env\<rparr> d1 of
                 Inl e \<Rightarrow> (Inl e, d) | Inr d2 \<Rightarrow> (Inr (), d2)))))"

text \<open>The look-up and the change are two statements with no transaction around them.\<close>

definition InteractionRepo_ToggleReaction :: "env \<Rightarrow> string \<Rightarrow> string \<Rightarrow> string \<Rightarrow> bool action" where
  "InteractionRepo_ToggleReaction env messageID userID emoji d =
     (case first_row (query (find_reaction env messageID userID emoji) d) of
        (Inr existingID, d1) \<Rightarrow>
          (case exec (delete_reaction_stmt existingID) d1 of
             (Inl e, d2) \<Rightarrow> (Inl e, d2) | (Inr _, d2) \<Rightarrow> (Inr False, d2))
      | (Inl e, d1) \<Rightarrow>
          (if e = ErrNoRows
           then (case exec (insert_reaction_stmt env messageID userID emoji) d1 of
                   (Inl e', d2) \<Rightarrow> (Inl e', d2) | (Inr _, d2) \<Rightarrow> (Inr True, d2))
           else (Inl e, d1)))"

definition summarize :: "string \<Rightarrow> reaction_row list \<Rightarrow> ReactionSummary list" where
  "summarize uid rs =
     sort_key (\<lambda>s. - rsm_Count s)
       (map (\<lambda>(e, g). \<lparr>rsm_Emoji = e, rsm_Count = int (length g),
                       rsm_Reacted = (\<exists>r \<in> set g. rr_user_id r = uid)\<rparr>)
         (group_by rr_emoji rs))"

definition reactions_query :: "env \<Rightarrow> string \<Rightarrow> string \<Rightarrow> db \<Rightarrow> db_error + ReactionSummary list" where
  "reactions_query env messageID userID d =
     (case uuid_param env messageID of Inl e \<Rightarrow> Inl e | Inr mid \<Rightarrow>
        (case uuid_param env userID of Inl e \<Rightarrow> Inl e | Inr uid \<Rightarrow>
           Inr (summarize uid (filter (\<lambda>r. rr_message_id r = mid) (t_reactions d)))))"

definition InteractionRepo_GetReactionsByMessage :: "env \<Rightarrow> string \<Rightarrow> string \<Rightarrow> ReactionSummary list action" where
  "InteractionRepo_GetReactionsByMessage env messageID userID d = query_rows env (reactions_query env messageID userID) d"

text \<open>The result map, as the list of its entries; \<open>None\<close> is the nil map.\<close>

type_synonym reactions_map = "(string \<times> ReactionSummary list) list"

definition uuid_params :: "env \<Rightarrow> string list \<Rightarrow> db_error + string list" where
  "uuid_params env xs =
     (if list_all (\<lambda>x. uuid_in env x \<noteq> None) xs then Inr (map (\<lambda>x. the (uuid_in env x)) xs)
      else Inl InvalidTextRepresentation)"

definition reactions_batch_query ::
  "env \<Rightarrow> string list \<Rightarrow> string \<Rightarrow> db \<Rightarrow> db_error + (string \<times> ReactionSummary) list" where
  "reactions_batch_query env messageIDs userID d =
     (case uuid_params env messageIDs of Inl e \<Rightarrow> Inl e | Inr mids \<Rightarrow>
        (case uuid_param env userID of Inl e \<Rightarrow> Inl e | Inr uid \<Rightarrow>
           Inr (concat (map (\<lambda>(m, g). map (Pair m) (summarize uid g))
             (group_by rr_message_id (filter (\<lambda>r. rr_message_id r \<in> set mids) (t_reactions d)))))))"

text \<open>The loop appends each row to the entry of its message.\<close>

definition collect_reactions :: "(string \<times> ReactionSummary) list \<Rightarrow> reactions_map" where
  "collect_reactions rows = map (\<lambda>(m, rs). (m, map snd rs)) (group_by fst rows)"

definition InteractionRepo_GetReactionsByMessages ::
  "env \<Rightarrow> string list \<Rightarrow> string \<Rightarrow> reactions_map option action" where
  "InteractionRepo_GetReactionsByMessages env messageIDs userID d =
     (if messageIDs = [] then (Inr None, d)
      else (case query_rows env (reactions_batch_query env messageIDs userID) d of
              (Inl e, d1) \<Rightarrow> (Inl e, d1) | (Inr rows, d1) \<Rightarrow> (Inr (Some (collect_reactions rows)), d1)))"

section \<open>Every method keeps the invariant\<close>

lemma insert_interaction_links: "insert_interaction r d = Inr d' \<Longrightarrow> t_links d' = t_links d"
  by (auto simp: insert_interaction_def update_interaction_counts_eq split: if_splits)

lemma delete_interactions_links: "t_links (delete_interactions P d) = t_links d"
  by (simp add: delete_interactions_def fold_update_interaction_counts)

interpretation delete_like_stmt: pg_statement "delete_like_stmt i" for i
  by unfold_locales (auto simp: delete_like_stmt_def delete_interactions_ok delete_interactions_links)

interpretation insert_interaction_stmt: pg_statement "insert_interaction_stmt env m u ty c" for env m u ty c
proof
  fix d x d'
  assume "insert_interaction_stmt env m u ty c d = (Inr x, d')"
  then obtain r where ins: "insert_interaction r (d\<lparr>t_uuids := Suc (t_uuids d)\<rparr>) = Inr d'"
    by (auto simp: insert_interaction_stmt_def gen_uuid_def Let_def split: sum.splits)
  from insert_interaction_links [OF ins] show "t_links d' = t_links d" by simp
  assume "db_ok d"
  then show "db_ok d'" using insert_interaction_ok [OF ins] by simp
qed

interpretation delete_comment_stmt: pg_statement "delete_comment_stmt env c u" for env c u
  by unfold_locales (auto simp: delete_comment_stmt_def Let_def delete_interactions_ok
      delete_interactions_links split: sum.splits)

interpretation report_stmt: pg_statement "report_stmt env m u r t" for env m u r t
proof
  fix d x d'
  assume "report_stmt env m u r t d = (Inr x, d')"
  then obtain row where ins: "insert_report env row d = Inr d'"
    by (auto simp: report_stmt_def split: sum.splits)
  then show "t_links d' = t_links d" by (auto simp: insert_report_def split: if_splits option.splits)
  assume "db_ok d"
  then show "db_ok d'" by (rule insert_report_ok [OF ins])
qed

interpretation hide_stmt: pg_statement "hide_stmt env m" for env m
proof
  fix d x d'
  assume st: "hide_stmt env m d = (Inr x, d')"
  then obtain mid where d': "d' = d\<lparr>t_messages := update_where (\<lambda>r. mr_id r = mid)
      (\<lambda>r. r\<lparr>mr_is_hidden := True\<rparr>) (t_messages d)\<rparr>"
    by (auto simp: hide_stmt_def split: sum.splits)
  then show "t_links d' = t_links d" by simp
  assume "db_ok d"
  then show "db_ok d'" unfolding d' update_where_def by (rule update_messages_ok) simp_all
qed

interpretation delete_reaction_stmt: pg_statement "delete_reaction_stmt i" for i
  by unfold_locales (auto simp: delete_reaction_stmt_def delete_reactions_ok)

interpretation insert_reaction_stmt: pg_statement "insert_reaction_stmt env m u e" for env m u e
proof
  fix d x d'
  assume "insert_reaction_stmt env m u e d = (Inr x, d')"
  then obtain r where ins: "insert_reaction r (d\<lparr>t_uuids := Suc (t_uuids d)\<rparr>) = Inr d'"
    by (auto simp: insert_reaction_stmt_def gen_uuid_def split: sum.splits)
  then show "t_links d' = t_links d" by (auto simp: insert_reaction_def split: if_splits)
  assume "db_ok d"
  then show "db_ok d'" using insert_reaction_ok [OF ins] by simp
qed

lemma first_row_D: "first_row p = (r, d) \<Longrightarrow> \<exists>r'. p = (r', d)"
  by (metis first_row_snd prod.collapse snd_conv)

lemma rollback_to_ok [simp]: "db_ok (rollback_to d0 d) = db_ok d0"
  by (simp add: rollback_to_def)

lemma tx_commit_ok: "tx_commit d0 d = (r, d') \<Longrightarrow> db_ok d0 \<Longrightarrow> db_ok d \<Longrightarrow> db_ok d'"
  by (auto simp: tx_commit_def next_link_def split: list.splits if_splits)

lemma tx_begin_ok: "tx_begin d = (r, d') \<Longrightarrow> db_ok d \<Longrightarrow> db_ok d'"
  unfolding tx_begin_def by (rule query_keepsD)

lemmas interaction_keeps = query_keepsD query_rows_keepsD tx_commit_ok tx_begin_ok delete_like_stmt.exec_keepsD
  insert_interaction_stmt.exec_keepsD delete_comment_stmt.exec_keepsD report_stmt.exec_keepsD
  hide_stmt.exec_keepsD delete_reaction_stmt.exec_keepsD insert_reaction_stmt.exec_keepsD

lemma flip_like_ok: "flip_like env m u f d = (r, d') \<Longrightarrow> db_ok d \<Longrightarrow> db_ok d'"
  by (auto simp: flip_like_def split: prod.splits sum.splits if_splits dest: interaction_keeps)

lemma like_tx_ok: "like_tx env m u d = (r, d') \<Longrightarrow> db_ok d \<Longrightarrow> db_ok d'"
  by (auto simp: like_tx_def split: prod.splits sum.splits dest!: first_row_D
      dest: query_keepsD flip_like_ok)

lemma ToggleLike_inv [db_inv]:
  assumes "db_ok d"
  shows "db_ok (snd (InteractionRepo_ToggleLike env m u d))"
  using assms
  by (auto simp: InteractionRepo_ToggleLike_def split: prod.splits sum.splits
      dest: tx_begin_ok like_tx_ok tx_commit_ok)

lemma interaction_methods_inv [db_inv]:
  assumes "db_ok d"
  shows "db_ok (snd (InteractionRepo_AddComment env m u c d))"
    "db_ok (snd (InteractionRepo_DeleteComment env i u d))"
    "db_ok (snd (InteractionRepo_GetComments env m d))"
    "db_ok (snd (InteractionRepo_ReportMessage env m u rs ds d))"
    "db_ok (snd (InteractionRepo_GetReportCount env m d))"
    "db_ok (snd (InteractionRepo_HideMessage env m d))"
    "db_ok (snd (InteractionRepo_GetReactionsByMessage env m u d))"
    "db_ok (snd (InteractionRepo_GetReactionsByMessages env ms u d))"
  using assms
  by (auto simp: InteractionRepo_AddComment_def InteractionRepo_DeleteComment_def
      InteractionRepo_GetComments_def InteractionRepo_ReportMessage_def
      InteractionRepo_GetReportCount_def InteractionRepo_HideMessage_def
      InteractionRepo_GetReactionsByMessage_def InteractionRepo_GetReactionsByMessages_def
      query_keeps query_rows_keeps report_stmt.exec_keeps hide_stmt.exec_keeps
      split: prod.splits sum.splits dest!: first_row_D dest: interaction_keeps)

lemma ToggleReaction_inv [db_inv]:
  assumes "db_ok d"
  shows "db_ok (snd (InteractionRepo_ToggleReaction env m u e d))"
  using assms
  by (auto simp: InteractionRepo_ToggleReaction_def split: prod.splits sum.splits
      dest!: first_row_D dest: query_keepsD delete_reaction_stmt.exec_keepsD insert_reaction_stmt.exec_keepsD)

section \<open>Likes\<close>

text \<open>Whether a user likes a message, and how many do.\<close>

definition likes :: "db \<Rightarrow> string \<Rightarrow> string \<Rightarrow> bool" where
  "likes d mid uid \<longleftrightarrow> (\<exists>r \<in> set (t_interactions d). is_like_of mid uid r)"

definition likes_of :: "db \<Rightarrow> string \<Rightarrow> nat" where
  "likes_of d mid = count_where (\<lambda>r. ir_message_id r = mid \<and> is_like r) (t_interactions d)"

definition others :: "db \<Rightarrow> string \<Rightarrow> string \<Rightarrow> interaction_row list" where
  "others d mid uid = filter (\<lambda>r. \<not> is_like_of mid uid r) (t_interactions d)"

lemma exec_Inr:
  assumes "exec st d = (Inr x, d')"
  shows "st (d\<lparr>t_links := tl (t_links d)\<rparr>) = (Inr x, d')"
  using assms
  by (auto simp: exec_def next_link_def db_same_links split: list.splits sum.splits prod.splits if_splits)

lemma likes_links [simp]:
  "likes (d\<lparr>t_links := ls\<rparr>) = likes d" "likes_of (d\<lparr>t_links := ls\<rparr>) = likes_of d"
  "others (d\<lparr>t_links := ls\<rparr>) = others d"
  by (simp_all add: likes_def likes_of_def others_def fun_eq_iff)

lemma delete_interactions_rows [simp]:
  "t_interactions (delete_interactions P d) = filter (\<lambda>r. \<not> P r) (t_interactions d)"
  by (simp add: delete_interactions_def fold_update_interaction_counts)

text \<open>The unique-like constraint: deleting the like found by its identifier leaves none.\<close>

lemma like_row_unique:
  assumes "db_ok d" and "r \<in> set (t_interactions d)" and "is_like_of mid uid r"
  shows "x \<in> set (t_interactions d) \<Longrightarrow> is_like_of mid uid x \<longleftrightarrow> ir_id x = ir_id r"
proof -
  assume x: "x \<in> set (t_interactions d)"
  have "distinct (map ir_id (t_interactions d))" "distinct (map like_key (filter is_like (t_interactions d)))"
    using assms(1) by (simp_all add: db_ok_def wf_interactions_def)
  with assms(2,3) x show ?thesis
    by (auto simp: is_like_of_def is_like_def like_key_def
        dest: distinct_map_unique [of ir_id] distinct_map_unique [of like_key "filter is_like (t_interactions d)" x r])
qed

text \<open>A flip that succeeds turns the like over and leaves every other interaction.\<close>

definition flipped :: "string \<Rightarrow> string \<Rightarrow> db \<Rightarrow> bool \<Rightarrow> db \<Rightarrow> bool" where
  "flipped mid uid d liked d' \<longleftrightarrow>
     liked = (\<not> likes d mid uid) \<and> likes d' mid uid = liked \<and> others d' mid uid = others d mid uid"

lemma find_like_Inr:
  assumes "find_like env m u d = Inr ids"
  shows "\<exists>mid uid. uuid_in env m = Some mid \<and> uuid_in env u = Some uid \<and>
    ids = map ir_id (filter (is_like_of mid uid) (t_interactions d))"
  using assms by (auto simp: find_like_def uuid_param_def split: sum.splits option.splits)

lemma delete_like_flips:
  assumes "db_ok d" and "filter (is_like_of mid uid) (t_interactions d) = r # rs"
    and "delete_like_stmt (ir_id r) d = (Inr x, d')"
  shows "flipped mid uid d False d'"
proof -
  have r: "r \<in> set (t_interactions d)" "is_like_of mid uid r"
    using filter_eq_ConsD [OF assms(2)] by auto
  from assms(3) have "t_interactions d' = filter (\<lambda>x. ir_id x \<noteq> ir_id r) (t_interactions d)"
    by (auto simp: delete_like_stmt_def)
  also have "\<dots> = filter (\<lambda>x. \<not> is_like_of mid uid x) (t_interactions d)"
    using like_row_unique [OF assms(1) r] by (auto intro: filter_cong)
  finally show ?thesis using r by (auto simp: flipped_def likes_def others_def)
qed

lemma insert_interaction_stmt_Inr:
  assumes "insert_interaction_stmt env m u ty c d = (Inr x, d')"
    and "uuid_in env m = Some mid" and "uuid_in env u = Some uid"
  shows "\<exists>r. x = [r] \<and> t_interactions d' = t_interactions d @ [r] \<and>
    r = \<lparr>ir_id = uuid_v4 env (t_uuids d), ir_message_id = mid, ir_user_id = uid, ir_type = ty,
          ir_content = c, ir_created_at = db_now env\<rparr>"
  using assms
  by (auto simp: insert_interaction_stmt_def uuid_param_def gen_uuid_def Let_def insert_interaction_def
        update_interaction_counts_eq split: sum.splits if_splits)

lemma insert_like_flips:
  assumes "\<not> likes d mid uid" and "uuid_in env m = Some mid" and "uuid_in env u = Some uid"
    and "insert_interaction_stmt env m u ''like'' None d = (Inr x, d')"
  shows "flipped mid uid d True d'"
  using assms(1) insert_interaction_stmt_Inr [OF assms(4,2,3)]
  by (auto simp: flipped_def likes_def others_def is_like_of_def)

lemma first_row_Inr: "first_row p = (Inr x, d) \<Longrightarrow> \<exists>xs. p = (Inr (x # xs), d)"
  by (auto simp: first_row_def split: prod.splits sum.splits list.splits)

lemma first_row_NoRows: "first_row (query q d) = (Inl ErrNoRows, d') \<Longrightarrow> query q d = (Inr [], d')"
  by (auto simp: first_row_def query_def exec_def split: prod.splits sum.splits list.splits if_splits)

lemma query_InrD: "query q d = (Inr x, d') \<Longrightarrow> q (d\<lparr>t_links := tl (t_links d)\<rparr>) = Inr x \<and> d' = d\<lparr>t_links := tl (t_links d)\<rparr>"
  unfolding query_def by (drule exec_Inr) auto

lemma likes_count_correct:
  assumes "db_ok d" and "first_row (query (likes_count_query env m) d) = (Inr n, d')" and "uuid_in env m = Some mid"
  shows "n = int (likes_of d mid) \<and> d' = d\<lparr>t_links := tl (t_links d)\<rparr>"
proof -
  from first_row_Inr [OF assms(2)] obtain ns
    where q: "query (likes_count_query env m) d = (Inr (n # ns), d')" by blast
  from query_InrD [OF q] assms(3) have "n # ns = map mr_likes_count (filter (\<lambda>x. mr_id x = mid) (t_messages d))"
    and d': "d' = d\<lparr>t_links := tl (t_links d)\<rparr>"
    by (auto simp: likes_count_query_def uuid_param_def)
  then have "n \<in> set (map mr_likes_count (filter (\<lambda>x. mr_id x = mid) (t_messages d)))"
    by (metis list.set_intros(1))
  then obtain x where "x \<in> set (t_messages d)" "mr_id x = mid" "n = mr_likes_count x" by auto
  with assms(1) d' show ?thesis
    by (auto simp: db_ok_def wf_counts_def counts_ok_def likes_of_def)
qed

lemma flip_like_flips:
  assumes "db_ok d" and "first_row (query (find_like env m u) d) = (f, d1)"
    and "flip_like env m u f d1 = (Inr liked, d2)"
  shows "\<exists>mid uid. uuid_in env m = Some mid \<and> uuid_in env u = Some uid \<and> flipped mid uid d liked d2"
proof (cases f)
  case (Inr i)
  from first_row_Inr [OF assms(2) [unfolded Inr]] obtain rest where
    q: "query (find_like env m u) d = (Inr (i # rest), d1)" by blast
  note D = query_InrD [OF q]
  from D find_like_Inr obtain mid uid where ids: "uuid_in env m = Some mid" "uuid_in env u = Some uid"
    and rows: "i # rest = map ir_id (filter (is_like_of mid uid) (t_interactions d))"
    by fastforce
  from assms(3) Inr have "exec (delete_like_stmt i) d1 = (Inr (), d2)" "liked = False"
    by (auto simp: flip_like_def split: prod.splits sum.splits)
  with D rows have "flipped mid uid d liked d2"
    using delete_like_flips [of "d\<lparr>t_links := tl (tl (t_links d))\<rparr>" mid uid _ _ "()" d2] assms(1)
    by (auto simp: Cons_eq_map_conv flipped_def dest!: exec_Inr)
  with ids show ?thesis by blast
next
  case (Inl e)
  with assms(3) have e: "e = ErrNoRows"
    and ex: "\<exists>x. exec (insert_interaction_stmt env m u ''like'' None) d1 = (Inr x, d2)" and l: "liked = True"
    by (auto simp: flip_like_def split: prod.splits sum.splits if_splits)
  from assms(2) Inl e have q: "query (find_like env m u) d = (Inr [], d1)"
    by (auto intro: first_row_NoRows)
  note D = query_InrD [OF q]
  from D find_like_Inr obtain mid uid where ids: "uuid_in env m = Some mid" "uuid_in env u = Some uid"
    and rows: "[] = map ir_id (filter (is_like_of mid uid) (t_interactions d))"
    by fastforce
  from rows have "\<not> likes d mid uid" by (auto simp: likes_def filter_empty_conv)
  with ex D l ids insert_like_flips [of "d\<lparr>t_links := tl (tl (t_links d))\<rparr>" mid uid env m u _ d2]
  have "flipped mid uid d liked d2"
    by (auto simp: flipped_def dest!: exec_Inr)
  with ids show ?thesis by blast
qed

lemma like_tx_correct:
  assumes "db_ok d" and "like_tx env m u d = (Inr resp, d')"
  shows "\<exists>mid uid. uuid_in env m = Some mid \<and> uuid_in env u = Some uid \<and>
    flipped mid uid d (lkr_Liked resp) d' \<and> lkr_LikesCount resp = int (likes_of d' mid)"
proof -
  from assms(2) obtain f d1 liked d2 n where
    q: "first_row (query (find_like env m u) d) = (f, d1)" and
    fl: "flip_like env m u f d1 = (Inr liked, d2)" and
    c: "first_row (query (likes_count_query env m) d2) = (Inr n, d')" and
    resp: "resp = \<lparr>lkr_Liked = liked, lkr_LikesCount = n\<rparr>"
    by (auto simp: like_tx_def split: prod.splits sum.splits)
  from flip_like_flips [OF assms(1) q fl] obtain mid uid
    where ids: "uuid_in env m = Some mid" "uuid_in env u = Some uid" and flip: "flipped mid uid d liked d2"
    by blast
  have "db_ok d1" using assms(1) q by (auto dest!: first_row_D dest: query_keepsD)
  then have "db_ok d2" using fl by (rule flip_like_ok [rotated])
  from likes_count_correct [OF this c ids(1)] flip ids resp show ?thesis
    by (auto simp: flipped_def)
qed

text \<open>A commit that succeeds, or whose answer is lost, leaves the transaction's state.\<close>

lemma tx_commit_cases:
  "tx_commit d0 d = (r, d') \<Longrightarrow>
   d' = d\<lparr>t_links := tl (t_links d)\<rparr> \<or> r = Inl (ErrDB ConnectionError) \<and> (\<exists>d1. d' = rollback_to d0 d1)"
  by (auto simp: tx_commit_def next_link_def db_same_links split: list.splits if_splits)

lemma tx_begin_InrD: "tx_begin d = (Inr x, d1) \<Longrightarrow> d1 = d\<lparr>t_links := tl (t_links d)\<rparr>"
  unfolding tx_begin_def by (drule query_InrD) simp

lemma ToggleLike_Inr:
  assumes "db_ok d" and "InteractionRepo_ToggleLike env m u d = (Inr resp, d')"
  shows "\<exists>mid uid. uuid_in env m = Some mid \<and> uuid_in env u = Some uid \<and>
    flipped mid uid d (lkr_Liked resp) d' \<and> lkr_LikesCount resp = int (likes_of d' mid)"
proof -
  from assms(2) obtain x d1 d2 y where b: "tx_begin d = (Inr x, d1)" and t: "like_tx env m u d1 = (Inr resp, d2)"
    and c: "tx_commit d1 d2 = (Inr y, d')"
    by (auto simp: InteractionRepo_ToggleLike_def split: prod.splits sum.splits)
  note d1 = tx_begin_InrD [OF b]
  from like_tx_correct [OF _ t] assms(1) d1 tx_commit_cases [OF c] show ?thesis
    by (auto simp: flipped_def)
qed

lemma like_tx_succeeds:
  assumes "db_ok d" and "t_links d = []" and "uuid_in env m = Some mid" and "uuid_in env u = Some uid"
    and "has_message d mid" and "has_user d uid"
    and "\<forall>r \<in> set (t_interactions d). ir_id r \<noteq> uuid_v4 env (t_uuids d)"
  shows "\<exists>resp d'. like_tx env m u d = (Inr resp, d') \<and> t_links d' = []"
proof -
  obtain f where f: "first_row (query (find_like env m u) d) = (f, d)"
    and ok: "f = Inl ErrNoRows \<and> \<not> likes d mid uid \<or> (\<exists>i. f = Inr i)"
    using assms(2-4)
    by (cases "filter (is_like_of mid uid) (t_interactions d)")
      (auto simp: query_up find_like_def uuid_param_def first_row_def likes_def filter_empty_conv)
  have "\<exists>liked d2. flip_like env m u f d = (Inr liked, d2) \<and> t_links d2 = [] \<and> has_message d2 mid"
    using ok
  proof
    assume "f = Inl ErrNoRows \<and> \<not> likes d mid uid"
    with assms(2-) show ?thesis
      by (auto simp: flip_like_def exec_up insert_interaction_stmt_def uuid_param_def gen_uuid_def Let_def
          insert_interaction_def comment_has_content_def update_interaction_counts_eq likes_def has_message_def
          has_user_def)
  next
    assume "\<exists>i. f = Inr i"
    with assms(2,5) show ?thesis
      by (auto simp: flip_like_def exec_up delete_like_stmt_def delete_interactions_links
          delete_interactions_def fold_update_interaction_counts has_message_def)
  qed
  then obtain liked d2 where fl: "flip_like env m u f d = (Inr liked, d2)" "t_links d2 = []" "has_message d2 mid"
    by blast
  then obtain n where "first_row (query (likes_count_query env m) d2) = (Inr n, d2)"
    using assms(3)
    by (cases "filter (\<lambda>x. mr_id x = mid) (t_messages d2)")
      (auto simp: query_up likes_count_query_def uuid_param_def first_row_def has_message_def filter_empty_conv)
  with f fl show ?thesis by (simp add: like_tx_def)
qed

text \<open>C5: \<open>ToggleLike\<close> on a connection that answers. For an existing message and user it succeeds; the
  answer says whether the user likes the message now, which is the opposite of before; the
  count it returns is the number of like rows the message then has; every other interaction is
  as it was; and the invariant (one like per user and message, counters equal to row counts) holds.\<close>

theorem ToggleLike_correct:
  assumes "db_ok d" and "t_links d = []" and "uuid_in env messageID = Some mid" and "uuid_in env userID = Some uid"
    and "has_message d mid" and "has_user d uid"
    and "\<forall>r \<in> set (t_interactions d). ir_id r \<noteq> uuid_v4 env (t_uuids d)"
  shows "\<exists>resp d'. InteractionRepo_ToggleLike env messageID userID d = (Inr resp, d') \<and>
    lkr_Liked resp = (\<not> likes d mid uid) \<and> likes d' mid uid = lkr_Liked resp \<and>
    lkr_LikesCount resp = int (likes_of d' mid) \<and> others d' mid uid = others d mid uid \<and> db_ok d'"
proof -
  from like_tx_succeeds [OF assms] obtain resp d1 where "like_tx env messageID userID d = (Inr resp, d1)"
    "t_links d1 = []" by blast
  with assms(2) have run: "InteractionRepo_ToggleLike env messageID userID d = (Inr resp, d1)"
    by (simp add: InteractionRepo_ToggleLike_def tx_begin_def query_up tx_commit_def next_link_def)
  with ToggleLike_Inr [OF assms(1) run] ToggleLike_inv [OF assms(1), of env messageID userID] assms(3,4)
  show ?thesis by (auto simp: flipped_def)
qed

lemma demo_run:
  "t_links demo_db = []" "uuid_in demo_env ''m1'' = Some ''m1''" "uuid_in demo_env ''bobby'' = Some ''bobby''"
  "has_message demo_db ''m1''" "has_user demo_db ''bobby''" "t_interactions demo_db = []"
  by (simp_all add: demo_db_def empty_db_def demo_env_def has_message_def has_user_def demo_message_def demo_user_def)

lemma ToggleLike_correct_witness:
  "\<exists>resp d'. InteractionRepo_ToggleLike demo_env ''m1'' ''bobby'' demo_db = (Inr resp, d') \<and>
     lkr_Liked resp \<and> likes d' ''m1'' ''bobby''"
  using ToggleLike_correct [OF demo_db_ok demo_run(1-5)] by (auto simp: demo_run likes_def)

text \<open>C4: \<open>ToggleLike\<close> is atomic whatever the connection does: when it returns an error, either the
  tables are those of before the call, or the error is a lost answer to the commit and the
  like has been toggled completely, with nothing else changed.\<close>

theorem ToggleLike_atomic:
  assumes "db_ok d" and "InteractionRepo_ToggleLike env messageID userID d = (Inl e, d')"
  shows "(\<exists>ls n. d' = d\<lparr>t_links := ls, t_uuids := n\<rparr>) \<or>
    e = ErrDB ConnectionError \<and>
    (\<exists>mid uid. uuid_in env messageID = Some mid \<and> uuid_in env userID = Some uid \<and>
       likes d' mid uid = (\<not> likes d mid uid) \<and> others d' mid uid = others d mid uid)"
proof -
  from assms(2) consider "tx_begin d = (Inl e, d')"
    | x d1 d2 where "tx_begin d = (Inr x, d1)" "d' = rollback_to d1 d2"
    | x d1 resp d2 where "tx_begin d = (Inr x, d1)" "like_tx env messageID userID d1 = (Inr resp, d2)"
        "tx_commit d1 d2 = (Inl e, d')"
    by (auto simp: InteractionRepo_ToggleLike_def split: prod.splits sum.splits)
  then show ?thesis
  proof cases
    case 1
    have "d = d\<lparr>t_links := t_links d, t_uuids := t_uuids d\<rparr>" "d\<lparr>t_links := ls\<rparr> = d\<lparr>t_links := ls, t_uuids := t_uuids d\<rparr>"
      for ls by simp_all
    with 1 show ?thesis unfolding tx_begin_def using query_tables [of _ d "Inl e" d'] by metis
  next
    case 2
    then have "d' = d\<lparr>t_links := t_links d2, t_uuids := t_uuids d2\<rparr>"
      by (auto dest!: tx_begin_InrD simp: rollback_to_def)
    then show ?thesis by blast
  next
    case 3
    note d1 = tx_begin_InrD [OF 3(1)]
    from tx_commit_cases [OF 3(3)] show ?thesis
    proof
      assume "d' = d2\<lparr>t_links := tl (t_links d2)\<rparr>"
      moreover have "e = ErrDB ConnectionError"
        using 3(3) by (auto simp: tx_commit_def split: prod.splits if_splits)
      ultimately show ?thesis
        using like_tx_correct [OF _ 3(2)] assms(1) d1 by (auto simp: flipped_def)
    qed (auto simp: d1 rollback_to_def)
  qed
qed

lemma ToggleLike_atomic_witness:
  "\<exists>e d'. InteractionRepo_ToggleLike demo_env ''m1'' ''bobby'' (demo_db\<lparr>t_links := [Unreachable]\<rparr>) = (Inl e, d') \<and>
     t_messages d' = t_messages demo_db"
proof -
  let ?d = "demo_db\<lparr>t_links := [Unreachable]\<rparr>"
  have run: "InteractionRepo_ToggleLike demo_env ''m1'' ''bobby'' ?d =
      (Inl (ErrDB ConnectionError), demo_db\<lparr>t_links := []\<rparr>)"
    by (simp add: InteractionRepo_ToggleLike_def tx_begin_def query_def exec_def next_link_def)
  have "db_ok ?d" by (simp add: demo_db_ok)
  from ToggleLike_atomic [OF this run] run show ?thesis by (auto simp: likes_def)
qed

section \<open>Comments\<close>

lemma delete_interactions_none: "\<forall>r \<in> set (t_interactions d). \<not> P r \<Longrightarrow> delete_interactions P d = d"
  by (simp add: delete_interactions_def)

definition comments_of :: "db \<Rightarrow> string \<Rightarrow> nat" where
  "comments_of d mid = count_where (\<lambda>r. ir_message_id r = mid \<and> is_comment r) (t_interactions d)"

text \<open>A comment is created by \<open>AddComment\<close> under its author's name and removed by its author only.
  On a connection that answers, a successful \<open>AddComment\<close> appends one row with the given text and raises the
  comment count of the message by one; \<open>DeleteComment\<close> of that row by any other user returns
  \<open>ErrNotFound\<close> and changes nothing, and by its author it removes that row and lowers the count again.\<close>

lemma Comment_author_only:
  assumes "db_ok d" and "t_links d = []" and "uuid_in env messageID = Some mid" and "uuid_in env userID = Some uid"
    and "uuid_in env other = Some oid" and "oid \<noteq> uid"
    and "InteractionRepo_AddComment env messageID userID content d = (Inr c, d')"
    and "uuid_in env (int_ID c) = Some (int_ID c)"
  shows "int_UserID c = uid \<and> int_Content c = Some content \<and>
    comments_of d' mid = comments_of d mid + 1 \<and>
    InteractionRepo_DeleteComment env (int_ID c) other d' = (Inl ErrNotFound, d') \<and>
    (\<exists>d''. InteractionRepo_DeleteComment env (int_ID c) userID d' = (Inr (), d'') \<and>
       t_interactions d'' = t_interactions d \<and> comments_of d'' mid = comments_of d mid)"
proof -
  from assms(7) obtain r rs where ex: "exec (insert_interaction_stmt env messageID userID ''comment'' (Some content)) d =
      (Inr (r # rs), d')" and c: "c = scan_interaction [] r"
    by (auto simp: InteractionRepo_AddComment_def split: prod.splits sum.splits dest!: first_row_Inr)
  from insert_interaction_stmt_Inr [OF exec_Inr [OF ex] assms(3,4)] have
    r: "r = \<lparr>ir_id = uuid_v4 env (t_uuids d), ir_message_id = mid, ir_user_id = uid, ir_type = ''comment'',
          ir_content = Some content, ir_created_at = db_now env\<rparr>"
    and rows: "t_interactions d' = t_interactions d @ [r]" by auto
  have ok: "db_ok d'" using ex assms(1) by (rule insert_interaction_stmt.exec_keepsD)
  then have dist: "distinct (map ir_id (t_interactions d'))" by (simp add: db_ok_def wf_interactions_def)
  have up: "t_links d' = []"
    using insert_interaction_stmt.exec_links [OF assms(2), of env messageID userID "''comment''" "Some content"] ex
    by simp
  have new: "\<forall>x \<in> set (t_interactions d). ir_id x \<noteq> ir_id r" using dist rows by (force simp: image_iff)
  then have none: "filter (\<lambda>x. ir_id x = ir_id r \<and> P x) (t_interactions d) = []"
    and keep: "filter (\<lambda>x. P x \<or> ir_id x \<noteq> ir_id r) (t_interactions d) = t_interactions d" for P
    by (auto simp: filter_empty_conv filter_id_conv)
  have ids: "int_ID c = ir_id r" using c by (simp add: scan_interaction_def)
  have "comments_of d' mid = comments_of d mid + 1"
    by (simp add: comments_of_def rows r is_comment_def)
  moreover have "InteractionRepo_DeleteComment env (int_ID c) other d' = (Inl ErrNotFound, d')"
    using assms(5,6,8) up none new
    by (simp add: InteractionRepo_DeleteComment_def exec_up delete_comment_stmt_def uuid_param_def ids rows r
        count_where_def delete_interactions_none)
  moreover have "\<exists>d''. InteractionRepo_DeleteComment env (int_ID c) userID d' = (Inr (), d'') \<and>
      t_interactions d'' = t_interactions d"
  proof -
    have "filter (\<lambda>x. \<not> (ir_id x = ir_id r \<and> ir_user_id x = uid \<and> ir_type x = ''comment'')) (t_interactions d')
        = t_interactions d" using new by (simp add: rows r filter_id_conv)
    with assms(4,8) up show ?thesis
      by (simp add: InteractionRepo_DeleteComment_def exec_up delete_comment_stmt_def uuid_param_def ids Let_def)
        (simp add: rows r)
  qed
  ultimately show ?thesis by (auto simp: c r scan_interaction_def comments_of_def)
qed

lemma Comment_author_only_witness:
  "int_UserID (projr (fst (InteractionRepo_AddComment demo_env ''m1'' ''bobby'' ''nice'' demo_db))) = ''bobby'' \<and>
   InteractionRepo_DeleteComment demo_env ''uuid-0'' ''alice''
     (snd (InteractionRepo_AddComment demo_env ''m1'' ''bobby'' ''nice'' demo_db)) =
   (Inl ErrNotFound, snd (InteractionRepo_AddComment demo_env ''m1'' ''bobby'' ''nice'' demo_db))"
proof -
  let ?run = "InteractionRepo_AddComment demo_env ''m1'' ''bobby'' ''nice'' demo_db"
  let ?c = "\<lparr>int_ID = ''uuid-0'', int_MessageID = ''m1'', int_UserID = ''bobby'', int_Username = [],
     int_Type = ''comment'', int_Content = Some ''nice'', int_CreatedAt = 1000\<rparr>"
  have "fst ?run = Inr ?c" by code_simp
  then obtain d' where run: "?run = (Inr ?c, d')" by (metis prod.collapse)
  have "uuid_in demo_env ''alice'' = Some ''alice''" "uuid_in demo_env (int_ID ?c) = Some (int_ID ?c)"
    by (simp_all add: demo_env_def)
  from Comment_author_only [OF demo_db_ok demo_run(1-3) this(1) _ run this(2)] show ?thesis
    by (simp add: run)
qed

section \<open>Reactions\<close>

definition reacted :: "db \<Rightarrow> string \<Rightarrow> string \<Rightarrow> string \<Rightarrow> bool" where
  "reacted d mid uid emoji \<longleftrightarrow> (\<exists>r \<in> set (t_reactions d). reaction_key r = (mid, uid, emoji))"

lemma reaction_rows:
  assumes "db_ok d"
  shows "(\<not> reacted d mid uid emoji \<and> filter (\<lambda>r. reaction_key r = (mid, uid, emoji)) (t_reactions d) = []) \<or>
    (\<exists>r \<in> set (t_reactions d). reaction_key r = (mid, uid, emoji) \<and>
       filter (\<lambda>r. reaction_key r = (mid, uid, emoji)) (t_reactions d) = [r] \<and>
       filter (\<lambda>x. rr_id x \<noteq> rr_id r) (t_reactions d) =
         filter (\<lambda>x. reaction_key x \<noteq> (mid, uid, emoji)) (t_reactions d))"
proof (cases "reacted d mid uid emoji")
  case True
  then obtain r where r: "r \<in> set (t_reactions d)" "reaction_key r = (mid, uid, emoji)"
    by (auto simp: reacted_def)
  have dist: "distinct (map rr_id (t_reactions d))" "distinct (map reaction_key (t_reactions d))"
    using assms by (simp_all add: db_ok_def wf_reactions_def)
  have "rr_id x \<noteq> rr_id r \<longleftrightarrow> reaction_key x \<noteq> (mid, uid, emoji)" if "x \<in> set (t_reactions d)" for x
    using distinct_map_unique [OF dist(1) that r(1)] distinct_map_unique [OF dist(2) that r(1)] r(2) by metis
  then have "filter (\<lambda>x. rr_id x \<noteq> rr_id r) (t_reactions d) =
      filter (\<lambda>x. reaction_key x \<noteq> (mid, uid, emoji)) (t_reactions d)"
    by (rule filter_cong [OF refl])
  with r filter_unique_key [OF dist(2) r(1)] show ?thesis by auto
qed (auto simp: reacted_def filter_empty_conv)

text \<open>C32: \<open>ToggleReaction\<close> on a connection that answers, for an existing message and user and an
  emoji of the allowed list: the answer says whether the reaction is there now, which is the opposite of before, and the
  reactions with another message, user or emoji are as they were.\<close>

theorem ToggleReaction_correct:
  assumes "db_ok d" and "t_links d = []" and "uuid_in env messageID = Some mid" and "uuid_in env userID = Some uid"
    and "has_message d mid" and "has_user d uid" and "emoji \<in> set allowed_emoji"
    and "\<forall>r \<in> set (t_reactions d). rr_id r \<noteq> uuid_v4 env (t_uuids d)"
  shows "\<exists>b d'. InteractionRepo_ToggleReaction env messageID userID emoji d = (Inr b, d') \<and>
    b = (\<not> reacted d mid uid emoji) \<and> reacted d' mid uid emoji = b \<and>
    filter (\<lambda>r. reaction_key r \<noteq> (mid, uid, emoji)) (t_reactions d') =
      filter (\<lambda>r. reaction_key r \<noteq> (mid, uid, emoji)) (t_reactions d) \<and> db_ok d'"
proof -
  note inv = ToggleReaction_inv [OF assms(1), of env messageID userID emoji]
  have ok: "pg_text_ok emoji" "char_length emoji \<le> 10"
    using assms(7) by (auto simp: allowed_emoji_def pg_text_ok_def char_length_def)
  from reaction_rows [OF assms(1), of mid uid emoji] show ?thesis
  proof
    assume no: "\<not> reacted d mid uid emoji \<and> filter (\<lambda>r. reaction_key r = (mid, uid, emoji)) (t_reactions d) = []"
    then have "\<forall>x \<in> set (t_reactions d). \<not> (rr_message_id x = mid \<and> rr_user_id x = uid \<and> rr_emoji x = emoji)"
      by (auto simp: reacted_def reaction_key_def)
    with no assms(2-6,8) ok obtain r d' where
      run: "InteractionRepo_ToggleReaction env messageID userID emoji d = (Inr True, d')"
      and r: "t_reactions d' = t_reactions d @ [r]" "reaction_key r = (mid, uid, emoji)"
      by (simp add: InteractionRepo_ToggleReaction_def query_up find_reaction_def uuid_param_def first_row_def
          exec_up insert_reaction_stmt_def gen_uuid_def insert_reaction_def has_message_def has_user_def
          reaction_key_def)
    from no r inv show ?thesis unfolding run by (auto simp: reacted_def)
  next
    assume "\<exists>r \<in> set (t_reactions d). reaction_key r = (mid, uid, emoji) \<and>
       filter (\<lambda>r. reaction_key r = (mid, uid, emoji)) (t_reactions d) = [r] \<and>
       filter (\<lambda>x. rr_id x \<noteq> rr_id r) (t_reactions d) =
         filter (\<lambda>x. reaction_key x \<noteq> (mid, uid, emoji)) (t_reactions d)"
    then obtain r where "r \<in> set (t_reactions d)" "reaction_key r = (mid, uid, emoji)"
      and one: "filter (\<lambda>r. reaction_key r = (mid, uid, emoji)) (t_reactions d) = [r]"
      and rest: "filter (\<lambda>x. rr_id x \<noteq> rr_id r) (t_reactions d) =
         filter (\<lambda>x. reaction_key x \<noteq> (mid, uid, emoji)) (t_reactions d)" by blast
    moreover from this have "reacted d mid uid emoji" by (auto simp: reacted_def)
    ultimately show ?thesis
      using inv assms(2-4) ok
      by (auto simp: InteractionRepo_ToggleReaction_def query_up find_reaction_def uuid_param_def first_row_def
          exec_up delete_reaction_stmt_def reacted_def)
  qed
qed

lemma ToggleReaction_correct_witness:
  "\<exists>d'. InteractionRepo_ToggleReaction demo_env ''m1'' ''bobby'' (hd allowed_emoji) demo_db = (Inr True, d') \<and>
     reacted d' ''m1'' ''bobby'' (hd allowed_emoji)"
proof -
  have "hd allowed_emoji \<in> set allowed_emoji" "t_reactions demo_db = []"
    by (simp_all add: allowed_emoji_def demo_db_def empty_db_def)
  with ToggleReaction_correct [OF demo_db_ok demo_run(1-5) this(1)] show ?thesis
    by (auto simp: reacted_def)
qed

lemma summarize_correct:
  "sorted_wrt (\<lambda>a b. rsm_Count b \<le> rsm_Count a) (summarize uid rs) \<and>
   distinct (map rsm_Emoji (summarize uid rs)) \<and>
   set (summarize uid rs) = (\<lambda>e. \<lparr>rsm_Emoji = e, rsm_Count = int (count_where (\<lambda>r. rr_emoji r = e) rs),
      rsm_Reacted = (\<exists>r \<in> set rs. rr_emoji r = e \<and> rr_user_id r = uid)\<rparr>) ` (rr_emoji ` set rs)"
proof -
  let ?row = "\<lambda>e. \<lparr>rsm_Emoji = e, rsm_Count = int (count_where (\<lambda>r. rr_emoji r = e) rs),
      rsm_Reacted = (\<exists>r \<in> set rs. rr_emoji r = e \<and> rr_user_id r = uid)\<rparr>"
  have eq: "summarize uid rs = sort_key (\<lambda>s. - rsm_Count s) (map ?row (remdups (map rr_emoji rs)))"
    by (simp add: summarize_def group_by_def comp_def count_where_def Bex_def conj_ac)
  have "sorted (map (\<lambda>s. - rsm_Count s) (summarize uid rs))" unfolding eq by simp
  then have "sorted_wrt (\<lambda>a b. rsm_Count b \<le> rsm_Count a) (summarize uid rs)"
    by (simp add: sorted_wrt_map)
  moreover have "mset (map rsm_Emoji (summarize uid rs)) = mset (remdups (map rr_emoji rs))"
    by (simp add: eq image_mset.compositionality comp_def)
  then have "distinct (map rsm_Emoji (summarize uid rs))"
    by (metis distinct_remdups mset_eq_imp_distinct_iff)
  ultimately show ?thesis by (simp add: eq)
qed

text \<open>\<open>GetReactionsByMessage\<close> on a connection that answers: one summary per emoji used on the message, the
  most frequent first, each with the number of reactions with that emoji and whether the caller is among them.\<close>

lemma GetReactions_correct:
  assumes "t_links d = []" and "InteractionRepo_GetReactionsByMessage env messageID userID d = (Inr ss, d')"
    and "uuid_in env messageID = Some mid" and "uuid_in env userID = Some uid"
  shows "sorted_wrt (\<lambda>a b. rsm_Count b \<le> rsm_Count a) ss \<and> distinct (map rsm_Emoji ss) \<and>
    rsm_Emoji ` set ss = {rr_emoji r | r. r \<in> set (t_reactions d) \<and> rr_message_id r = mid} \<and>
    (\<forall>s \<in> set ss. rsm_Count s = int (count_where (\<lambda>r. rr_message_id r = mid \<and> rr_emoji r = rsm_Emoji s) (t_reactions d)) \<and>
       rsm_Reacted s = reacted d mid uid (rsm_Emoji s))"
proof -
  let ?rs = "filter (\<lambda>r. rr_message_id r = mid) (t_reactions d)"
  from assms have ss: "ss = summarize uid ?rs"
    by (auto simp: InteractionRepo_GetReactionsByMessage_def query_rows_up reactions_query_def uuid_param_def)
  have "rsm_Emoji ` set ss = rr_emoji ` set ?rs"
    using summarize_correct [of uid ?rs] by (simp add: ss image_image)
  then have "rsm_Emoji ` set ss = {rr_emoji r | r. r \<in> set (t_reactions d) \<and> rr_message_id r = mid}" by auto
  moreover have "\<forall>s \<in> set ss. rsm_Count s = int (count_where (\<lambda>r. rr_message_id r = mid \<and> rr_emoji r = rsm_Emoji s) (t_reactions d)) \<and>
       rsm_Reacted s = reacted d mid uid (rsm_Emoji s)"
    using summarize_correct [of uid ?rs] by (auto simp: ss count_where_filter reacted_def reaction_key_def)
  ultimately show ?thesis using summarize_correct [of uid ?rs] by (simp add: ss)
qed

lemma GetReactions_correct_witness:
  "\<exists>ss d'. InteractionRepo_GetReactionsByMessage demo_env ''m1'' ''bobby''
     (demo_db\<lparr>t_reactions := [\<lparr>rr_id = ''r1'', rr_message_id = ''m1'', rr_user_id = ''alice'', rr_emoji = ''x'', rr_created_at = 0\<rparr>]\<rparr>)
     = (Inr ss, d') \<and> rsm_Emoji ` set ss = {''x''}"
proof -
  let ?d = "demo_db\<lparr>t_reactions := [\<lparr>rr_id = ''r1'', rr_message_id = ''m1'', rr_user_id = ''alice'', rr_emoji = ''x'', rr_created_at = 0\<rparr>]\<rparr>"
  obtain ss d' where run: "InteractionRepo_GetReactionsByMessage demo_env ''m1'' ''bobby'' ?d = (Inr ss, d')"
    by (simp add: InteractionRepo_GetReactionsByMessage_def query_rows_up demo_run reactions_query_def uuid_param_def)
  have "t_links ?d = []" by (simp add: demo_run)
  from GetReactions_correct [OF this run demo_run(2,3)] run show ?thesis by auto
qed

end
