(* ===== verification/Like_Race.thy ===== *)
theory Like_Race
  imports Interaction_Repo
begin

text \<open>
  \<open>InteractionRepo.ToggleLike\<close> of \<open>backend/internal/repository/interaction_repo.go\<close> when many requests run it at the same time. The
  other theories run a transaction in one step; here every statement is a step of its own, and the transactions of all sessions
  interleave as PostgreSQL lets them at its default isolation level: a statement sees what is committed and the
  changes of its own transaction; inserting or deleting a like runs the count trigger, which locks the row of the message until
  the end of the transaction, so a second writer of the same message waits; and generated identifiers are new.
  Identifiers are as the database knows them: \<open>req s\<close> is the message and the user of session \<open>s\<close>.
\<close>

section \<open>Sessions\<close>

datatype change = Unchanged | Inserted interaction_row | Deleted interaction_row

text \<open>The effect of the transaction on top of what is committed.\<close>

primrec apply_change :: "change \<Rightarrow> db \<Rightarrow> db" where
  "apply_change Unchanged d = d"
| "apply_change (Inserted r) d = update_interaction_counts 1 r (d\<lparr>t_interactions := t_interactions d @ [r]\<rparr>)"
| "apply_change (Deleted r) d = delete_interactions (\<lambda>x. ir_id x = ir_id r) d"

text \<open>After \<open>Begin\<close>, after the look-up with its result, after the change, after the count, with the response, with an error.\<close>

datatype phase = Begun | Looked "string option" | Flipped bool change | Counted bool change int | Replied bool int | Failed

fun pending :: "phase \<Rightarrow> change" where
  "pending (Flipped l c) = c"
| "pending (Counted l c n) = c"
| "pending _ = Unchanged"

record race =
  ra_db :: db
  ra_phase :: "nat \<Rightarrow> phase"

definition enter :: "nat \<Rightarrow> phase \<Rightarrow> race \<Rightarrow> race" where
  "enter s p w = w\<lparr>ra_phase := (ra_phase w)(s := p)\<rparr>"

text \<open>A session that has changed a like holds the lock on its message.\<close>

definition locked :: "(nat \<Rightarrow> string \<times> string) \<Rightarrow> race \<Rightarrow> nat \<Rightarrow> string \<Rightarrow> bool" where
  "locked req w s m \<longleftrightarrow> fst (req s) = m \<and> pending (ra_phase w s) \<noteq> Unchanged"

text \<open>The identifiers that are in use outside of the committed rows.\<close>

definition known :: "race \<Rightarrow> string set" where
  "known w = {i. \<exists>s. ra_phase w s = Looked (Some i)} \<union> {ir_id r | r. \<exists>s. pending (ra_phase w s) = Inserted r}"

text \<open>What a locked message has: its row and its interactions.\<close>

definition same_message :: "string \<Rightarrow> db \<Rightarrow> db \<Rightarrow> bool" where
  "same_message m d d' \<longleftrightarrow>
     filter (\<lambda>x. mr_id x = m) (t_messages d') = filter (\<lambda>x. mr_id x = m) (t_messages d) \<and>
     filter (\<lambda>r. ir_message_id r = m) (t_interactions d') = filter (\<lambda>r. ir_message_id r = m) (t_interactions d)"

text \<open>
  The steps: \<open>SELECT\<close>; \<open>INSERT\<close>, or its rejection; \<open>DELETE\<close> of the row found, or of none if it is gone; \<open>SELECT likes_count\<close>, or no
  row; \<open>Commit\<close>, with or without its answer; a failure before it, which rolls back; and what statements of other requests may
  do: anything that keeps the database well formed, removes no user, reuses no identifier and leaves locked messages alone.
\<close>

inductive like_step :: "(nat \<Rightarrow> string \<times> string) \<Rightarrow> race \<Rightarrow> race \<Rightarrow> bool" for req where
  look: "ra_phase w s = Begun \<Longrightarrow> req s = (m, u) \<Longrightarrow>
    like_step req w (enter s (Looked (map_option ir_id (find (is_like_of m u) (t_interactions (ra_db w))))) w)"
| insert: "ra_phase w s = Looked None \<Longrightarrow> req s = (m, u) \<Longrightarrow> (\<And>t. \<not> locked req w t m) \<Longrightarrow> is_like_of m u r \<Longrightarrow>
    ir_content r = None \<Longrightarrow> ir_id r \<notin> known w \<Longrightarrow> insert_interaction r (ra_db w) = Inr d' \<Longrightarrow>
    like_step req w (enter s (Flipped True (Inserted r)) w)"
| reject: "ra_phase w s = Looked None \<Longrightarrow> req s = (m, u) \<Longrightarrow> (\<And>t. \<not> locked req w t m) \<Longrightarrow> is_like_of m u r \<Longrightarrow>
    ir_content r = None \<Longrightarrow> ir_id r \<notin> known w \<Longrightarrow> insert_interaction r (ra_db w) = Inl e \<Longrightarrow> like_step req w (enter s Failed w)"
| delete: "ra_phase w s = Looked (Some i) \<Longrightarrow> req s = (m, u) \<Longrightarrow> (\<And>t. \<not> locked req w t m) \<Longrightarrow>
    r \<in> set (t_interactions (ra_db w)) \<Longrightarrow> ir_id r = i \<Longrightarrow> like_step req w (enter s (Flipped False (Deleted r)) w)"
| miss: "ra_phase w s = Looked (Some i) \<Longrightarrow> i \<notin> ir_id ` set (t_interactions (ra_db w)) \<Longrightarrow>
    like_step req w (enter s (Flipped False Unchanged) w)"
| count: "ra_phase w s = Flipped l c \<Longrightarrow> filter (\<lambda>x. mr_id x = fst (req s)) (t_messages (apply_change c (ra_db w))) = x # xs \<Longrightarrow>
    like_step req w (enter s (Counted l c (mr_likes_count x)) w)"
| no_message: "ra_phase w s = Flipped l c \<Longrightarrow>
    filter (\<lambda>x. mr_id x = fst (req s)) (t_messages (apply_change c (ra_db w))) = [] \<Longrightarrow> like_step req w (enter s Failed w)"
| commit: "ra_phase w s = Counted l c n \<Longrightarrow>
    like_step req w (enter s (Replied l n) (w\<lparr>ra_db := apply_change c (ra_db w)\<rparr>))"
| commit_lost: "ra_phase w s = Counted l c n \<Longrightarrow>
    like_step req w (enter s Failed (w\<lparr>ra_db := apply_change c (ra_db w)\<rparr>))"
| abort: "\<forall>l n. ra_phase w s \<noteq> Replied l n \<Longrightarrow> like_step req w (enter s Failed w)"
| other: "db_ok d' \<Longrightarrow> (\<And>u. has_user (ra_db w) u \<Longrightarrow> has_user d' u) \<Longrightarrow>
    (\<And>r. r \<in> set (t_interactions d') \<Longrightarrow> ir_id r \<in> known w \<Longrightarrow> r \<in> set (t_interactions (ra_db w))) \<Longrightarrow>
    (\<And>s m. locked req w s m \<Longrightarrow> same_message m (ra_db w) d') \<Longrightarrow> like_step req w (w\<lparr>ra_db := d'\<rparr>)"

definition like_begins :: "race \<Rightarrow> bool" where
  "like_begins w \<longleftrightarrow> db_ok (ra_db w) \<and> ra_phase w = (\<lambda>_. Begun)"

abbreviation like_reachable :: "(nat \<Rightarrow> string \<times> string) \<Rightarrow> race \<Rightarrow> bool" where
  "like_reachable req \<equiv> reachable like_begins (like_step req)"

lemma like_reachable_start: "db_ok d \<Longrightarrow> like_reachable req \<lparr>ra_db = d, ra_phase = (\<lambda>_. Begun)\<rparr>"
  by (rule reachable.start) (simp add: like_begins_def)

lemmas like_reachable_step = reachable.step [where step = "like_step req" for req]

inductive_cases like_stepE: "like_step req w w'"

section \<open>The invariant\<close>

text \<open>A change that is still right on top of what is committed by now.\<close>

fun change_ok :: "string \<Rightarrow> string \<Rightarrow> db \<Rightarrow> bool \<Rightarrow> change \<Rightarrow> bool" where
  "change_ok m u d l Unchanged = (\<not> l)"
| "change_ok m u d l (Inserted r) = (l \<and> is_like_of m u r \<and> insert_interaction r d = Inr (apply_change (Inserted r) d))"
| "change_ok m u d l (Deleted r) = (\<not> l \<and> is_like_of m u r \<and> r \<in> set (t_interactions d))"

fun phase_ok :: "string \<Rightarrow> string \<Rightarrow> db \<Rightarrow> phase \<Rightarrow> bool" where
  "phase_ok m u d (Looked (Some i)) = (\<forall>r \<in> set (t_interactions d). ir_id r = i \<longrightarrow> is_like_of m u r)"
| "phase_ok m u d (Flipped l c) = change_ok m u d l c"
| "phase_ok m u d (Counted l c n) = (change_ok m u d l c \<and> (c \<noteq> Unchanged \<longrightarrow> n = int (likes_of (apply_change c d) m)))"
| "phase_ok m u d _ = True"

definition race_ok :: "(nat \<Rightarrow> string \<times> string) \<Rightarrow> race \<Rightarrow> bool" where
  "race_ok req w \<longleftrightarrow> db_ok (ra_db w) \<and>
     (\<forall>s. phase_ok (fst (req s)) (snd (req s)) (ra_db w) (ra_phase w s)) \<and>
     (\<forall>s t m. locked req w s m \<and> locked req w t m \<longrightarrow> s = t) \<and>
     (\<forall>s t r r'. pending (ra_phase w s) = Inserted r \<and> pending (ra_phase w t) = Inserted r' \<and> ir_id r = ir_id r' \<longrightarrow> s = t) \<and>
     (\<forall>s t r. pending (ra_phase w s) = Inserted r \<longrightarrow> ra_phase w t \<noteq> Looked (Some (ir_id r)))"

lemma insert_like_iff:
  assumes "is_like_of m u r"
  shows "insert_interaction r d = Inr (apply_change (Inserted r) d) \<longleftrightarrow>
    (case ir_content r of None \<Rightarrow> True | Some c \<Rightarrow> pg_text_ok c) \<and> (\<forall>x \<in> set (t_interactions d). ir_id x \<noteq> ir_id r) \<and>
    \<not> likes d m u \<and> has_message d m \<and> has_user d u"
  using assms by (auto simp: insert_interaction_def likes_def is_like_of_def comment_has_content_def image_iff)

lemma insert_interaction_InrD: "insert_interaction r d = Inr d' \<Longrightarrow> d' = apply_change (Inserted r) d"
  by (auto simp: insert_interaction_def split: if_splits)

text \<open>What the same message means for likes.\<close>

lemma likes_alt: "likes d m u \<longleftrightarrow> (\<exists>r \<in> set (filter (\<lambda>r. ir_message_id r = m) (t_interactions d)). is_like_of m u r)"
  by (auto simp: likes_def is_like_of_def)

lemma likes_of_alt: "likes_of d m = count_where is_like (filter (\<lambda>r. ir_message_id r = m) (t_interactions d))"
  unfolding likes_of_def count_where_filter by (simp add: conj_commute)

lemma has_message_alt: "has_message d m \<longleftrightarrow> filter (\<lambda>x. mr_id x = m) (t_messages d) \<noteq> []"
  by (auto simp: has_message_def filter_empty_conv)

lemma same_message_likes:
  assumes "same_message m d d'"
  shows "likes d' m u = likes d m u" "likes_of d' m = likes_of d m" "has_message d' m = has_message d m"
    "r \<in> set (t_interactions d) \<Longrightarrow> ir_message_id r = m \<Longrightarrow> r \<in> set (t_interactions d')"
proof -
  note same = assms [unfolded same_message_def]
  show "likes d' m u = likes d m u" "likes_of d' m = likes_of d m" "has_message d' m = has_message d m"
    unfolding likes_alt likes_of_alt has_message_alt using same by simp_all
  assume "r \<in> set (t_interactions d)" "ir_message_id r = m"
  then have "r \<in> set (filter (\<lambda>r. ir_message_id r = m) (t_interactions d))" by simp
  with same have "r \<in> set (filter (\<lambda>r. ir_message_id r = m) (t_interactions d'))" by simp
  then show "r \<in> set (t_interactions d')" by simp
qed

lemma apply_change_rows:
  "t_interactions (apply_change (Inserted r) d) = t_interactions d @ [r]"
  "t_interactions (apply_change (Deleted r) d) = filter (\<lambda>x. ir_id x \<noteq> ir_id r) (t_interactions d)"
  by (simp_all add: update_interaction_counts_eq)

lemma apply_change_likes_of:
  assumes "same_message m d d'"
  shows "likes_of (apply_change c d') m = likes_of (apply_change c d) m"
proof -
  note same = assms [unfolded same_message_def]
  have swap: "filter P (filter Q xs) = filter Q (filter P xs)" for P Q and xs :: "interaction_row list"
    by (simp add: conj_commute)
  show ?thesis
    unfolding likes_of_alt using same
    by (cases c) (simp_all add: update_interaction_counts_eq swap [of "\<lambda>r. ir_message_id r = m"] del: filter_filter)
qed

lemma phase_ok_frame:
  assumes "phase_ok m u d p" and "\<And>v. has_user d v \<Longrightarrow> has_user d' v"
    and "pending p \<noteq> Unchanged \<Longrightarrow> same_message m d d'"
    and "\<And>r x. pending p = Inserted r \<Longrightarrow> x \<in> set (t_interactions d') \<Longrightarrow> ir_id x = ir_id r \<Longrightarrow> x \<in> set (t_interactions d)"
    and "\<And>r. p = Looked (Some (ir_id r)) \<Longrightarrow> r \<in> set (t_interactions d') \<Longrightarrow> r \<in> set (t_interactions d)"
  shows "phase_ok m u d' p"
proof -
  have change: "change_ok m u d' l c" if c: "change_ok m u d l c" and p: "pending p = c" for l c
  proof (cases c)
    case (Inserted r)
    with c have like: "is_like_of m u r" by simp
    have "same_message m d d'" using assms(3) p Inserted by simp
    note same = same_message_likes [OF this]
    from c Inserted assms(2) have "insert_interaction r d' = Inr (apply_change (Inserted r) d')"
      unfolding insert_like_iff [OF like] same
      using assms(4) [OF p [unfolded Inserted]] by (auto simp: insert_like_iff [OF like] image_iff simp del: apply_change.simps)
    with c Inserted show ?thesis by simp
  next
    case (Deleted r)
    with c p show ?thesis using same_message_likes(4) [OF assms(3), of r] by (auto simp: is_like_of_def)
  qed (use c in simp)
  show ?thesis
  proof (cases p)
    case (Looked x)
    with assms(1,5) show ?thesis by (cases x) auto
  next
    case (Counted l c n)
    with assms(1,3) change [of l c] show ?thesis by (auto simp: apply_change_likes_of)
  qed (use assms(1) change in auto)
qed

text \<open>A session moves on, the committed rows stay.\<close>

lemma race_ok_enter:
  assumes "race_ok req w" and "phase_ok (fst (req s)) (snd (req s)) (ra_db w) p"
    and "pending p \<noteq> Unchanged \<Longrightarrow> pending p = pending (ra_phase w s) \<or> (\<forall>t. \<not> locked req w t (fst (req s)))"
    and "\<And>r. pending p = Inserted r \<Longrightarrow> pending p = pending (ra_phase w s) \<or> ir_id r \<notin> known w"
    and "\<And>i. p = Looked (Some i) \<Longrightarrow> i \<in> ir_id ` set (t_interactions (ra_db w))"
  shows "race_ok req (enter s p w)"
proof -
  have taken: "ir_id r \<notin> ir_id ` set (t_interactions (ra_db w))" if "pending (ra_phase w t) = Inserted r" for t r
  proof -
    have "phase_ok (fst (req t)) (snd (req t)) (ra_db w) (ra_phase w t)" using assms(1) by (simp add: race_ok_def)
    with that show ?thesis
      by (cases "ra_phase w t") (auto simp: insert_like_iff simp del: apply_change.simps)
  qed
  have ids: "ra_phase w t \<noteq> Looked (Some (ir_id r)) \<and> (pending (ra_phase w t) = Inserted r' \<and> ir_id r = ir_id r' \<longrightarrow> t = s)"
    if "pending p = Inserted r" for r r' t
    using assms(4) [OF that]
  proof
    assume "pending p = pending (ra_phase w s)"
    with that have "pending (ra_phase w s) = Inserted r" by simp
    with assms(1) show ?thesis unfolding race_ok_def by blast
  next
    assume "ir_id r \<notin> known w"
    then show ?thesis by (auto simp: known_def)
  qed
  show ?thesis
    unfolding race_ok_def
  proof (intro conjI allI impI)
    show "db_ok (ra_db (enter s p w))" using assms(1) by (simp add: race_ok_def enter_def)
    show "phase_ok (fst (req t)) (snd (req t)) (ra_db (enter s p w)) (ra_phase (enter s p w) t)" for t
      using assms(1,2) by (simp add: race_ok_def enter_def)
    show "t = t'" if "locked req (enter s p w) t m \<and> locked req (enter s p w) t' m" for t t' m
      using that assms(1,3) unfolding race_ok_def locked_def enter_def by (auto split: if_splits)
    show "t = t'" if "pending (ra_phase (enter s p w) t) = Inserted r \<and> pending (ra_phase (enter s p w) t') = Inserted r' \<and> ir_id r = ir_id r'" for t t' r r'
      using that assms(1) ids unfolding race_ok_def enter_def by (auto split: if_splits) metis+
    show "ra_phase (enter s p w) t' \<noteq> Looked (Some (ir_id r))" if "pending (ra_phase (enter s p w) t) = Inserted r" for t t' r
      using that assms(1,5) ids taken unfolding race_ok_def enter_def by (auto split: if_splits)
  qed
qed

text \<open>The committed rows change, the sessions stay.\<close>

lemma race_ok_db:
  assumes "race_ok req w" and "db_ok d'" and "\<And>u. has_user (ra_db w) u \<Longrightarrow> has_user d' u"
    and "\<And>r. r \<in> set (t_interactions d') \<Longrightarrow> ir_id r \<in> known w \<Longrightarrow> r \<in> set (t_interactions (ra_db w))"
    and "\<And>s m. locked req w s m \<Longrightarrow> same_message m (ra_db w) d'"
  shows "race_ok req (w\<lparr>ra_db := d'\<rparr>)"
proof -
  have "phase_ok (fst (req s)) (snd (req s)) d' (ra_phase w s)" for s
  proof (rule phase_ok_frame [OF _ assms(3)])
    show "phase_ok (fst (req s)) (snd (req s)) (ra_db w) (ra_phase w s)" using assms(1) by (simp add: race_ok_def)
    show "same_message (fst (req s)) (ra_db w) d'" if "pending (ra_phase w s) \<noteq> Unchanged"
      by (rule assms(5) [of s]) (simp add: locked_def that)
  qed (use assms(4) in \<open>auto simp: known_def\<close>)
  with assms(1,2) show ?thesis by (auto simp: race_ok_def locked_def)
qed

lemma shift_counts_elsewhere: "(\<And>r. r \<in> set rs \<Longrightarrow> ir_message_id r \<noteq> mr_id x) \<Longrightarrow> shift_counts k rs x = x"
  by (simp add: shift_counts_def count_rows_def count_where_zero)

lemma filter_shift_counts:
  "(\<And>r. r \<in> set rs \<Longrightarrow> ir_message_id r \<noteq> m) \<Longrightarrow>
   filter (\<lambda>x. mr_id x = m) (map (shift_counts k rs) ms) = filter (\<lambda>x. mr_id x = m) ms"
  by (induction ms) (auto simp: shift_counts_elsewhere)

text \<open>Committing the change of one message.\<close>

lemma apply_change_commit:
  assumes "db_ok d" and "change_ok m u d l c"
  shows "db_ok (apply_change c d)" "has_user (apply_change c d) v = has_user d v"
    "c \<noteq> Unchanged \<Longrightarrow> m' \<noteq> m \<Longrightarrow> same_message m' d (apply_change c d)"
    "c \<noteq> Unchanged \<Longrightarrow> likes (apply_change c d) m u = l"
proof -
  have "db_ok (apply_change c d) \<and> has_user (apply_change c d) v = has_user d v \<and>
      (c \<noteq> Unchanged \<longrightarrow> (m' \<noteq> m \<longrightarrow> same_message m' d (apply_change c d)) \<and> likes (apply_change c d) m u = l)"
  proof (cases c)
    case (Inserted r)
    with assms have like: "l" "is_like_of m u r" "insert_interaction r d = Inr (apply_change c d)"
      by (simp_all del: apply_change.simps)
    have "m' \<noteq> m \<Longrightarrow> same_message m' d (apply_change c d)"
      using like(2) filter_shift_counts [of "[r]" m' 1 "t_messages d"]
      by (auto simp: Inserted same_message_def update_interaction_counts_eq is_like_of_def)
    moreover have "db_ok (apply_change c d)" using like(3) assms(1) by (rule insert_interaction_ok)
    moreover have "has_user (apply_change c d) v = has_user d v" by (simp add: Inserted has_user_def update_interaction_counts_eq)
    moreover have "likes (apply_change c d) m u" using like(2) by (auto simp: Inserted likes_def update_interaction_counts_eq)
    ultimately show ?thesis using like(1) by blast
  next
    case (Deleted r)
    with assms have like: "\<not> l" "is_like_of m u r" "r \<in> set (t_interactions d)" by simp_all
    have gone: "ir_message_id x = m" if "x \<in> set (t_interactions d)" "ir_id x = ir_id r" for x
      using like_row_unique [OF assms(1) like(3,2) that(1)] that(2) by (simp add: is_like_of_def)
    have "same_message m' d (apply_change c d)" if "m' \<noteq> m"
    proof -
      have "filter (\<lambda>x. mr_id x = m') (map (shift_counts (- 1) (filter (\<lambda>x. ir_id x = ir_id r) (t_interactions d))) (t_messages d)) =
          filter (\<lambda>x. mr_id x = m') (t_messages d)"
        by (rule filter_shift_counts) (use gone that in auto)
      moreover have "filter (\<lambda>x. ir_id x \<noteq> ir_id r \<and> ir_message_id x = m') (t_interactions d) =
          filter (\<lambda>x. ir_message_id x = m') (t_interactions d)"
        by (rule filter_cong) (use gone that in auto)
      ultimately show ?thesis by (simp add: Deleted same_message_def delete_interactions_def fold_update_interaction_counts conj_commute)
    qed
    moreover have "\<not> likes (apply_change c d) m u"
      using like_row_unique [OF assms(1) like(3,2)] by (auto simp: Deleted likes_def)
    moreover have "has_user (apply_change c d) v = has_user d v"
      by (simp add: Deleted has_user_def delete_interactions_def fold_update_interaction_counts)
    moreover have "db_ok (apply_change c d)" using assms(1) by (simp add: Deleted delete_interactions_ok)
    ultimately show ?thesis using like(1) by blast
  qed (use assms in simp)
  then show "db_ok (apply_change c d)" "has_user (apply_change c d) v = has_user d v"
    "c \<noteq> Unchanged \<Longrightarrow> m' \<noteq> m \<Longrightarrow> same_message m' d (apply_change c d)"
    "c \<noteq> Unchanged \<Longrightarrow> likes (apply_change c d) m u = l" by blast+
qed

lemma race_ok_commit:
  assumes "race_ok req w" and "ra_phase w s = Counted l c n" and "p = Replied l n \<or> p = Failed"
  shows "race_ok req (enter s p (w\<lparr>ra_db := apply_change c (ra_db w)\<rparr>))"
proof -
  let ?m = "fst (req s)" and ?u = "snd (req s)" and ?d = "ra_db w" and ?w = "enter s p w"
  have ok: "db_ok ?d" "change_ok ?m ?u ?d l c"
    using assms(1,2) unfolding race_ok_def by (simp, metis phase_ok.simps(3))
  note com = apply_change_commit [OF ok]
  have w: "race_ok req ?w" by (rule race_ok_enter [OF assms(1)]) (use assms(3) in auto)
  have others: "ir_id r \<notin> known ?w" if "c = Inserted r" for r
  proof
    have own: "pending (ra_phase w s) = Inserted r" using assms(2) that by simp
    assume "ir_id r \<in> known ?w"
    then obtain t where "ra_phase ?w t = Looked (Some (ir_id r)) \<or> (\<exists>r'. pending (ra_phase ?w t) = Inserted r' \<and> ir_id r' = ir_id r)"
      by (auto simp: known_def; metis)
    moreover from this have "t \<noteq> s" using assms(3) by (auto simp: enter_def)
    ultimately show False using assms(1) own unfolding race_ok_def enter_def by auto
  qed
  have "race_ok req (?w\<lparr>ra_db := apply_change c ?d\<rparr>)"
  proof (rule race_ok_db [OF w com(1)])
    show "has_user (apply_change c ?d) v" if "has_user (ra_db ?w) v" for v using that com(2) by (simp add: enter_def)
    show "r \<in> set (t_interactions (ra_db ?w))" if "r \<in> set (t_interactions (apply_change c ?d))" "ir_id r \<in> known ?w" for r
      using that others by (cases c) (auto simp: enter_def apply_change_rows simp del: apply_change.simps(2,3))
    show "same_message m (ra_db ?w) (apply_change c ?d)" if "locked req ?w t m" for t m
    proof (cases "c = Unchanged")
      case False
      with that assms have "m \<noteq> ?m" unfolding race_ok_def locked_def enter_def by (auto split: if_splits)
      with com(3) False show ?thesis by (simp add: enter_def)
    qed (simp add: enter_def same_message_def)
  qed
  also have "?w\<lparr>ra_db := apply_change c ?d\<rparr> = enter s p (w\<lparr>ra_db := apply_change c ?d\<rparr>)" by (cases w) (simp add: enter_def)
  finally show ?thesis .
qed

lemma likes_count_row: "db_ok d \<Longrightarrow> x \<in> set (t_messages d) \<Longrightarrow> mr_likes_count x = int (likes_of d (mr_id x))"
  by (auto simp: db_ok_def wf_counts_def counts_ok_def likes_of_def)

lemma like_step_ok: "like_step req w w' \<Longrightarrow> race_ok req w \<Longrightarrow> race_ok req w'"
proof (induction rule: like_step.induct)
  case (look w s m u)
  have "is_like_of m u x" if "find (is_like_of m u) (t_interactions (ra_db w)) = Some r" "x \<in> set (t_interactions (ra_db w))"
    "ir_id x = ir_id r" for r x
    using that look find_Some_in [OF that(1)] like_row_unique [of "ra_db w" r m u x] by (auto simp: race_ok_def)
  with look show ?case
    by (intro race_ok_enter; cases "find (is_like_of m u) (t_interactions (ra_db w))") (auto dest: find_Some_in)
next
  case (insert w s m u r d')
  then show ?case
    by (intro race_ok_enter) (auto dest: insert_interaction_InrD simp del: apply_change.simps)
next
  case (delete w s i m u r)
  then have "phase_ok m u (ra_db w) (Looked (Some i))" unfolding race_ok_def by (metis fst_conv snd_conv)
  with delete show ?case by (intro race_ok_enter) auto
next
  case (count w s l c x xs)
  let ?m = "fst (req s)" and ?d = "apply_change c (ra_db w)"
  have ok: "db_ok (ra_db w)" "change_ok ?m (snd (req s)) (ra_db w) l c"
    using count unfolding race_ok_def by (simp, metis phase_ok.simps(2))
  have "x \<in> set (t_messages ?d)" "mr_id x = ?m" using filter_eq_ConsD [OF count(2)] by auto
  with likes_count_row [OF apply_change_commit(1) [OF ok]] have "mr_likes_count x = int (likes_of ?d ?m)" by simp
  with count ok show ?case by (intro race_ok_enter) auto
next
  case (commit w s l c n)
  then show ?case by (intro race_ok_commit) auto
next
  case (commit_lost w s l c n)
  then show ?case by (intro race_ok_commit) auto
next
  case (other d' w)
  then show ?case by (intro race_ok_db)
qed (auto intro!: race_ok_enter)

interpretation like_run: step_system like_begins "like_step req" "race_ok req" for req
  by unfold_locales (simp add: like_begins_def race_ok_def locked_def, erule (1) like_step_ok)

lemmas like_reachable_ok = like_run.reachable_inv

section \<open>One session alone\<close>

text \<open>The steps of a session that nobody disturbs, from the look-up to the response.\<close>

lemma session_run:
  assumes "req s = (m, u)" and "map_option ir_id (find (is_like_of m u) (t_interactions d)) = found"
    and "like_step req (enter s (Looked found) \<lparr>ra_db = d, ra_phase = (\<lambda>_. Begun)\<rparr>)
      (enter s (Flipped l c) \<lparr>ra_db = d, ra_phase = (\<lambda>_. Begun)\<rparr>)"
    and "filter (\<lambda>x. mr_id x = m) (t_messages (apply_change c d)) = x # xs"
  shows "(like_step req)\<^sup>*\<^sup>* \<lparr>ra_db = d, ra_phase = (\<lambda>_. Begun)\<rparr>
    \<lparr>ra_db = apply_change c d, ra_phase = (\<lambda>_. Begun)(s := Replied l (mr_likes_count x))\<rparr>"
proof -
  let ?w = "\<lparr>ra_db = d, ra_phase = (\<lambda>_. Begun)\<rparr>"
  let ?c = "enter s (Counted l c (mr_likes_count x)) ?w"
  have again: "enter s p (enter s q w) = enter s p w" for p q w by (simp add: enter_def)
  have "(like_step req)\<^sup>*\<^sup>* ?w (enter s (Looked found) ?w)" using like_step.look [of ?w s req m u] assms(1,2) by simp
  also note assms(3)
  also have "like_step req (enter s (Flipped l c) ?w) ?c"
    using like_step.count [of "enter s (Flipped l c) ?w" s l c req x xs] assms(1,4) by (simp add: again) (simp add: enter_def)
  also have "like_step req ?c (enter s (Replied l (mr_likes_count x)) (?c\<lparr>ra_db := apply_change c (ra_db ?c)\<rparr>))"
    by (rule like_step.commit) (simp add: enter_def)
  finally show ?thesis by (simp add: enter_def)
qed

lemma find_filter: "find P xs = (case filter P xs of [] \<Rightarrow> None | x # _ \<Rightarrow> Some x)"
  by (induction xs) auto

text \<open>The count at the end of the transaction.\<close>

lemma like_count_up:
  assumes "t_links d = []" and "uuid_in env m = Some mid" and "first_row (query (likes_count_query env m) d) = (Inr n, d')"
  shows "d' = d \<and> (\<exists>x xs. filter (\<lambda>x. mr_id x = mid) (t_messages d) = x # xs \<and> n = mr_likes_count x)"
  using assms by (auto simp: query_up likes_count_query_def uuid_param_def first_row_def map_eq_Cons_conv split: list.splits)

lemma nobody_waits:
  "\<not> locked req (enter s (Looked f) \<lparr>ra_db = d, ra_phase = (\<lambda>_. Begun)\<rparr>) t m"
  "known (enter s (Looked None) \<lparr>ra_db = d, ra_phase = (\<lambda>_. Begun)\<rparr>) = {}"
  by (auto simp: locked_def known_def enter_def split: if_splits)

lemma look_up:
  assumes "t_links d = []" and "uuid_in env m = Some mid" and "uuid_in env u = Some uid"
  shows "first_row (query (find_like env m u) d) =
    (case find (is_like_of mid uid) (t_interactions d) of None \<Rightarrow> (Inl ErrNoRows, d) | Some r \<Rightarrow> (Inr (ir_id r), d))"
  using assms find_filter [of "is_like_of mid uid" "t_interactions d"]
  by (simp add: query_up find_like_def uuid_param_def first_row_def split: option.splits list.splits)

lemma unlike_run:
  assumes "db_ok d" and "t_links d = []" and "uuid_in env m = Some mid" and "uuid_in env u = Some uid"
    and "like_tx env m u d = (Inr resp, d')" and "req s = (mid, uid)"
    and Some: "find (is_like_of mid uid) (t_interactions d) = Some r"
  shows "\<exists>w. (like_step req)\<^sup>*\<^sup>* \<lparr>ra_db = d, ra_phase = (\<lambda>_. Begun)\<rparr> w \<and>
    ra_phase w s = Replied (lkr_Liked resp) (lkr_LikesCount resp) \<and>
    t_interactions (ra_db w) = t_interactions d' \<and> t_messages (ra_db w) = t_messages d'"
proof -
  let ?w = "\<lparr>ra_db = d, ra_phase = (\<lambda>_. Begun)\<rparr>"
  note fl = look_up [OF assms(2-4)]
  have free: "\<not> locked req (enter s (Looked f) ?w) t mid" for f t by (rule nobody_waits)
  from Some have r: "r \<in> set (t_interactions d)" by (auto dest: find_Some_in)
  let ?d = "apply_change (Deleted r) d"
  have links: "t_links ?d = []" using assms(2) by (simp add: delete_interactions_def fold_update_interaction_counts)
  have "flip_like env m u (Inr (ir_id r)) d = (Inr False, ?d)" using assms(2) by (simp add: flip_like_def exec_up delete_like_stmt_def)
  with assms(5) Some fl obtain n where "resp = \<lparr>lkr_Liked = False, lkr_LikesCount = n\<rparr>"
    "first_row (query (likes_count_query env m) ?d) = (Inr n, d')"
    by (auto simp: like_tx_def split: prod.splits sum.splits)
  with like_count_up [OF links assms(3)] obtain x xs where x: "filter (\<lambda>x. mr_id x = mid) (t_messages ?d) = x # xs"
    and resp: "resp = \<lparr>lkr_Liked = False, lkr_LikesCount = mr_likes_count x\<rparr>" "d' = ?d" by blast
  have "like_step req (enter s (Looked (Some (ir_id r))) ?w) (enter s (Flipped False (Deleted r)) (enter s (Looked (Some (ir_id r))) ?w))"
    by (rule like_step.delete [OF _ assms(6) free]) (use r in \<open>simp_all add: enter_def\<close>)
  then have "like_step req (enter s (Looked (Some (ir_id r))) ?w) (enter s (Flipped False (Deleted r)) ?w)" by (simp add: enter_def)
  from session_run [OF assms(6) _ this x] Some resp show ?thesis by (intro exI conjI) auto
qed

lemma like_run:
  assumes "db_ok d" and "t_links d = []" and "uuid_in env m = Some mid" and "uuid_in env u = Some uid"
    and "like_tx env m u d = (Inr resp, d')" and "req s = (mid, uid)"
    and None: "find (is_like_of mid uid) (t_interactions d) = None"
  shows "\<exists>w. (like_step req)\<^sup>*\<^sup>* \<lparr>ra_db = d, ra_phase = (\<lambda>_. Begun)\<rparr> w \<and>
    ra_phase w s = Replied (lkr_Liked resp) (lkr_LikesCount resp) \<and>
    t_interactions (ra_db w) = t_interactions d' \<and> t_messages (ra_db w) = t_messages d'"
proof -
  let ?w = "\<lparr>ra_db = d, ra_phase = (\<lambda>_. Begun)\<rparr>"
  note fl = look_up [OF assms(2-4)]
  have free: "\<not> locked req (enter s (Looked f) ?w) t mid" for f t by (rule nobody_waits)
  let ?d = "d\<lparr>t_uuids := Suc (t_uuids d)\<rparr>"
  from assms(5) None fl obtain y d2 n where ins: "insert_interaction_stmt env m u ''like'' None d = (Inr y, d2)"
    and resp: "resp = \<lparr>lkr_Liked = True, lkr_LikesCount = n\<rparr>" and cnt: "first_row (query (likes_count_query env m) d2) = (Inr n, d')"
    using assms(2) by (auto simp: like_tx_def flip_like_def exec_up split: prod.splits sum.splits)
  define r where "r = \<lparr>ir_id = uuid_v4 env (t_uuids d), ir_message_id = mid, ir_user_id = uid, ir_type = ''like'',
      ir_content = None, ir_created_at = db_now env\<rparr>"
  from ins assms(3,4) have i: "insert_interaction r ?d = Inr d2"
    by (auto simp: insert_interaction_stmt_def uuid_param_def gen_uuid_def Let_def r_def split: sum.splits)
  have r: "is_like_of mid uid r" "ir_content r = None" by (simp_all add: r_def is_like_of_def)
  note d2 = insert_interaction_InrD [OF i]
  have same: "t_messages d2 = t_messages (apply_change (Inserted r) d)" "t_interactions d2 = t_interactions (apply_change (Inserted r) d)"
    "t_links d2 = []"
    using assms(2) by (simp_all add: d2 update_interaction_counts_eq)
  from i have "insert_interaction r d = Inr (apply_change (Inserted r) d)"
    unfolding d2 insert_like_iff [OF r(1)] by (simp add: likes_def has_message_def has_user_def)
  then have "like_step req (enter s (Looked None) ?w) (enter s (Flipped True (Inserted r)) (enter s (Looked None) ?w))"
    by (intro like_step.insert [OF _ assms(6) free r]) (simp_all add: nobody_waits, simp_all add: enter_def)
  then have step: "like_step req (enter s (Looked None) ?w) (enter s (Flipped True (Inserted r)) ?w)" by (simp add: enter_def)
  from like_count_up [OF same(3) assms(3) cnt] same obtain x xs
    where x: "filter (\<lambda>x. mr_id x = mid) (t_messages (apply_change (Inserted r) d)) = x # xs" "n = mr_likes_count x" "d' = d2" by metis
  from session_run [OF assms(6) _ step x(1)] None resp x(2,3) same show ?thesis
    by (intro exI conjI) (auto simp del: apply_change.simps)
qed

text \<open>Without a race the step relation does what the transaction of \<open>Interaction_Repo\<close> does: it gives the same response and leaves the
  same messages and interactions.\<close>

lemma like_tx_run:
  assumes "db_ok d" and "t_links d = []" and "uuid_in env m = Some mid" and "uuid_in env u = Some uid"
    and "like_tx env m u d = (Inr resp, d')" and "req s = (mid, uid)"
  shows "\<exists>w. (like_step req)\<^sup>*\<^sup>* \<lparr>ra_db = d, ra_phase = (\<lambda>_. Begun)\<rparr> w \<and>
    ra_phase w s = Replied (lkr_Liked resp) (lkr_LikesCount resp) \<and>
    t_interactions (ra_db w) = t_interactions d' \<and> t_messages (ra_db w) = t_messages d'"
proof (cases "find (is_like_of mid uid) (t_interactions d)")
  case None
  with assms show ?thesis by (rule like_run)
next
  case (Some r)
  with assms show ?thesis by (rule unlike_run)
qed

section \<open>Racing likes\<close>

text \<open>C6: concurrent likes. Whatever the interleaving of the statements of any number of \<open>ToggleLike\<close> transactions with each other and with
  other requests, and wherever they fail, the committed database counts every like once: no user likes a message twice, the
  counter equals the number of likes. And a session that changed a like and whose commit is answered reports the truth of
  that moment: the number of likes of the message, and whether its user likes it.\<close>

theorem Likes_race:
  assumes "like_reachable req w" and "d = ra_db w"
  shows "distinct (map like_key (filter is_like (t_interactions d))) \<and>
    (\<forall>x \<in> set (t_messages d). mr_likes_count x = int (likes_of d (mr_id x))) \<and>
    (\<forall>s m u l c n w'. req s = (m, u) \<and> ra_phase w s = Counted l c n \<and> c \<noteq> Unchanged \<and>
       like_step req w w' \<and> ra_phase w' s = Replied l n \<longrightarrow>
       n = int (likes_of (ra_db w') m) \<and> l = likes (ra_db w') m u)"
proof -
  note ok = like_reachable_ok [OF assms(1)]
  then have db: "db_ok d" by (simp add: race_ok_def assms(2))
  have "n = int (likes_of (ra_db w') m) \<and> l = likes (ra_db w') m u"
    if "req s = (m, u)" "ra_phase w s = Counted l c n" "c \<noteq> Unchanged" "like_step req w w'" "ra_phase w' s = Replied l n" for s m u l c n w'
  proof -
    from that(1,2) ok have c: "change_ok m u (ra_db w) l c" "n = int (likes_of (apply_change c (ra_db w)) m)"
      using that(3) unfolding race_ok_def by (metis fst_conv snd_conv phase_ok.simps(3))+
    from that(4,2,5) have "ra_db w' = apply_change c (ra_db w)"
      by (cases rule: like_step.cases) (auto simp: enter_def split: if_splits)
    with c apply_change_commit(4) [OF db [unfolded assms(2)] c(1) that(3)] show ?thesis by simp
  qed
  moreover have "distinct (map like_key (filter is_like (t_interactions d)))" using db by (simp add: db_ok_def wf_interactions_def)
  ultimately show ?thesis using likes_count_row [OF db] by blast
qed

text \<open>Two sessions of \<open>bobby\<close> look before either likes; the first commits, the second is rejected.\<close>

definition demo_like :: interaction_row where
  "demo_like = \<lparr>ir_id = ''i1'', ir_message_id = ''m1'', ir_user_id = ''bobby'', ir_type = ''like'', ir_content = None, ir_created_at = 0\<rparr>"

definition demo_race :: "phase \<Rightarrow> phase \<Rightarrow> race" where
  "demo_race p q = \<lparr>ra_db = demo_db, ra_phase = (\<lambda>_. Begun)(0 := p, 1 := q)\<rparr>"

lemma demo_race_enter: "enter 0 p' (demo_race p q) = demo_race p' q" "enter 1 q' (demo_race p q) = demo_race p q'"
  by (simp_all add: demo_race_def enter_def fun_upd_twist)

lemma demo_race_reachable:
  "like_reachable (\<lambda>_. (''m1'', ''bobby'')) (demo_race (Counted True (Inserted demo_like) 1) (Looked None))"
proof -
  let ?req = "\<lambda>_ :: nat. (''m1'', ''bobby'')" and ?F = "Flipped True (Inserted demo_like)"
  have find: "find (is_like_of ''m1'' ''bobby'') (t_interactions demo_db) = None" by code_simp
  have ins: "insert_interaction demo_like demo_db = Inr (apply_change (Inserted demo_like) demo_db)" by code_simp
  have count: "map mr_likes_count (filter (\<lambda>x. mr_id x = ''m1'') (t_messages (apply_change (Inserted demo_like) demo_db))) = [1]"
    by code_simp
  have 0: "like_reachable ?req (demo_race Begun Begun)"
    using like_reachable_start [OF demo_db_ok, of ?req] by (simp add: demo_race_def fun_upd_idem)
  have 1: "like_reachable ?req (demo_race (Looked None) Begun)"
    using like_reachable_step [OF 0 like_step.look [of _ 0]] find by (simp add: demo_race_enter) (simp add: demo_race_def)
  have 2: "like_reachable ?req (demo_race (Looked None) (Looked None))"
    using like_reachable_step [OF 1 like_step.look [of _ 1]] find by (simp add: demo_race_def enter_def)
  have "like_step ?req (demo_race (Looked None) (Looked None)) (enter 0 ?F (demo_race (Looked None) (Looked None)))"
    by (rule like_step.insert [OF _ refl]) (use ins in \<open>auto simp: demo_race_def locked_def is_like_of_def demo_like_def known_def split: if_splits\<close>)
  then have 3: "like_reachable ?req (demo_race ?F (Looked None))" using like_reachable_step [OF 2] by (simp add: demo_race_enter)
  from count obtain x where x: "filter (\<lambda>x. mr_id x = ''m1'') (t_messages (apply_change (Inserted demo_like) demo_db)) = [x]" "mr_likes_count x = 1"
    by (auto simp: map_eq_Cons_conv)
  have "like_step ?req (demo_race ?F (Looked None)) (enter 0 (Counted True (Inserted demo_like) (mr_likes_count x)) (demo_race ?F (Looked None)))"
    by (rule like_step.count [where xs = "[]"]) (use x in \<open>simp_all add: demo_race_def del: apply_change.simps\<close>)
  then show ?thesis using like_reachable_step [OF 3] x(2) by (simp add: demo_race_enter)
qed

lemma Likes_race_witness:
  "likes (apply_change (Inserted demo_like) demo_db) ''m1'' ''bobby'' \<and> likes_of (apply_change (Inserted demo_like) demo_db) ''m1'' = 1"
proof -
  let ?w = "demo_race (Counted True (Inserted demo_like) 1) (Looked None)"
  have "like_step (\<lambda>_. (''m1'', ''bobby'')) ?w (enter 0 (Replied True 1) (?w\<lparr>ra_db := apply_change (Inserted demo_like) (ra_db ?w)\<rparr>))"
    by (rule like_step.commit) (simp add: demo_race_def)
  then show ?thesis
    using Likes_race [OF demo_race_reachable refl] by (fastforce simp: demo_race_def enter_def simp del: apply_change.simps)
qed

end
