(* ===== verification/Gamification_Repo.thy ===== *)
theory Gamification_Repo
  imports Interaction_Repo
begin

text \<open>
  \<open>backend/internal/repository/gamification_repo.go\<close> and \<open>backend/internal/service/gamification_service.go\<close>:
  posting streaks, counters and badges.
\<close>

section \<open>Streaks\<close>

definition zero_streak :: "string \<Rightarrow> UserStreak" where
  "zero_streak userID = \<lparr>stk_UserID = userID, stk_CurrentStreak = 0, stk_MaxStreak = 0, stk_TotalPosts = 0,
     stk_TotalZones = 0, stk_TotalUnlocks = 0\<rparr>"

definition scan_streak :: "string \<Rightarrow> streak_row \<Rightarrow> UserStreak" where
  "scan_streak userID r = \<lparr>stk_UserID = userID, stk_CurrentStreak = sr_current_streak r,
     stk_MaxStreak = sr_max_streak r, stk_TotalPosts = sr_total_posts r,
     stk_TotalZones = sr_total_zones r, stk_TotalUnlocks = sr_total_unlocks r\<rparr>"

text \<open>Every error of the query, not only an absent row, is answered with a zero streak.\<close>

definition GamificationRepo_GetStreak :: "env \<Rightarrow> string \<Rightarrow> UserStreak action" where
  "GamificationRepo_GetStreak env userID d =
     (case first_row (query (\<lambda>d. case uuid_param env userID of Inl e \<Rightarrow> Inl e | Inr uid \<Rightarrow>
              Inr (map (scan_streak userID) (filter (\<lambda>s. sr_user_id s = uid) (t_streaks d)))) d) of
        (Inl e, d1) \<Rightarrow> (Inr (zero_streak userID), d1)
      | (Inr s, d1) \<Rightarrow> (Inr s, d1))"

text \<open>The sub-query \<open>COUNT(DISTINCT ...)\<close>: the grid cells of two decimals the user posted in.\<close>

definition zones_of :: "env \<Rightarrow> string \<Rightarrow> db \<Rightarrow> int" where
  "zones_of env uid d =
     int (length (remdups (map (grid_cell env 2) (filter (\<lambda>m. mr_user_id m = uid) (t_messages d)))))"

definition next_streak :: "env \<Rightarrow> streak_row \<Rightarrow> int" where
  "next_streak env s =
     (if sr_last_post_date s = Some (db_today env) then sr_current_streak s
      else if sr_last_post_date s = Some (db_today env - 1) then sr_current_streak s + 1
      else 1)"

definition post_update :: "env \<Rightarrow> string \<Rightarrow> db \<Rightarrow> streak_row \<Rightarrow> streak_row" where
  "post_update env uid d s = s\<lparr>sr_current_streak := next_streak env s,
     sr_max_streak := max (sr_max_streak s) (next_streak env s),
     sr_last_post_date := Some (db_today env),
     sr_total_posts := sr_total_posts s + 1,
     sr_total_zones := zones_of env uid d\<rparr>"

text \<open>\<open>INSERT ... ON CONFLICT (user_id) DO UPDATE\<close>.\<close>

definition upsert_streak :: "streak_row \<Rightarrow> (streak_row \<Rightarrow> streak_row) \<Rightarrow> db \<Rightarrow> db_error + db" where
  "upsert_streak new f d =
     (if \<exists>s \<in> set (t_streaks d). sr_user_id s = sr_user_id new
      then Inr (d\<lparr>t_streaks := update_where (\<lambda>s. sr_user_id s = sr_user_id new) f (t_streaks d)\<rparr>)
      else if \<not> has_user d (sr_user_id new) then Inl (ForeignKeyViolation ''user_streaks_user_id_fkey'')
      else Inr (d\<lparr>t_streaks := t_streaks d @ [new]\<rparr>))"

definition record_post_stmt :: "env \<Rightarrow> string \<Rightarrow> unit stmt" where
  "record_post_stmt env userID d =
     (case uuid_param env userID of Inl e \<Rightarrow> (Inl e, d) | Inr uid \<Rightarrow>
        (case upsert_streak \<lparr>sr_user_id = uid, sr_current_streak = 1, sr_max_streak = 1,
                sr_last_post_date = Some (db_today env), sr_total_posts = 1,
                sr_total_zones = zones_of env uid d, sr_total_unlocks = 0\<rparr> (post_update env uid d) d of
           Inl e \<Rightarrow> (Inl e, d) | Inr d1 \<Rightarrow> (Inr (), d1)))"

definition GamificationRepo_RecordPost :: "env \<Rightarrow> string \<Rightarrow> real \<Rightarrow> real \<Rightarrow> unit action" where
  "GamificationRepo_RecordPost env userID lat lng d = exec (record_post_stmt env userID) d"

definition record_unlock_stmt :: "env \<Rightarrow> string \<Rightarrow> unit stmt" where
  "record_unlock_stmt env userID d =
     (case uuid_param env userID of Inl e \<Rightarrow> (Inl e, d) | Inr uid \<Rightarrow>
        (case upsert_streak \<lparr>sr_user_id = uid, sr_current_streak = 0, sr_max_streak = 0,
                sr_last_post_date = None, sr_total_posts = 0, sr_total_zones = 0, sr_total_unlocks = 1\<rparr>
                (\<lambda>s. s\<lparr>sr_total_unlocks := sr_total_unlocks s + 1\<rparr>) d of
           Inl e \<Rightarrow> (Inl e, d) | Inr d1 \<Rightarrow> (Inr (), d1)))"

definition GamificationRepo_RecordUnlock :: "env \<Rightarrow> string \<Rightarrow> unit action" where
  "GamificationRepo_RecordUnlock env userID d = exec (record_unlock_stmt env userID) d"

section \<open>Badges\<close>

definition GamificationRepo_GetBadges :: "env \<Rightarrow> string \<Rightarrow> Badge list action" where
  "GamificationRepo_GetBadges env userID d =
     query_rows env (\<lambda>d. case uuid_param env userID of Inl e \<Rightarrow> Inl e | Inr uid \<Rightarrow>
        Inr (map (\<lambda>b. \<lparr>bdg_ID = br_id b, bdg_BadgeType = br_badge_type b, bdg_EarnedAt = br_earned_at b\<rparr>)
          (sort_key (\<lambda>b. - br_earned_at b) (filter (\<lambda>b. br_user_id b = uid) (t_badges d))))) d"

definition award_badge_stmt :: "env \<Rightarrow> string \<Rightarrow> string \<Rightarrow> unit stmt" where
  "award_badge_stmt env userID badgeType d =
     (case uuid_param env userID of Inl e \<Rightarrow> (Inl e, d) | Inr uid \<Rightarrow>
        (case gen_uuid env d of (i, d1) \<Rightarrow>
           (case insert_badge \<lparr>br_id = i, br_user_id = uid, br_badge_type = badgeType,
                   br_earned_at = db_now env\<rparr> d1 of
              Inl e \<Rightarrow> (Inl e, d) | Inr d2 \<Rightarrow> (Inr (), d2))))"

definition GamificationRepo_AwardBadge :: "env \<Rightarrow> string \<Rightarrow> string \<Rightarrow> unit action" where
  "GamificationRepo_AwardBadge env userID badgeType d = exec (award_badge_stmt env userID badgeType) d"

text \<open>The result of an award is not looked at: only the state goes on.\<close>

definition award_if :: "bool \<Rightarrow> env \<Rightarrow> string \<Rightarrow> string \<Rightarrow> db \<Rightarrow> db" where
  "award_if c env userID badgeType d = (if c then snd (GamificationRepo_AwardBadge env userID badgeType d) else d)"

definition GamificationRepo_CheckAndAwardBadges :: "env \<Rightarrow> string \<Rightarrow> unit action" where
  "GamificationRepo_CheckAndAwardBadges env userID d =
     (case GamificationRepo_GetStreak env userID d of
        (Inl e, d1) \<Rightarrow> (Inl e, d1)
      | (Inr s, d1) \<Rightarrow>
         (let d2 = award_if (stk_TotalPosts s \<ge> 1) env userID ''first_post'' d1;
              d3 = award_if (stk_TotalZones s \<ge> 5) env userID ''explorer_5'' d2;
              d4 = award_if (stk_TotalZones s \<ge> 10) env userID ''explorer_10'' d3;
              d5 = award_if (stk_TotalZones s \<ge> 25) env userID ''explorer_25'' d4;
              d6 = award_if (stk_CurrentStreak s \<ge> 3) env userID ''streak_3'' d5;
              d7 = award_if (stk_CurrentStreak s \<ge> 7) env userID ''streak_7'' d6;
              d8 = award_if (stk_CurrentStreak s \<ge> 30) env userID ''streak_30'' d7;
              d9 = award_if (stk_TotalUnlocks s \<ge> 5) env userID ''mystery_hunter_5'' d8;
              d10 = award_if (stk_TotalUnlocks s \<ge> 25) env userID ''mystery_hunter_25'' d9
          in (Inr (), d10)))"

section \<open>GamificationService\<close>

definition GamificationService_GetStreak :: "env \<Rightarrow> string \<Rightarrow> UserStreak action" where
  "GamificationService_GetStreak env userID d = GamificationRepo_GetStreak env userID d"

definition GamificationService_GetBadges :: "env \<Rightarrow> string \<Rightarrow> Badge list action" where
  "GamificationService_GetBadges env userID d = GamificationRepo_GetBadges env userID d"

definition GamificationService_GetProfile :: "env \<Rightarrow> string \<Rightarrow> (UserStreak \<times> Badge list) action" where
  "GamificationService_GetProfile env userID d =
     (case GamificationRepo_GetStreak env userID d of
        (Inl e, d1) \<Rightarrow> (Inl e, d1)
      | (Inr streak, d1) \<Rightarrow>
          (case GamificationRepo_GetBadges env userID d1 of
             (Inl e, d2) \<Rightarrow> (Inl e, d2)
           | (Inr badges, d2) \<Rightarrow> (Inr (streak, badges), d2)))"

section \<open>Every method keeps the invariant\<close>

lemma upsert_streak_ok:
  assumes "upsert_streak new f d = Inr d'" and "db_ok d" and "streak_row_ok new"
    and "\<And>s. streak_row_ok s \<Longrightarrow> streak_row_ok (f s) \<and> sr_user_id (f s) = sr_user_id s"
  shows "db_ok d'"
proof -
  have ok: "distinct (map sr_user_id (t_streaks d))"
    "\<And>s. s \<in> set (t_streaks d) \<Longrightarrow> has_user d (sr_user_id s) \<and> streak_row_ok s"
    using assms(2) by (simp_all add: db_ok_def wf_streaks_def)
  from assms(1) consider
    "d' = d\<lparr>t_streaks := update_where (\<lambda>s. sr_user_id s = sr_user_id new) f (t_streaks d)\<rparr>" |
    "d' = d\<lparr>t_streaks := t_streaks d @ [new]\<rparr>" "has_user d (sr_user_id new)"
      "\<forall>s \<in> set (t_streaks d). sr_user_id s \<noteq> sr_user_id new"
    by (auto simp: upsert_streak_def split: if_splits)
  then show ?thesis
  proof cases
    case 1
    have "map sr_user_id (update_where (\<lambda>s. sr_user_id s = sr_user_id new) f (t_streaks d)) =
        map sr_user_id (t_streaks d)"
      using assms(4) ok(2) by (auto simp: update_where_def)
    moreover have "has_user d (sr_user_id s) \<and> streak_row_ok s"
      if "s \<in> set (update_where (\<lambda>s. sr_user_id s = sr_user_id new) f (t_streaks d))" for s
      using that assms(4) ok(2) by (auto simp: in_set_update_where) (metis ok(2))
    ultimately show ?thesis using ok(1) unfolding 1 by (intro streaks_ok [OF assms(2)]) auto
  next
    case 2
    with ok assms(3) show ?thesis unfolding 2(1) by (intro streaks_ok [OF assms(2)]) auto
  qed
qed

lemma post_update_frame [simp]:
  "sr_user_id (post_update env uid d s) = sr_user_id s"
  "sr_total_posts (post_update env uid d s) = sr_total_posts s + 1"
  by (simp_all add: post_update_def)

lemma post_update_ok: "streak_row_ok s \<Longrightarrow> streak_row_ok (post_update env uid d s)"
  by (auto simp: streak_row_ok_def post_update_def next_streak_def zones_of_def)

lemma upsert_streak_links: "upsert_streak new f d = Inr d' \<Longrightarrow> t_links d' = t_links d"
  by (auto simp: upsert_streak_def split: if_splits)

interpretation record_post_stmt: pg_statement "record_post_stmt env u" for env u
proof
  fix d x d'
  assume "record_post_stmt env u d = (Inr x, d')"
  then obtain uid where ins: "upsert_streak \<lparr>sr_user_id = uid, sr_current_streak = 1, sr_max_streak = 1,
      sr_last_post_date = Some (db_today env), sr_total_posts = 1, sr_total_zones = zones_of env uid d,
      sr_total_unlocks = 0\<rparr> (post_update env uid d) d = Inr d'"
    by (auto simp: record_post_stmt_def split: sum.splits)
  then show "t_links d' = t_links d" by (rule upsert_streak_links)
  assume "db_ok d"
  then show "db_ok d'"
    by (rule upsert_streak_ok [OF ins])
      (auto intro: post_update_ok simp: streak_row_ok_def zones_of_def post_update_def next_streak_def)
qed

interpretation record_unlock_stmt: pg_statement "record_unlock_stmt env u" for env u
proof
  fix d x d'
  assume "record_unlock_stmt env u d = (Inr x, d')"
  then obtain uid where ins: "upsert_streak \<lparr>sr_user_id = uid, sr_current_streak = 0, sr_max_streak = 0,
      sr_last_post_date = None, sr_total_posts = 0, sr_total_zones = 0, sr_total_unlocks = 1\<rparr>
      (\<lambda>s. s\<lparr>sr_total_unlocks := sr_total_unlocks s + 1\<rparr>) d = Inr d'"
    by (auto simp: record_unlock_stmt_def split: sum.splits)
  then show "t_links d' = t_links d" by (rule upsert_streak_links)
  assume "db_ok d"
  then show "db_ok d'" by (rule upsert_streak_ok [OF ins]) (auto simp: streak_row_ok_def)
qed

interpretation award_badge_stmt: pg_statement "award_badge_stmt env u b" for env u b
proof
  fix d x d'
  assume "award_badge_stmt env u b d = (Inr x, d')"
  then obtain r where ins: "insert_badge r (d\<lparr>t_uuids := Suc (t_uuids d)\<rparr>) = Inr d'"
    by (auto simp: award_badge_stmt_def gen_uuid_def split: sum.splits)
  then show "t_links d' = t_links d" by (auto simp: insert_badge_def split: if_splits)
  assume "db_ok d"
  then show "db_ok d'" using insert_badge_ok [OF ins] by simp
qed

lemma award_if_ok: "db_ok d \<Longrightarrow> db_ok (award_if c env u b d)"
  by (simp add: award_if_def GamificationRepo_AwardBadge_def award_badge_stmt.exec_keeps)

lemma GetStreak_ok: "GamificationRepo_GetStreak env u d = (r, d') \<Longrightarrow> db_ok d \<Longrightarrow> db_ok d'"
  by (auto simp: GamificationRepo_GetStreak_def split: prod.splits sum.splits
      dest!: first_row_D dest: query_keepsD)

lemma gamification_methods_inv [db_inv]:
  assumes "db_ok d"
  shows "db_ok (snd (GamificationRepo_GetStreak env u d))"
    "db_ok (snd (GamificationRepo_RecordPost env u lat lng d))"
    "db_ok (snd (GamificationRepo_RecordUnlock env u d))"
    "db_ok (snd (GamificationRepo_GetBadges env u d))"
    "db_ok (snd (GamificationRepo_CheckAndAwardBadges env u d))"
    "db_ok (snd (GamificationService_GetProfile env u d))"
  using assms GetStreak_ok [of env u d] GetStreak_ok [OF surjective_pairing, of d env u]
  by (auto simp: GamificationRepo_RecordPost_def GamificationRepo_RecordUnlock_def GamificationRepo_GetBadges_def
      GamificationRepo_CheckAndAwardBadges_def GamificationService_GetProfile_def Let_def
      record_post_stmt.exec_keeps record_unlock_stmt.exec_keeps query_keeps query_rows_keeps award_if_ok
      split: prod.splits sum.splits dest: query_keepsD query_rows_keepsD)

section \<open>The streak law\<close>

text \<open>A run of \<open>n\<close> consecutive days that ends on day \<open>t\<close>.\<close>

definition day_run :: "int set \<Rightarrow> int \<Rightarrow> nat \<Rightarrow> bool" where
  "day_run S t n \<longleftrightarrow> (\<forall>i<n. t - int i \<in> S)"

text \<open>The streak on the last day of a set of days, and the longest run of the set.\<close>

definition streak_at :: "int set \<Rightarrow> int \<Rightarrow> nat \<Rightarrow> bool" where
  "streak_at S t n \<longleftrightarrow> day_run S t n \<and> t - int n \<notin> S"

definition longest_run :: "int set \<Rightarrow> nat \<Rightarrow> bool" where
  "longest_run S n \<longleftrightarrow> (\<exists>t. day_run S t n) \<and> (\<forall>t k. day_run S t k \<longrightarrow> k \<le> n)"

text \<open>What a row says of the set of days on which its user posted.\<close>

definition tracks :: "int set \<Rightarrow> streak_row \<Rightarrow> bool" where
  "tracks S s \<longleftrightarrow> 0 \<le> sr_current_streak s \<and> sr_current_streak s \<le> sr_max_streak s \<and>
     longest_run S (nat (sr_max_streak s)) \<and>
     (case sr_last_post_date s of
        None \<Rightarrow> S = {} \<and> sr_current_streak s = 0
      | Some t \<Rightarrow> t \<in> S \<and> (\<forall>x \<in> S. x \<le> t) \<and> streak_at S t (nat (sr_current_streak s)))"

lemma day_run_mono: "day_run S t n \<Longrightarrow> S \<subseteq> T \<Longrightarrow> day_run T t n"
  by (auto simp: day_run_def)

lemma day_run_le: "day_run S t n \<Longrightarrow> streak_at S t k \<Longrightarrow> n \<le> k"
  unfolding day_run_def streak_at_def by (meson not_less)

lemma day_run_insert:
  assumes "day_run (insert x S) t n" and "t \<noteq> x" and "\<forall>y \<in> S. y < x"
  shows "day_run S t n"
  unfolding day_run_def
proof (intro allI impI)
  fix i assume "i < n"
  with assms(1) have a: "t - int i = x \<or> t - int i \<in> S" and b: "t = x \<or> t \<in> S"
    by (auto simp: day_run_def dest: spec [of _ 0])
  from b assms(2,3) have "t < x" by auto
  with a show "t - int i \<in> S" by auto
qed

lemma longest_run_insert:
  assumes "longest_run S m" and "\<forall>y \<in> S. y < x" and "streak_at (insert x S) x n"
  shows "longest_run (insert x S) (max m n)"
proof -
  from assms(1) obtain t where "day_run S t m" by (auto simp: longest_run_def)
  then have "day_run (insert x S) t m" by (auto intro: day_run_mono)
  moreover have "day_run (insert x S) x n" using assms(3) by (simp add: streak_at_def)
  ultimately have "\<exists>t. day_run (insert x S) t (max m n)" by (auto simp: max_def)
  moreover have "k \<le> max m n" if "day_run (insert x S) t k" for t k
  proof (cases "t = x")
    case True
    with that have "k \<le> n" using day_run_le [OF _ assms(3)] by simp
    then show ?thesis by simp
  next
    case False
    with that assms(2) have "day_run S t k" by (auto intro: day_run_insert)
    with assms(1) show ?thesis by (auto simp: longest_run_def intro: le_max_iff_disj [THEN iffD2])
  qed
  ultimately show ?thesis by (auto simp: longest_run_def)
qed

text \<open>Posting on day \<open>x\<close>, not before the last day on which the user posted.\<close>

lemma streak_at_next:
  assumes "streak_at S t n" and "\<forall>y \<in> S. y \<le> t"
  shows "streak_at (insert (t + 1) S) (t + 1) (Suc n)"
proof -
  have "t + 1 - int i = t - int (i - 1)" if "0 < i" for i using that by simp
  with assms show ?thesis
    unfolding streak_at_def day_run_def
    by (auto simp: less_Suc_eq_0_disj)
qed

lemma streak_at_fresh:
  assumes "\<forall>y \<in> S. y < x - 1"
  shows "streak_at (insert x S) x 1"
  using assms by (auto simp: streak_at_def day_run_def)

lemma tracks_post:
  assumes "tracks S s" and "\<forall>x \<in> S. x \<le> db_today env"
  shows "tracks (insert (db_today env) S) (post_update env uid d s)"
proof -
  let ?x = "db_today env" and ?c = "sr_current_streak s" and ?m = "sr_max_streak s"
  let ?n = "nat (next_streak env s)"
  have lo: "0 \<le> ?c" "?c \<le> ?m" "longest_run S (nat ?m)" using assms(1) by (simp_all add: tracks_def)
  have core: "streak_at (insert ?x S) ?x ?n \<and> longest_run (insert ?x S) (max (nat ?m) ?n) \<and> 0 \<le> next_streak env s"
  proof (cases "sr_last_post_date s")
    case None
    with assms(1) have "S = {}" "?c = 0" by (simp_all add: tracks_def)
    moreover have "streak_at {?x} ?x 1" using streak_at_fresh [of "{}" ?x] by simp
    ultimately show ?thesis
      using None longest_run_insert [OF lo(3), of ?x 1] by (simp add: next_streak_def)
  next
    case (Some t)
    with assms(1) have t: "t \<in> S" "\<forall>x \<in> S. x \<le> t" "streak_at S t (nat ?c)" by (simp_all add: tracks_def)
    with assms(2) have "t \<le> ?x" by auto
    then consider "t = ?x" | "t = ?x - 1" | "t < ?x - 1" by linarith
    then show ?thesis
    proof cases
      case 1
      with Some t lo show ?thesis by (simp add: next_streak_def insert_absorb max_absorb1)
    next
      case 2
      then have "Suc (nat ?c) = ?n" "\<forall>y \<in> S. y < ?x" using Some lo t by (auto simp: next_streak_def)
      moreover from this have "streak_at (insert ?x S) ?x ?n" using streak_at_next [OF t(3,2)] 2 by simp
      ultimately show ?thesis using longest_run_insert [OF lo(3)] lo Some 2 by (simp add: next_streak_def)
    next
      case 3
      then have "?n = 1" and "\<forall>y \<in> S. y < ?x - 1" using Some t by (auto simp: next_streak_def)
      moreover from this have "streak_at (insert ?x S) ?x ?n" using streak_at_fresh by simp
      moreover have "\<forall>y \<in> S. y < ?x" using 3 t by auto
      ultimately show ?thesis using longest_run_insert [OF lo(3)] by (simp add: next_streak_def)
    qed
  qed
  have "nat (max ?m (next_streak env s)) = max (nat ?m) ?n" by (auto simp: max_def)
  with core assms(2) lo show ?thesis by (auto simp: tracks_def post_update_def)
qed

text \<open>A sequence of posts of one user, each on the server's date of its environment.\<close>

fun record_posts :: "env list \<Rightarrow> string \<Rightarrow> db \<Rightarrow> db" where
  "record_posts [] userID d = d"
| "record_posts (env # envs) userID d = record_posts envs userID (snd (GamificationRepo_RecordPost env userID 0 0 d))"

definition user_tracks :: "int set \<Rightarrow> int \<Rightarrow> string \<Rightarrow> db \<Rightarrow> bool" where
  "user_tracks S n uid d \<longleftrightarrow>
     (if \<exists>s \<in> set (t_streaks d). sr_user_id s = uid
      then \<forall>s \<in> set (t_streaks d). sr_user_id s = uid \<longrightarrow> tracks S s \<and> sr_total_posts s = n
      else S = {} \<and> n = 0)"

lemma longest_run_empty: "longest_run {} 0"
  by (auto simp: longest_run_def day_run_def)

lemma key_in_iff: "(\<exists>r \<in> set rs. k r = x) \<longleftrightarrow> x \<in> set (map k rs)"
  by auto

lemma RecordPost_tracks:
  assumes "user_tracks S n uid d" and "t_links d = []" and "has_user d uid" and "uuid_in env userID = Some uid"
    and "\<forall>x \<in> S. x \<le> db_today env"
  shows "user_tracks (insert (db_today env) S) (n + 1) uid (snd (GamificationRepo_RecordPost env userID lat lng d)) \<and>
    t_links (snd (GamificationRepo_RecordPost env userID lat lng d)) = [] \<and>
    t_users (snd (GamificationRepo_RecordPost env userID lat lng d)) = t_users d"
proof (cases "\<exists>s \<in> set (t_streaks d). sr_user_id s = uid")
  case True
  let ?d = "d\<lparr>t_streaks := update_where (\<lambda>s. sr_user_id s = uid) (post_update env uid d) (t_streaks d)\<rparr>"
  have run: "snd (GamificationRepo_RecordPost env userID lat lng d) = ?d"
    using True assms(2,4)
    by (simp add: GamificationRepo_RecordPost_def exec_up record_post_stmt_def uuid_param_def upsert_streak_def)
  have "map sr_user_id (t_streaks ?d) = map sr_user_id (t_streaks d)" by (simp add: map_update_where)
  then have "\<exists>s \<in> set (t_streaks ?d). sr_user_id s = uid"
    using True unfolding key_in_iff by (simp only:)
  moreover have "tracks (insert (db_today env) S) s \<and> sr_total_posts s = n + 1"
    if row: "s \<in> set (t_streaks ?d)" "sr_user_id s = uid" for s
  proof -
    from row obtain r where r: "r \<in> set (t_streaks d)" "sr_user_id r = uid" "s = post_update env uid d r"
      by (auto simp: update_where_def split: if_splits)
    with True assms(1) have "tracks S r \<and> sr_total_posts r = n" by (simp add: user_tracks_def)
    with r(3) tracks_post [OF _ assms(5)] show ?thesis by simp
  qed
  ultimately show ?thesis using assms(2) unfolding run user_tracks_def by simp
next
  case False
  let ?new = "\<lparr>sr_user_id = uid, sr_current_streak = 1, sr_max_streak = 1, sr_last_post_date = Some (db_today env),
      sr_total_posts = 1, sr_total_zones = zones_of env uid d, sr_total_unlocks = 0\<rparr>"
  have run: "snd (GamificationRepo_RecordPost env userID lat lng d) = d\<lparr>t_streaks := t_streaks d @ [?new]\<rparr>"
    using False assms(2-4)
    by (simp add: GamificationRepo_RecordPost_def exec_up record_post_stmt_def uuid_param_def upsert_streak_def)
  from False assms(1) have S: "S = {}" "n = 0" by (simp_all add: user_tracks_def)
  have at: "streak_at {db_today env} (db_today env) 1" using streak_at_fresh [of "{}"] by simp
  have "longest_run {db_today env} 1" using longest_run_insert [OF longest_run_empty _ at] by simp
  with at False S assms(2) show ?thesis unfolding run by (auto simp: user_tracks_def tracks_def)
qed

lemma record_posts_tracks:
  assumes "user_tracks S n uid d" and "t_links d = []" and "has_user d uid"
    and "\<forall>env \<in> set envs. uuid_in env userID = Some uid" and "sorted (map db_today envs)"
    and "\<forall>x \<in> S. \<forall>env \<in> set envs. x \<le> db_today env"
  shows "user_tracks (db_today ` set envs \<union> S) (n + int (length envs)) uid (record_posts envs userID d)"
  using assms
proof (induction envs arbitrary: S n d)
  case (Cons env envs)
  let ?d = "snd (GamificationRepo_RecordPost env userID 0 0 d)"
  have step: "user_tracks (insert (db_today env) S) (n + 1) uid ?d" "t_links ?d = []" "t_users ?d = t_users d"
    using RecordPost_tracks [OF Cons.prems(1-3), of env userID 0 0] Cons.prems(4,6) by simp_all
  have "has_user ?d uid" using Cons.prems(3) has_user_cong [OF step(3)] by simp
  moreover have "\<forall>env \<in> set envs. uuid_in env userID = Some uid" "sorted (map db_today envs)"
    "\<forall>x \<in> insert (db_today env) S. \<forall>e \<in> set envs. x \<le> db_today e"
    using Cons.prems(4-6) by simp_all
  ultimately have "user_tracks (db_today ` set envs \<union> insert (db_today env) S) (n + 1 + int (length envs)) uid
      (record_posts envs userID ?d)"
    using Cons.IH [OF step(1,2)] by blast
  then show ?case by (simp add: add.assoc)
qed simp

text \<open>C33: the streak law. A user without earlier posts posts on the server's dates of \<open>envs\<close>, which never go
  back. Then \<open>current_streak\<close> is the length of the run of consecutive posting days that ends on the last
  posting day, \<open>max_streak\<close> is the length of the longest run of consecutive posting days, \<open>last_post_date\<close> is the
  last day and \<open>total_posts\<close> counts every post.\<close>

theorem RecordPost_streak:
  assumes "t_links d = []" and "has_user d uid" and "\<forall>s \<in> set (t_streaks d). sr_user_id s \<noteq> uid"
    and "\<forall>env \<in> set envs. uuid_in env userID = Some uid" and "sorted (map db_today envs)" and "envs \<noteq> []"
    and "S = db_today ` set envs" and "d' = record_posts envs userID d"
  shows "(\<exists>s \<in> set (t_streaks d'). sr_user_id s = uid) \<and>
    (\<forall>s \<in> set (t_streaks d'). sr_user_id s = uid \<longrightarrow>
       streak_at S (Max S) (nat (sr_current_streak s)) \<and> longest_run S (nat (sr_max_streak s)) \<and>
       sr_last_post_date s = Some (Max S) \<and> sr_total_posts s = int (length envs))"
proof -
  have "user_tracks {} 0 uid d" using assms(3) by (auto simp: user_tracks_def)
  from record_posts_tracks [OF this assms(1,2,4,5)] assms(7,8)
  have "user_tracks S (int (length envs)) uid d'" by simp
  moreover have S: "S \<noteq> {}" "finite S" using assms(6,7) by auto
  ultimately have ex: "\<exists>s \<in> set (t_streaks d'). sr_user_id s = uid"
    and tr: "\<forall>s \<in> set (t_streaks d'). sr_user_id s = uid \<longrightarrow> tracks S s \<and> sr_total_posts s = int (length envs)"
    by (auto simp: user_tracks_def split: if_splits)
  have "streak_at S (Max S) (nat (sr_current_streak s)) \<and> longest_run S (nat (sr_max_streak s)) \<and>
      sr_last_post_date s = Some (Max S)" if "tracks S s" for s
    using that S by (auto simp: tracks_def split: option.splits intro!: Max_eqI [symmetric])
      (metis Max_eqI)
  with ex tr show ?thesis by blast
qed

lemma RecordPost_streak_witness:
  "\<exists>s \<in> set (t_streaks (record_posts [demo_env, demo_env\<lparr>db_today := 101\<rparr>] ''bobby'' demo_db)).
     sr_user_id s = ''bobby'' \<and> sr_last_post_date s = Some 101 \<and> sr_total_posts s = 2"
proof -
  let ?envs = "[demo_env, demo_env\<lparr>db_today := 101\<rparr>]"
  have "\<forall>env \<in> set ?envs. uuid_in env ''bobby'' = Some ''bobby''" "sorted (map db_today ?envs)" "?envs \<noteq> []"
    "\<forall>s \<in> set (t_streaks demo_db). sr_user_id s \<noteq> ''bobby''"
    by (simp_all add: demo_env_def demo_db_def empty_db_def)
  from RecordPost_streak [OF demo_run(1,5) this(4,1-3) refl refl] show ?thesis
    by (auto simp: demo_env_def)
qed

section \<open>Which badges are awarded\<close>

definition badges_of :: "db \<Rightarrow> string \<Rightarrow> string set" where
  "badges_of d uid = {br_badge_type b | b. b \<in> set (t_badges d) \<and> br_user_id b = uid}"

text \<open>The thresholds, as a table of the badge types of the schema.\<close>

definition badge_table :: "UserStreak \<Rightarrow> (string \<times> bool) list" where
  "badge_table s =
     (''first_post'', 1 \<le> stk_TotalPosts s) #
     map (\<lambda>(n, b). (b, n \<le> stk_TotalZones s)) [(5, ''explorer_5''), (10, ''explorer_10''), (25, ''explorer_25'')] @
     map (\<lambda>(n, b). (b, n \<le> stk_CurrentStreak s)) [(3, ''streak_3''), (7, ''streak_7''), (30, ''streak_30'')] @
     map (\<lambda>(n, b). (b, n \<le> stk_TotalUnlocks s)) [(5, ''mystery_hunter_5''), (25, ''mystery_hunter_25'')]"

definition earned_badges :: "UserStreak \<Rightarrow> string set" where
  "earned_badges s = {b. (b, True) \<in> set (badge_table s)}"

text \<open>The generator does not repeat an identifier that is in the table or that it gave before.\<close>

definition badge_ids_fresh :: "env \<Rightarrow> db \<Rightarrow> bool" where
  "badge_ids_fresh env d \<longleftrightarrow> inj (uuid_v4 env) \<and>
     (\<forall>n \<ge> t_uuids d. \<forall>b \<in> set (t_badges d). br_id b \<noteq> uuid_v4 env n)"

text \<open>The state an award starts and ends in, with the badge types the user has.\<close>

definition award_ready :: "env \<Rightarrow> string \<Rightarrow> db \<Rightarrow> string set \<Rightarrow> db \<Rightarrow> bool" where
  "award_ready env uid d0 B d \<longleftrightarrow> t_links d = [] \<and> has_user d uid \<and> badge_ids_fresh env d \<and> badges_of d uid = B \<and>
     (\<forall>u. u \<noteq> uid \<longrightarrow> badges_of d u = badges_of d0 u) \<and> t_streaks d = t_streaks d0 \<and> t_messages d = t_messages d0"

lemma badges_of_add:
  "badges_of (d\<lparr>t_uuids := n, t_badges := t_badges d @ [r]\<rparr>) u =
   (if br_user_id r = u then insert (br_badge_type r) (badges_of d u) else badges_of d u)"
  by (auto simp: badges_of_def)

lemma AwardBadge_ready:
  assumes "award_ready env uid d0 B d" and "uuid_in env userID = Some uid" and "length b \<le> 30"
  shows "award_ready env uid d0 (insert b B) (snd (GamificationRepo_AwardBadge env userID b d))"
proof -
  let ?row = "\<lparr>br_id = uuid_v4 env (t_uuids d), br_user_id = uid, br_badge_type = b, br_earned_at = db_now env\<rparr>"
  have len: "\<not> 30 < char_length b"
    using assms(3) char_length_le [of b] by simp
  have r: "t_links d = []" "has_user d uid" "badge_ids_fresh env d" "badges_of d uid = B"
    using assms(1) by (simp_all add: award_ready_def)
  have user: "has_user (d\<lparr>t_uuids := n\<rparr>) uid" for n using r(2) by (simp add: has_user_def)
  have fresh: "\<forall>x \<in> set (t_badges d). br_id x \<noteq> uuid_v4 env (t_uuids d)" using r(3) by (simp add: badge_ids_fresh_def)
  show ?thesis
  proof (cases "b \<in> B")
    case True
    then obtain x where "x \<in> set (t_badges d)" "br_user_id x = uid" "br_badge_type x = b"
      using r(4) by (auto simp: badges_of_def)
    then have "snd (GamificationRepo_AwardBadge env userID b d) = d\<lparr>t_uuids := Suc (t_uuids d)\<rparr>"
      using r(1) assms(2) len
      by (auto simp: GamificationRepo_AwardBadge_def exec_up award_badge_stmt_def uuid_param_def gen_uuid_def insert_badge_def)
    moreover have "badges_of (d\<lparr>t_uuids := Suc (t_uuids d)\<rparr>) u = badges_of d u" for u by (simp add: badges_of_def)
    ultimately show ?thesis
      using True assms(1) by (simp add: award_ready_def badge_ids_fresh_def has_user_def insert_absorb)
  next
    case False
    then have no: "\<not> (\<exists>x \<in> set (t_badges d). br_user_id x = uid \<and> br_badge_type x = b)"
      using r(4) by (auto simp: badges_of_def)
    have run: "snd (GamificationRepo_AwardBadge env userID b d) =
        d\<lparr>t_uuids := Suc (t_uuids d), t_badges := t_badges d @ [?row]\<rparr>"
      using no fresh user r(1) assms(2) len
      by (simp add: GamificationRepo_AwardBadge_def exec_up award_badge_stmt_def uuid_param_def gen_uuid_def insert_badge_def)
    have "badge_ids_fresh env (d\<lparr>t_uuids := Suc (t_uuids d), t_badges := t_badges d @ [?row]\<rparr>)"
      using r(3) by (auto simp: badge_ids_fresh_def inj_eq)
    with assms(1) show ?thesis
      unfolding run award_ready_def badges_of_add by (simp add: has_user_def)
  qed
qed

lemma award_if_ready:
  assumes "award_ready env uid d0 B d" and "uuid_in env userID = Some uid" and "length b \<le> 30"
  shows "award_ready env uid d0 (if c then insert b B else B) (award_if c env userID b d)"
  using assms AwardBadge_ready by (simp add: award_if_def)

lemma awards_ready:
  assumes "award_ready env uid d0 B d" and "uuid_in env userID = Some uid" and "\<forall>(b, c) \<in> set tbl. length b \<le> 30"
  shows "award_ready env uid d0 (B \<union> {b. (b, True) \<in> set tbl}) (fold (\<lambda>(b, c). award_if c env userID b) tbl d)"
  using assms(1,3)
proof (induction tbl arbitrary: B d)
  case (Cons x tbl)
  obtain b c where x: "x = (b, c)" by (cases x)
  have "award_ready env uid d0 (if c then insert b B else B) (award_if c env userID b d)"
    using Cons.prems x assms(2) by (intro award_if_ready) auto
  from Cons.IH [OF this] Cons.prems(2) have "award_ready env uid d0 ((if c then insert b B else B) \<union> {b. (b, True) \<in> set tbl})
      (fold (\<lambda>(b, c). award_if c env userID b) tbl (award_if c env userID b d))"
    by simp
  moreover have "(if c then insert b B else B) \<union> {b. (b, True) \<in> set tbl} = B \<union> {b. (b, True) \<in> set (x # tbl)}"
    by (auto simp: x)
  ultimately show ?case by (simp add: x)
qed simp

lemma GetStreak_up: "t_links d = [] \<Longrightarrow> GamificationRepo_GetStreak env u d = (Inr (projr (fst (GamificationRepo_GetStreak env u d))), d)"
  by (auto simp: GamificationRepo_GetStreak_def query_up first_row_def split: sum.splits list.splits)

lemma CheckAndAwardBadges_fold:
  assumes "GamificationRepo_GetStreak env userID d = (Inr s, d1)"
  shows "GamificationRepo_CheckAndAwardBadges env userID d =
    (Inr (), fold (\<lambda>(b, c). award_if c env userID b) (badge_table s) d1)"
  using assms by (simp add: GamificationRepo_CheckAndAwardBadges_def badge_table_def Let_def)

text \<open>C34: \<open>CheckAndAwardBadges\<close> on a connection that answers gives the user exactly the badges whose
  thresholds the user's row reaches, beside those the user has; the badges of other users stay as they are, and so do
  the streaks.\<close>

theorem CheckAndAwardBadges_correct:
  assumes "t_links d = []" and "uuid_in env userID = Some uid" and "has_user d uid" and "badge_ids_fresh env d"
  shows "\<exists>s d'. GamificationRepo_GetStreak env userID d = (Inr s, d) \<and>
    GamificationRepo_CheckAndAwardBadges env userID d = (Inr (), d') \<and>
    badges_of d' uid = badges_of d uid \<union> earned_badges s \<and>
    (\<forall>u. u \<noteq> uid \<longrightarrow> badges_of d' u = badges_of d u) \<and> t_streaks d' = t_streaks d"
proof -
  obtain s where s: "GamificationRepo_GetStreak env userID d = (Inr s, d)" using GetStreak_up [OF assms(1)] by blast
  let ?d = "fold (\<lambda>(b, c). award_if c env userID b) (badge_table s) d"
  have "award_ready env uid d (badges_of d uid) d" using assms by (simp add: award_ready_def)
  then have "award_ready env uid d (badges_of d uid \<union> earned_badges s) ?d"
    unfolding earned_badges_def using assms(2) by (rule awards_ready) (simp add: badge_table_def)
  then have "badges_of ?d uid = badges_of d uid \<union> earned_badges s \<and>
      (\<forall>u. u \<noteq> uid \<longrightarrow> badges_of ?d u = badges_of d u) \<and> t_streaks ?d = t_streaks d"
    unfolding award_ready_def by (elim conjE) (intro conjI)
  with s CheckAndAwardBadges_fold [OF s] show ?thesis by (elim conjE) (intro exI conjI)
qed

lemma CheckAndAwardBadges_correct_witness:
  "\<exists>s d'. GamificationRepo_GetStreak demo_env ''bobby'' (record_posts [demo_env] ''bobby'' demo_db) =
      (Inr s, record_posts [demo_env] ''bobby'' demo_db) \<and>
     GamificationRepo_CheckAndAwardBadges demo_env ''bobby'' (record_posts [demo_env] ''bobby'' demo_db) = (Inr (), d') \<and>
     earned_badges s \<subseteq> badges_of d' ''bobby''"
proof -
  let ?d = "record_posts [demo_env] ''bobby'' demo_db"
  have d: "t_links ?d = []" "has_user ?d ''bobby''" "t_badges ?d = []" by code_simp+
  have "inj (uuid_v4 demo_env)" by (simp add: demo_env_def inj_def)
  with d(3) have "badge_ids_fresh demo_env ?d" by (simp add: badge_ids_fresh_def)
  from CheckAndAwardBadges_correct [OF d(1) demo_run(3) d(2) this] obtain s d'
    where A: "GamificationRepo_GetStreak demo_env ''bobby'' ?d = (Inr s, ?d)"
      "GamificationRepo_CheckAndAwardBadges demo_env ''bobby'' ?d = (Inr (), d')"
      "badges_of d' ''bobby'' = badges_of ?d ''bobby'' \<union> earned_badges s"
    by (elim exE conjE)
  show ?thesis by (intro exI conjI) (rule A, rule A, simp only: A Un_upper2)
qed

end
