(* ===== verification/Redis_Cache.thy ===== *)
theory Redis_Cache
  imports Database
begin

text \<open>
  \<open>backend/internal/cache/redis.go\<close>. The Redis server is a store of keys with expiry times behind an unreliable
  connection. What is stored is the JSON text of a list of messages; \<open>json.Marshal\<close> and \<open>json.Unmarshal\<close> are inverse on
  the lists that can be written (shown in \<open>Json_Encode\<close> for the tags of \<open>model.Message\<close>; the strings come from the database and are valid
  UTF-8, the numbers are finite), so the store holds the lists themselves.

  The contract the message service relies on is the locale \<open>key_cache\<close>; its instance is at the end.
\<close>

section \<open>GridKey\<close>

text \<open>\<open>None\<close>: the slice expression \<open>userID[:8]\<close> panics on a shorter string.\<close>

definition key_user :: "string \<Rightarrow> string option" where
  "key_user userID =
     (if userID = [] then Some ''anon''
      else if length userID < 8 then None
      else Some (take 8 userID))"

definition GridKey :: "go_float \<Rightarrow> go_float \<Rightarrow> int \<Rightarrow> string \<Rightarrow> string option" where
  "GridKey lat lng radius userID =
     (case key_user userID of
        None \<Rightarrow> None
      | Some uid \<Rightarrow> Some (''grid:'' @ fmt_float lat @ '':'' @ fmt_float lng @ '':'' @ itoa radius @ '':'' @ uid))"

section \<open>The server and the client\<close>

record cache_entry =
  ce_key :: string
  ce_value :: "Message list"
  ce_expires :: "instant option"

text \<open>\<open>rd_pages\<close> is how the server cuts the answer of a scan into pages.\<close>

record redis =
  rd_store :: "cache_entry list"
  rd_links :: "link list"
  rd_pages :: "string list \<Rightarrow> string list list"

record RedisCache =
  rc_client :: "redis option"
  rc_ttl :: int

definition rd_next :: "redis \<Rightarrow> link \<times> redis" where
  "rd_next r = (case rd_links r of [] \<Rightarrow> (Answered, r) | l # ls \<Rightarrow> (l, r\<lparr>rd_links := ls\<rparr>))"

definition rd_live :: "instant \<Rightarrow> cache_entry \<Rightarrow> bool" where
  "rd_live now e \<longleftrightarrow> (case ce_expires e of None \<Rightarrow> True | Some t \<Rightarrow> now < t)"

definition rd_get :: "instant \<Rightarrow> string \<Rightarrow> redis \<Rightarrow> (go_error + Message list) \<times> redis" where
  "rd_get now key r =
     (case rd_next r of (l, r1) \<Rightarrow>
        if l \<noteq> Answered then (Inl (ErrLibrary ''redis: connection''), r1)
        else (case find (\<lambda>e. ce_key e = key \<and> rd_live now e) (rd_store r1) of
                None \<Rightarrow> (Inl (ErrLibrary ''redis: nil''), r1)
              | Some e \<Rightarrow> (Inr (ce_value e), r1)))"

definition rd_set :: "instant \<Rightarrow> string \<Rightarrow> Message list \<Rightarrow> int \<Rightarrow> redis \<Rightarrow> (go_error + unit) \<times> redis" where
  "rd_set now key val ttl r =
     (case rd_next r of (l, r1) \<Rightarrow>
        (let e = \<lparr>ce_key = key, ce_value = val, ce_expires = (if ttl > 0 then Some (now + ttl) else None)\<rparr>;
             r2 = r1\<lparr>rd_store := e # filter (\<lambda>x. ce_key x \<noteq> key) (rd_store r1)\<rparr> in
         if l = Unreachable then (Inl (ErrLibrary ''redis: connection''), r1)
         else if l = ReplyLost then (Inl (ErrLibrary ''redis: connection''), r2)
         else (Inr (), r2)))"

text \<open>The iterator asks for one page after the other and stops at the first error.\<close>

fun rd_scan_pages :: "string list list \<Rightarrow> redis \<Rightarrow> string list \<times> redis" where
  "rd_scan_pages [] r = ([], r)"
| "rd_scan_pages (p # ps) r =
     (case rd_next r of (l, r1) \<Rightarrow>
        if l \<noteq> Answered then ([], r1)
        else (case rd_scan_pages ps r1 of (ks, r2) \<Rightarrow> (p @ ks, r2)))"

definition rd_del :: "string list \<Rightarrow> redis \<Rightarrow> redis" where
  "rd_del keys r =
     (case rd_next r of (l, r1) \<Rightarrow>
        if l = Unreachable then r1
        else r1\<lparr>rd_store := filter (\<lambda>e. ce_key e \<notin> set keys) (rd_store r1)\<rparr>)"

section \<open>The cache\<close>

text \<open>The server \<open>r\<close> is pinged once at start; if that fails the cache is off for good.\<close>

definition NewRedisCache :: "redis \<Rightarrow> int \<Rightarrow> RedisCache" where
  "NewRedisCache r ttl =
     (case rd_next r of (l, r1) \<Rightarrow>
        \<lparr>rc_client = (if l = Answered then Some r1 else None), rc_ttl = ttl\<rparr>)"

definition RedisCache_Get :: "instant \<Rightarrow> string \<Rightarrow> RedisCache \<Rightarrow> (go_error + Message list) \<times> RedisCache" where
  "RedisCache_Get now key c =
     (case rc_client c of
        None \<Rightarrow> (Inl (ErrNew ''cache desactive''), c)
      | Some r \<Rightarrow> (case rd_get now key r of (x, r1) \<Rightarrow> (x, c\<lparr>rc_client := Some r1\<rparr>)))"

definition RedisCache_Set :: "instant \<Rightarrow> string \<Rightarrow> Message list \<Rightarrow> RedisCache \<Rightarrow> (go_error + unit) \<times> RedisCache" where
  "RedisCache_Set now key val c =
     (case rc_client c of
        None \<Rightarrow> (Inr (), c)
      | Some r \<Rightarrow> if \<not> list_all json_times val then (Inl (ErrLibrary ''json: unsupported value''), c)
                  else (case rd_set now key val (rc_ttl c) r of (x, r1) \<Rightarrow> (x, c\<lparr>rc_client := Some r1\<rparr>)))"

definition grid_prefix :: "string \<Rightarrow> bool" where
  "grid_prefix key \<longleftrightarrow> prefix ''grid:'' key"

definition RedisCache_InvalidateZone :: "instant \<Rightarrow> RedisCache \<Rightarrow> RedisCache" where
  "RedisCache_InvalidateZone now c =
     (case rc_client c of
        None \<Rightarrow> c
      | Some r \<Rightarrow>
          (case rd_scan_pages (rd_pages r (filter grid_prefix (map ce_key (filter (rd_live now) (rd_store r))))) r of
             (keys, r1) \<Rightarrow> c\<lparr>rc_client := Some (if keys \<noteq> [] then rd_del keys r1 else r1)\<rparr>))"

definition RedisCache_Close :: "RedisCache \<Rightarrow> go_error + unit" where
  "RedisCache_Close c =
     (case rc_client c of
        None \<Rightarrow> Inr ()
      | Some r \<Rightarrow> (case rd_next r of (l, r1) \<Rightarrow> if l = Answered then Inr () else Inl (ErrLibrary ''redis: close'')))"

lemma split_at_sep:
  "c \<notin> set a \<Longrightarrow> c \<notin> set b \<Longrightarrow> a @ c # x = b @ c # y \<longleftrightarrow> a = b \<and> x = y"
proof (induction a arbitrary: b)
  case Nil
  then show ?case by (cases b) auto
next
  case (Cons d a)
  then show ?case by (cases b) auto
qed

section \<open>The contract of a cache\<close>

locale key_cache =
  fixes get :: "instant \<Rightarrow> string \<Rightarrow> 'c \<Rightarrow> 'v option"
    and put :: "instant \<Rightarrow> string \<Rightarrow> 'v \<Rightarrow> 'c \<Rightarrow> 'c"
    and clear :: "instant \<Rightarrow> 'c \<Rightarrow> 'c"
    and ok :: "'c \<Rightarrow> bool"
    and ours :: "string \<Rightarrow> bool"
  assumes put_ok: "ok c \<Longrightarrow> ok (put t0 k v c)"
    and clear_ok: "ok c \<Longrightarrow> ok (clear t0 c)"
    and put_get: "ok c \<Longrightarrow> get t k' (put t0 k v c) = Some w \<Longrightarrow> k' = k \<and> w = v \<or> get t k' c = Some w"
    and clear_get: "ok c \<Longrightarrow> t0 \<le> t \<Longrightarrow> ours k \<Longrightarrow> get t k (clear t0 c) = None"
begin

text \<open>What is served after a sequence of stores was there before it or was stored by it.\<close>

lemma puts_get:
  assumes "ok c" and "get t k (fold (\<lambda>(t0, k, v). put t0 k v) ps c) = Some w"
  shows "(\<exists>t0. (t0, k, w) \<in> set ps) \<or> get t k c = Some w"
  using assms
proof (induction ps arbitrary: c)
  case (Cons p ps)
  obtain t0 k0 v0 where p: "p = (t0, k0, v0)" by (cases p)
  from Cons.prems have "ok (put t0 k0 v0 c)" "get t k (fold (\<lambda>(t0, k, v). put t0 k v) ps (put t0 k0 v0 c)) = Some w"
    by (simp_all add: p put_ok)
  from Cons.IH [OF this] show ?case using put_get [OF Cons.prems(1), of t k t0 k0 v0 w] p by auto
qed simp

text \<open>A hit after an invalidation was stored after that invalidation.\<close>

lemma hit_after_clear:
  assumes "ok c" and "t0 \<le> t" and "ours k"
    and "get t k (fold (\<lambda>(t0, k, v). put t0 k v) ps (clear t0 c)) = Some w"
  shows "\<exists>t1. (t1, k, w) \<in> set ps"
  using puts_get [OF clear_ok [OF assms(1)] assms(4)] clear_get [OF assms(1-3)] by auto

end

text \<open>The Redis cache on a connection that answers.\<close>

definition cache_up :: "RedisCache \<Rightarrow> bool" where
  "cache_up c \<longleftrightarrow> (\<exists>r. rc_client c = Some r \<and> rd_links r = [] \<and> (\<forall>ks. set (concat (rd_pages r ks)) = set ks))"

definition cache_get :: "instant \<Rightarrow> string \<Rightarrow> RedisCache \<Rightarrow> Message list option" where
  "cache_get now key c = (case fst (RedisCache_Get now key c) of Inl _ \<Rightarrow> None | Inr v \<Rightarrow> Some v)"

definition cache_put :: "instant \<Rightarrow> string \<Rightarrow> Message list \<Rightarrow> RedisCache \<Rightarrow> RedisCache" where
  "cache_put now key v c = snd (RedisCache_Set now key v c)"

lemma rd_next_up: "rd_links r = [] \<Longrightarrow> rd_next r = (Answered, r)"
  by (simp add: rd_next_def)

lemma rd_scan_pages_up: "rd_links r = [] \<Longrightarrow> rd_scan_pages ps r = (concat ps, r)"
  by (induction ps) (simp_all add: rd_next_up)

lemma cache_get_up:
  "rc_client c = Some r \<Longrightarrow> rd_links r = [] \<Longrightarrow>
   cache_get now key c = map_option ce_value (find (\<lambda>e. ce_key e = key \<and> rd_live now e) (rd_store r))"
  by (simp add: cache_get_def RedisCache_Get_def rd_get_def rd_next_up split: option.splits)

lemma find_other_key:
  "k' \<noteq> k \<Longrightarrow> find (\<lambda>e. ce_key e = k' \<and> P e) (filter (\<lambda>x. ce_key x \<noteq> k) es) = find (\<lambda>e. ce_key e = k' \<and> P e) es"
  by (induction es) auto

lemma find_none_filter: "find (\<lambda>e. ce_key e = k \<and> P e) (filter (\<lambda>x. ce_key x \<noteq> k) es) = None"
  by (simp add: find_None_iff)

section \<open>The entries\<close>

definition entries :: "RedisCache \<Rightarrow> cache_entry list" where
  "entries c = (case rc_client c of None \<Rightarrow> [] | Some r \<Rightarrow> rd_store r)"

lemma find_entry: "find P xs = Some x \<Longrightarrow> x \<in> set xs \<and> P x"
  by (induction xs) (auto split: if_splits)

lemma Get_entry:
  "RedisCache_Get now key c = (Inr ms, c') \<Longrightarrow> \<exists>e \<in> set (entries c). ce_key e = key \<and> ce_value e = ms \<and> rd_live now e"
  by (auto simp: RedisCache_Get_def rd_get_def rd_next_def entries_def dest!: find_entry
      split: option.splits list.splits prod.splits if_splits)

lemma Get_frame: "RedisCache_Get now key c = (x, c') \<Longrightarrow> entries c' = entries c \<and> rc_ttl c' = rc_ttl c"
  by (auto simp: RedisCache_Get_def rd_get_def rd_next_def entries_def split: option.splits list.splits prod.splits if_splits)

lemma Set_entries:
  "e \<in> set (entries (snd (RedisCache_Set now key ms c))) \<Longrightarrow>
   e \<in> set (entries c) \<or> e = \<lparr>ce_key = key, ce_value = ms, ce_expires = (if rc_ttl c > 0 then Some (now + rc_ttl c) else None)\<rparr>"
  "rc_ttl (snd (RedisCache_Set now key ms c)) = rc_ttl c"
  by (auto simp: RedisCache_Set_def rd_set_def rd_next_def Let_def entries_def split: option.splits list.splits prod.splits if_splits)

text \<open>A stored value is served until its time to live has passed; other keys are not touched.\<close>

lemma cache_get_put:
  assumes "cache_up c"
  shows "cache_get t k' (cache_put t0 k v c) =
    (if k' = k \<and> list_all json_times v then (if rc_ttl c > 0 \<and> t0 + rc_ttl c \<le> t then None else Some v) else cache_get t k' c)"
  using assms
  by (auto simp: cache_up_def cache_put_def RedisCache_Set_def rd_set_def rd_next_up Let_def cache_get_up
      find_none_filter find_other_key rd_live_def)

interpretation redis_cache: key_cache cache_get cache_put RedisCache_InvalidateZone cache_up grid_prefix
proof
  fix c t0 k v t k' w
  assume up: "cache_up c"
  then obtain r where r: "rc_client c = Some r" "rd_links r = []" "\<forall>ks. set (concat (rd_pages r ks)) = set ks"
    by (auto simp: cache_up_def)
  show "cache_up (cache_put t0 k v c)"
    using r by (auto simp: cache_put_def RedisCache_Set_def rd_set_def rd_next_up Let_def cache_up_def)
  show "cache_up (RedisCache_InvalidateZone t0 c)"
    using r by (simp add: RedisCache_InvalidateZone_def rd_scan_pages_up rd_del_def rd_next_up cache_up_def)
  show "k' = k \<and> w = v \<or> cache_get t k' c = Some w" if "cache_get t k' (cache_put t0 k v c) = Some w"
    using that by (auto simp: cache_get_put [OF up] split: if_splits)
  show "cache_get t k (RedisCache_InvalidateZone t0 c) = None" if "t0 \<le> t" "grid_prefix k"
  proof -
    let ?live = "filter grid_prefix (map ce_key (filter (rd_live t0) (rd_store r)))"
    have gone: "\<not> (ce_key e = k \<and> rd_live t e)" if "e \<in> set (rd_store r)" "ce_key e \<notin> set ?live" for e
      using that \<open>t0 \<le> t\<close> \<open>grid_prefix k\<close> by (auto simp: rd_live_def split: option.splits)
    have "set (concat (rd_pages r ?live)) = set ?live" using r(3) by blast
    then have "rc_client (RedisCache_InvalidateZone t0 c) =
        Some (r\<lparr>rd_store := filter (\<lambda>e. ce_key e \<notin> set ?live) (rd_store r)\<rparr>)"
      using r(1,2)
      by (cases "concat (rd_pages r ?live) = []")
        (simp_all add: RedisCache_InvalidateZone_def rd_scan_pages_up rd_del_def rd_next_up)
    then have "cache_get t k (RedisCache_InvalidateZone t0 c) =
        map_option ce_value (find (\<lambda>e. ce_key e = k \<and> rd_live t e) (filter (\<lambda>e. ce_key e \<notin> set ?live) (rd_store r)))"
      using r(2) by (simp add: cache_get_up)
    with gone show ?thesis by (auto simp: find_None_iff)
  qed
qed

text \<open>The cache never serves across an invalidation. On a connection that answers, and with a server whose scan
  returns every matching key, whatever \<open>Get\<close> returns for a key of \<open>GridKey\<close>'s form after
  \<open>InvalidateZone\<close> and any number of \<open>Set\<close>s was stored by one of those \<open>Set\<close>s under that key.\<close>

lemma Cache_no_stale_hit:
  assumes "rc_client c = Some r" and "rd_links r = []" and "\<forall>ks. set (concat (rd_pages r ks)) = set ks"
    and "t0 \<le> t" and "GridKey lat lng radius userID = Some key"
    and "RedisCache_Get t key (fold (\<lambda>(t1, k, v) c. snd (RedisCache_Set t1 k v c)) sets
           (RedisCache_InvalidateZone t0 c)) = (Inr ms, c')"
  shows "\<exists>t1. (t1, key, ms) \<in> set sets"
proof -
  have up: "cache_up c" using assms(1-3) by (auto simp: cache_up_def)
  have ours: "grid_prefix key"
    using assms(5) by (auto simp: GridKey_def grid_prefix_def split: option.splits)
  have "(\<lambda>(t1, k, v) c. snd (RedisCache_Set t1 k v c)) = (\<lambda>(t1, k, v). cache_put t1 k v)"
    by (auto simp: fun_eq_iff cache_put_def)
  with assms(6) have "cache_get t key (fold (\<lambda>(t1, k, v). cache_put t1 k v) sets (RedisCache_InvalidateZone t0 c)) = Some ms"
    by (simp add: cache_get_def)
  from redis_cache.hit_after_clear [OF up assms(4) ours this] show ?thesis .
qed

definition demo_cache :: RedisCache where
  "demo_cache = \<lparr>rc_client = Some \<lparr>rd_store = [\<lparr>ce_key = ''grid:1.000:2.000:5:anon'', ce_value = [], ce_expires = None\<rparr>],
     rd_links = [], rd_pages = (\<lambda>ks. [ks])\<rparr>, rc_ttl = 10\<rparr>"

lemma demo_cache_up:
  "rc_client demo_cache = Some (the (rc_client demo_cache))" "rd_links (the (rc_client demo_cache)) = []"
  "\<forall>ks. set (concat (rd_pages (the (rc_client demo_cache)) ks)) = set ks"
  by (simp_all add: demo_cache_def)

lemma Cache_no_stale_hit_witness:
  "fst (RedisCache_Get 3 ''grid:1.000:2.000:5:anon''
     (fold (\<lambda>(t1, k, v) c. snd (RedisCache_Set t1 k v c)) [(2, ''grid:1.000:2.000:5:anon'', [])]
        (RedisCache_InvalidateZone 1 demo_cache))) = Inr [] \<and>
   (\<exists>t1. (t1, ''grid:1.000:2.000:5:anon'', []) \<in> set [(2 :: instant, ''grid:1.000:2.000:5:anon'', [] :: Message list)])"
proof -
  let ?key = "''grid:1.000:2.000:5:anon''"
  let ?run = "RedisCache_Get 3 ?key (fold (\<lambda>(t1, k, v) c. snd (RedisCache_Set t1 k v c)) [(2, ?key, [])]
      (RedisCache_InvalidateZone 1 demo_cache))"
  have key: "GridKey (Finite 1) (Finite 2) 5 [] = Some ?key" by code_simp
  have hit: "fst ?run = Inr []"
    by (simp add: RedisCache_Get_def rd_get_def rd_next_def RedisCache_Set_def rd_set_def Let_def
        RedisCache_InvalidateZone_def rd_del_def demo_cache_def grid_prefix_def rd_live_def)
  then obtain c' where run: "?run = (Inr [], c')" by (metis prod.collapse)
  have "(1::instant) \<le> 3" by simp
  from Cache_no_stale_hit [OF demo_cache_up this key run] hit show ?thesis by (rule conjI [rotated])
qed

text \<open>A value that can be written and that \<open>Set\<close> stored is what \<open>Get\<close> returns, until the time to live has passed (never, when it is
  not positive), and \<open>Set\<close> does not change what other keys return. The connection answers.\<close>

lemma Cache_set_get:
  assumes "rc_client c = Some r" and "rd_links r = []" and "list_all json_times v"
  shows "fst (RedisCache_Set t0 k v c) = Inr () \<and>
    fst (RedisCache_Get t k (snd (RedisCache_Set t0 k v c))) =
      (if rc_ttl c > 0 \<and> t0 + rc_ttl c \<le> t then Inl (ErrLibrary ''redis: nil'') else Inr v) \<and>
    (\<forall>k'. k' \<noteq> k \<longrightarrow> fst (RedisCache_Get t k' (snd (RedisCache_Set t0 k v c))) = fst (RedisCache_Get t k' c))"
  using assms
  by (auto simp: RedisCache_Set_def rd_set_def rd_next_up Let_def RedisCache_Get_def rd_get_def
      find_none_filter find_other_key rd_live_def split: option.splits)

lemma Cache_set_get_witness:
  "fst (RedisCache_Get 5 ''k'' (snd (RedisCache_Set 0 ''k'' [] demo_cache))) = Inr [] \<and>
   fst (RedisCache_Get 10 ''k'' (snd (RedisCache_Set 0 ''k'' [] demo_cache))) = Inl (ErrLibrary ''redis: nil'')"
  using Cache_set_get [OF demo_cache_up(1,2), of "[]" 0 "''k''" 5]
    Cache_set_get [OF demo_cache_up(1,2), of "[]" 0 "''k''" 10]
  by (simp add: demo_cache_def)

section \<open>What a key identifies\<close>

lemma no_sep: "list_all is_digit s \<Longrightarrow> CHR '':'' \<notin> set s" "list_all is_digit s \<Longrightarrow> CHR ''.'' \<notin> set s"
  by (auto simp: list_all_iff is_digit_def)

lemma pad3_digits: "list_all is_digit (pad3 n)"
  by (simp add: pad3_def is_digit_digit_char)

lemma fmt_3f_no_sep: "CHR '':'' \<notin> set (fmt_3f x)"
  using no_sep(1) [OF dec_of_nat_digits] no_sep(1) [OF pad3_digits] by (auto simp: fmt_3f_def)

lemma fmt_float_no_sep: "CHR '':'' \<notin> set (fmt_float x)"
  by (cases x) (simp_all add: fmt_3f_no_sep)

lemma itoa_no_sep: "CHR '':'' \<notin> set (itoa i)"
  using no_sep(1) [OF dec_of_nat_digits] by (auto simp: itoa_def)

lemma nat_of_dec_pad3:
  assumes "n < 1000"
  shows "nat_of_dec (pad3 n) = n"
proof -
  have "n div 100 mod 10 = n div 10 div 10" using assms by (simp flip: div_mult2_eq)
  moreover have "nat_of_dec (pad3 n) = 100 * (n div 100 mod 10) + (10 * (n div 10 mod 10) + n mod 10)"
    by (simp add: pad3_def nat_of_dec_def byte_digit_char algebra_simps)
  ultimately show ?thesis using div_mult_mod_eq [of n 10] div_mult_mod_eq [of "n div 10" 10] by linarith
qed

lemma fmt_3f_inj:
  assumes "fmt_3f x = fmt_3f y"
  shows "(x < 0 \<longleftrightarrow> y < 0) \<and> millis x = millis y"
proof -
  let ?num = "\<lambda>x. dec_of_nat (millis x div 1000) @ CHR ''.'' # pad3 (millis x mod 1000)"
  have hd: "hd (?num x) \<noteq> CHR ''-''" for x
    using dec_of_nat_hd_digit [of "millis x div 1000"] by (auto simp: hd_append is_digit_def)
  then have head: "?num x \<noteq> CHR ''-'' # s" for x s by (metis list.sel(1))
  have num: "fmt_3f z = (if z < 0 then CHR ''-'' # ?num z else ?num z)" for z by (simp add: fmt_3f_def)
  have sign: "x < 0 \<longleftrightarrow> y < 0" using assms head [of x "?num y"] head [of y "?num x"] unfolding num [of x] num [of y]
    by (metis (full_types))
  with assms have "?num x = ?num y" unfolding num by (simp split: if_splits)
  then have "dec_of_nat (millis x div 1000) = dec_of_nat (millis y div 1000)"
    and pad: "pad3 (millis x mod 1000) = pad3 (millis y mod 1000)"
    using split_at_sep [OF no_sep(2) [OF dec_of_nat_digits] no_sep(2) [OF dec_of_nat_digits]] by blast+
  then have "millis x div 1000 = millis y div 1000" by simp
  moreover have "millis x mod 1000 = millis y mod 1000"
    using arg_cong [OF pad, of nat_of_dec] by (simp add: nat_of_dec_pad3)
  ultimately show ?thesis using sign by (metis div_mult_mod_eq)
qed

lemma fmt_3f_close:
  assumes "fmt_3f x = fmt_3f y"
  shows "\<bar>x - y\<bar> \<le> 1/1000"
proof -
  have "\<bar>real (millis x) / 1000 - \<bar>x\<bar>\<bar> \<le> 1/2000" "\<bar>real (millis x) / 1000 - \<bar>y\<bar>\<bar> \<le> 1/2000"
    using millis_close [of x] millis_close [of y] fmt_3f_inj [OF assms] by simp_all
  moreover have "\<bar>x - y\<bar> = \<bar>\<bar>x\<bar> - \<bar>y\<bar>\<bar>" using fmt_3f_inj [OF assms] by linarith
  ultimately show ?thesis by linarith
qed

lemma fmt_3f_special: "fmt_3f z \<noteq> ''NaN''" "fmt_3f z \<noteq> ''+Inf''" "fmt_3f z \<noteq> ''-Inf''"
proof -
  have "CHR ''.'' \<in> set (fmt_3f z)" by (simp add: fmt_3f_def)
  then show "fmt_3f z \<noteq> ''NaN''" "fmt_3f z \<noteq> ''+Inf''" "fmt_3f z \<noteq> ''-Inf''" by auto
qed

lemma fmt_float_alike:
  assumes "fmt_float x = fmt_float y"
  shows "\<not> is_finite x \<and> y = x \<or> (\<exists>a b. x = Finite a \<and> y = Finite b \<and> \<bar>a - b\<bar> \<le> 1/1000)"
  using assms fmt_3f_special fmt_3f_special [symmetric] fmt_3f_close by (cases x; cases y) simp_all

text \<open>C36: what a cache key identifies. There is no key (the slice expression panics) exactly for a user id of one to
  seven bytes. Two requests share a key exactly when their coordinates print alike with three decimals, their radii are
  equal, and both are anonymous or both have user ids with the same first eight bytes; then their coordinates are the same NaN or infinities, or
  they differ by at most a thousandth of a degree. Users whose ids share a prefix of eight bytes share keys.\<close>

theorem GridKey_identifies:
  "(GridKey lat lng radius userID = None \<longleftrightarrow> 0 < length userID \<and> length userID < 8) \<and>
   (GridKey lat lng radius userID = Some key \<and> GridKey lat' lng' radius' userID' = Some key' \<longrightarrow>
     (key = key' \<longleftrightarrow> fmt_float lat = fmt_float lat' \<and> fmt_float lng = fmt_float lng' \<and> radius = radius' \<and>
        (userID = [] \<longleftrightarrow> userID' = []) \<and> take 8 userID = take 8 userID') \<and>
     (key = key' \<longrightarrow> (\<forall>(x, y) \<in> {(lat, lat'), (lng, lng')}. \<not> is_finite x \<and> y = x \<or>
        (\<exists>a b. x = Finite a \<and> y = Finite b \<and> \<bar>a - b\<bar> \<le> 1/1000))))"
proof -
  have user: "key_user u = Some k \<Longrightarrow> key_user u' = Some k' \<Longrightarrow>
      k = k' \<longleftrightarrow> (u = [] \<longleftrightarrow> u' = []) \<and> take 8 u = take 8 u'" for u u' k k'
    by (auto simp: key_user_def split: if_splits dest: arg_cong [of _ _ length])
  have iff: "key = key' \<longleftrightarrow> fmt_float lat = fmt_float lat' \<and> fmt_float lng = fmt_float lng' \<and> radius = radius' \<and>
        (userID = [] \<longleftrightarrow> userID' = []) \<and> take 8 userID = take 8 userID'"
    if keys: "GridKey lat lng radius userID = Some key" "GridKey lat' lng' radius' userID' = Some key'"
  proof -
    from keys obtain k k' where k: "key_user userID = Some k" "key_user userID' = Some k'"
      by (auto simp: GridKey_def split: option.splits)
    with keys have "key = ''grid:'' @ fmt_float lat @ CHR '':'' # fmt_float lng @ CHR '':'' # itoa radius @ CHR '':'' # k"
      "key' = ''grid:'' @ fmt_float lat' @ CHR '':'' # fmt_float lng' @ CHR '':'' # itoa radius' @ CHR '':'' # k'"
      by (auto simp: GridKey_def)
    then have "key = key' \<longleftrightarrow> fmt_float lat = fmt_float lat' \<and> fmt_float lng = fmt_float lng' \<and> radius = radius' \<and> k = k'"
      by (simp only: same_append_eq split_at_sep [OF fmt_float_no_sep fmt_float_no_sep]
          split_at_sep [OF itoa_no_sep itoa_no_sep] itoa_inj)
    with user [OF k] show ?thesis by simp
  qed
  have "GridKey lat lng radius userID = None \<longleftrightarrow> 0 < length userID \<and> length userID < 8"
    by (simp add: GridKey_def key_user_def)
  moreover have "\<not> is_finite x \<and> y = x \<or> (\<exists>a b. x = Finite a \<and> y = Finite b \<and> \<bar>a - b\<bar> \<le> 1/1000)" if "fmt_float x = fmt_float y" for x y
    using fmt_float_alike [OF that] .
  ultimately show ?thesis using iff by blast
qed

lemma GridKey_identifies_witness:
  "GridKey (Finite 1) (Finite 2) 5 ''12345678-a'' = Some ''grid:1.000:2.000:5:12345678'' \<and>
   GridKey (Finite 1) (Finite 2) 5 ''12345678-b'' = Some ''grid:1.000:2.000:5:12345678'' \<and> GridKey (Finite 1) (Finite 2) 5 ''short'' = None"
proof -
  have a: "GridKey (Finite 1) (Finite 2) 5 ''12345678-a'' = Some ''grid:1.000:2.000:5:12345678''" by code_simp
  have "GridKey (Finite 1) (Finite 2) 5 ''12345678-b'' \<noteq> None"
    using GridKey_identifies [of "Finite 1" "Finite 2" 5 "''12345678-b''"] by simp
  then obtain k where b: "GridKey (Finite 1) (Finite 2) 5 ''12345678-b'' = Some k" by blast
  then have "''grid:1.000:2.000:5:12345678'' = k"
    using GridKey_identifies [of "Finite 1" "Finite 2" 5 "''12345678-a''" _ "Finite 1" "Finite 2" 5 "''12345678-b''" k] a by simp
  moreover have "GridKey (Finite 1) (Finite 2) 5 ''short'' = None" using GridKey_identifies [of "Finite 1" "Finite 2" 5 "''short''"] by simp
  ultimately show ?thesis using a b by simp
qed

end
