(* ===== verification/Ws_Hub.thy ===== *)
theory Ws_Hub
  imports Database
begin

text \<open>
  \<open>backend/internal/ws/hub.go\<close> and \<open>client.go\<close>: the hub of WebSocket clients and the two goroutines of each
  client, as an inductive step relation over the interleavings the locks allow. \<open>Register\<close> and \<open>Unregister\<close> hold
  the write lock and are one step each, possible only while no broadcast is under way; a broadcast
  holds the read lock and sends to one client per step, so broadcasts overlap with one another and with the pumps.
  A client is a number; \<open>cl_sent\<close> and \<open>cl_wire\<close> record what was put into its channel and what went out; \<open>h_offers\<close> records,
  apart from the clients, every visit of a broadcast to a client, whatever the \<open>select\<close> then does.
\<close>

section \<open>State\<close>

definition sendBufSize :: nat where
  "sendBufSize = 256"

text \<open>
  \<open>writePump\<close> is at its \<open>select\<close>, or has written the first message to an open writer, or has read how many
  messages are still to drain into it, or has returned, with the messages of a frame it could not finish.
\<close>

datatype writer = Select | Opened string | Frame "string list" nat | Returned "string list"

text \<open>\<open>readPump\<close> reads, or has left its loop and is about to unregister, or has returned.\<close>

datatype reader = Reading | Leaving | Gone

record client =
  cl_send :: "string list"
  cl_closed :: bool
  cl_conn_open :: bool
  cl_writer :: writer
  cl_reader :: reader
  cl_sent :: "string list"
  cl_wire :: "string list list"

record hub =
  h_clients :: "nat list"
  h_conns :: "nat \<Rightarrow> client option"
  h_active :: "(string \<times> nat list) list"
  h_pending :: "nat list"
  h_panic :: bool
  h_offers :: "(nat \<times> string) list"

text \<open>\<open>h_active\<close>: the broadcasts under way, each with its data and the clients still to visit;
  \<open>h_pending\<close>: the goroutines \<open>go h.Unregister(client)\<close> that have not run yet.\<close>

definition NewHub :: hub where
  "NewHub = \<lparr>h_clients = [], h_conns = (\<lambda>_. None), h_active = [], h_pending = [], h_panic = False, h_offers = []\<rparr>"

definition new_client :: client where
  "new_client = \<lparr>cl_send = [], cl_closed = False, cl_conn_open = True, cl_writer = Select, cl_reader = Reading,
     cl_sent = [], cl_wire = []\<rparr>"

definition upd_client :: "nat \<Rightarrow> (client \<Rightarrow> client) \<Rightarrow> hub \<Rightarrow> hub" where
  "upd_client c f h = h\<lparr>h_conns := (h_conns h)(c := map_option f (h_conns h c))\<rparr>"

section \<open>The hub\<close>

definition Hub_Register :: "nat \<Rightarrow> hub \<Rightarrow> hub" where
  "Hub_Register c h = h\<lparr>h_clients := List.insert c (h_clients h)\<rparr>"

text \<open>Closing a closed channel panics.\<close>

definition close_send :: "nat \<Rightarrow> hub \<Rightarrow> hub" where
  "close_send c h =
     (case h_conns h c of
        None \<Rightarrow> h
      | Some cl \<Rightarrow> if cl_closed cl then h\<lparr>h_panic := True\<rparr> else upd_client c (\<lambda>cl. cl\<lparr>cl_closed := True\<rparr>) h)"

definition Hub_Unregister :: "nat \<Rightarrow> hub \<Rightarrow> hub" where
  "Hub_Unregister c h =
     (if c \<in> set (h_clients h) then close_send c (h\<lparr>h_clients := removeAll c (h_clients h)\<rparr>) else h)"

text \<open>
  The body of the broadcast loop for one client, which is logged, and its \<open>select\<close>: sending on a closed channel panics; a full
  buffer takes the default branch.
\<close>

definition log_offer :: "string \<Rightarrow> nat \<Rightarrow> hub \<Rightarrow> hub" where
  "log_offer data c h = h\<lparr>h_offers := h_offers h @ [(c, data)]\<rparr>"

definition select_send :: "string \<Rightarrow> nat \<Rightarrow> hub \<Rightarrow> hub" where
  "select_send data c h =
     (case h_conns h c of
        None \<Rightarrow> h
      | Some cl \<Rightarrow>
          if cl_closed cl then h\<lparr>h_panic := True\<rparr>
          else if length (cl_send cl) < sendBufSize
          then upd_client c (\<lambda>cl. cl\<lparr>cl_send := cl_send cl @ [data], cl_sent := cl_sent cl @ [data]\<rparr>) h
          else h\<lparr>h_pending := h_pending h @ [c]\<rparr>)"

definition send_or_drop :: "string \<Rightarrow> nat \<Rightarrow> hub \<Rightarrow> hub" where
  "send_or_drop data c h = select_send data c (log_offer data c h)"

text \<open>The broadcasts that visited a client.\<close>

definition offered :: "hub \<Rightarrow> nat \<Rightarrow> string list" where
  "offered h c = map snd (filter (\<lambda>p. fst p = c) (h_offers h))"

record ws_Event =
  ev_Type :: string
  ev_Payload :: Message

text \<open>\<open>Broadcast\<close> run without interruption; \<open>marshal\<close> is the JSON encoder, \<open>None\<close> its error.\<close>

definition Hub_Broadcast :: "(ws_Event \<Rightarrow> string option) \<Rightarrow> ws_Event \<Rightarrow> hub \<Rightarrow> hub" where
  "Hub_Broadcast marshal e h =
     (case marshal e of None \<Rightarrow> h | Some data \<Rightarrow> fold (send_or_drop data) (h_clients h) h)"

definition Hub_BroadcastNewMessage :: "(ws_Event \<Rightarrow> string option) \<Rightarrow> Message \<Rightarrow> hub \<Rightarrow> hub" where
  "Hub_BroadcastNewMessage marshal payload = Hub_Broadcast marshal \<lparr>ev_Type = ''new_message'', ev_Payload = payload\<rparr>"

definition Hub_BroadcastNewLike :: "(ws_Event \<Rightarrow> string option) \<Rightarrow> Message \<Rightarrow> hub \<Rightarrow> hub" where
  "Hub_BroadcastNewLike marshal payload = Hub_Broadcast marshal \<lparr>ev_Type = ''new_like'', ev_Payload = payload\<rparr>"

definition Hub_BroadcastNewComment :: "(ws_Event \<Rightarrow> string option) \<Rightarrow> Message \<Rightarrow> hub \<Rightarrow> hub" where
  "Hub_BroadcastNewComment marshal payload = Hub_Broadcast marshal \<lparr>ev_Type = ''new_comment'', ev_Payload = payload\<rparr>"

section \<open>The pumps\<close>

definition ServeWS :: "nat \<Rightarrow> hub \<Rightarrow> hub" where
  "ServeWS c h = Hub_Register c (h\<lparr>h_conns := (h_conns h)(c \<mapsto> new_client)\<rparr>)"

text \<open>\<open>message, ok := <-c.send\<close> with a message there, then \<open>NextWriter\<close>, which may fail.\<close>

definition writePump_take :: "bool \<Rightarrow> client \<Rightarrow> client" where
  "writePump_take ok cl =
     (case cl_send cl of
        [] \<Rightarrow> cl
      | m # q \<Rightarrow> if ok then cl\<lparr>cl_send := q, cl_writer := Opened m\<rparr>
                 else cl\<lparr>cl_send := q, cl_writer := Returned [m], cl_conn_open := False\<rparr>)"

text \<open>\<open>n := len(c.send)\<close>.\<close>

definition writePump_measure :: "client \<Rightarrow> client" where
  "writePump_measure cl =
     (case cl_writer cl of Opened m \<Rightarrow> cl\<lparr>cl_writer := Frame [m] (length (cl_send cl))\<rparr> | _ \<Rightarrow> cl)"

definition writePump_drain :: "client \<Rightarrow> client" where
  "writePump_drain cl =
     (case (cl_writer cl, cl_send cl) of
        (Frame ms (Suc n), m # q) \<Rightarrow> cl\<lparr>cl_send := q, cl_writer := Frame (ms @ [m]) n\<rparr>
      | _ \<Rightarrow> cl)"

text \<open>\<open>w.Close()\<close> after the drain loop.\<close>

definition writePump_flush :: "bool \<Rightarrow> client \<Rightarrow> client" where
  "writePump_flush ok cl =
     (case cl_writer cl of
        Frame ms 0 \<Rightarrow> if ok then cl\<lparr>cl_wire := cl_wire cl @ [ms], cl_writer := Select\<rparr>
                      else cl\<lparr>cl_writer := Returned ms, cl_conn_open := False\<rparr>
      | _ \<Rightarrow> cl)"

text \<open>The channel is closed and empty, or a ping fails: \<open>writePump\<close> returns and closes the connection.\<close>

definition writePump_return :: "client \<Rightarrow> client" where
  "writePump_return cl = cl\<lparr>cl_writer := Returned [], cl_conn_open := False\<rparr>"

definition readPump_leave :: "client \<Rightarrow> client" where
  "readPump_leave cl = cl\<lparr>cl_reader := Leaving\<rparr>"

definition readPump_return :: "nat \<Rightarrow> hub \<Rightarrow> hub" where
  "readPump_return c h = upd_client c (\<lambda>cl. cl\<lparr>cl_reader := Gone, cl_conn_open := False\<rparr>) (Hub_Unregister c h)"

section \<open>Interleaving\<close>

inductive hub_step :: "hub \<Rightarrow> hub \<Rightarrow> bool" where
  serve: "h_active h = [] \<Longrightarrow> h_conns h c = None \<Longrightarrow> hub_step h (ServeWS c h)"
| begin_broadcast: "set cs = set (h_clients h) \<Longrightarrow> distinct cs \<Longrightarrow>
    hub_step h (h\<lparr>h_active := h_active h @ [(data, cs)]\<rparr>)"
| send: "h_active h = pre @ (data, c # cs) # post \<Longrightarrow>
    hub_step h (send_or_drop data c (h\<lparr>h_active := pre @ (data, cs) # post\<rparr>))"
| end_broadcast: "h_active h = pre @ (data, []) # post \<Longrightarrow> hub_step h (h\<lparr>h_active := pre @ post\<rparr>)"
| unregister_slow: "h_active h = [] \<Longrightarrow> h_pending h = pre @ c # post \<Longrightarrow>
    hub_step h (Hub_Unregister c (h\<lparr>h_pending := pre @ post\<rparr>))"
| take: "h_conns h c = Some cl \<Longrightarrow> cl_writer cl = Select \<Longrightarrow> cl_send cl \<noteq> [] \<Longrightarrow>
    hub_step h (upd_client c (writePump_take ok) h)"
| measure: "h_conns h c = Some cl \<Longrightarrow> cl_writer cl = Opened m \<Longrightarrow> hub_step h (upd_client c writePump_measure h)"
| drain: "h_conns h c = Some cl \<Longrightarrow> cl_writer cl = Frame ms (Suc n) \<Longrightarrow> cl_send cl \<noteq> [] \<Longrightarrow>
    hub_step h (upd_client c writePump_drain h)"
| flush: "h_conns h c = Some cl \<Longrightarrow> cl_writer cl = Frame ms 0 \<Longrightarrow>
    hub_step h (upd_client c (writePump_flush ok) h)"
| write_closed: "h_conns h c = Some cl \<Longrightarrow> cl_writer cl = Select \<Longrightarrow> cl_send cl = [] \<Longrightarrow> cl_closed cl \<Longrightarrow>
    hub_step h (upd_client c writePump_return h)"
| ping_fails: "h_conns h c = Some cl \<Longrightarrow> cl_writer cl = Select \<Longrightarrow> hub_step h (upd_client c writePump_return h)"
| read_fails: "h_conns h c = Some cl \<Longrightarrow> cl_reader cl = Reading \<Longrightarrow> hub_step h (upd_client c readPump_leave h)"
| unregister_self: "h_active h = [] \<Longrightarrow> h_conns h c = Some cl \<Longrightarrow> cl_reader cl = Leaving \<Longrightarrow>
    hub_step h (readPump_return c h)"

abbreviation hub_reachable :: "hub \<Rightarrow> bool" where
  "hub_reachable \<equiv> reachable (\<lambda>h. h = NewHub) hub_step"

lemma hub_reachable_start: "hub_reachable NewHub"
  by (rule reachable.start) simp

lemmas hub_reachable_step = reachable.step [where step = "hub_step"]

section \<open>The invariant\<close>

text \<open>What has left the channel but not reached the wire.\<close>

fun in_hand :: "writer \<Rightarrow> string list" where
  "in_hand Select = []"
| "in_hand (Opened m) = [m]"
| "in_hand (Frame ms n) = ms"
| "in_hand (Returned ms) = ms"

fun drain_left :: "writer \<Rightarrow> nat" where
  "drain_left (Frame ms n) = n"
| "drain_left _ = 0"

definition client_ok :: "client \<Rightarrow> bool" where
  "client_ok cl \<longleftrightarrow> length (cl_send cl) \<le> sendBufSize \<and> drain_left (cl_writer cl) \<le> length (cl_send cl) \<and>
     concat (cl_wire cl) @ in_hand (cl_writer cl) @ cl_send cl = cl_sent cl"

definition hub_ok :: "hub \<Rightarrow> bool" where
  "hub_ok h \<longleftrightarrow> \<not> h_panic h \<and> distinct (h_clients h) \<and>
     (\<forall>c. c \<in> set (h_clients h) \<longleftrightarrow> (\<exists>cl. h_conns h c = Some cl \<and> \<not> cl_closed cl)) \<and>
     (\<forall>c cl. h_conns h c = Some cl \<longrightarrow> client_ok cl) \<and>
     (\<forall>(data, cs) \<in> set (h_active h). set cs \<subseteq> set (h_clients h)) \<and>
     (\<forall>c cl. h_conns h c = Some cl \<and> cl_reader cl = Gone \<longrightarrow> cl_closed cl)"

lemma pumps_keep:
  assumes "client_ok cl"
  shows "cl_writer cl = Select \<Longrightarrow> client_ok (writePump_take ok cl)"
    "client_ok (writePump_measure cl)" "client_ok (writePump_drain cl)" "client_ok (writePump_flush ok cl)"
    "cl_writer cl = Select \<Longrightarrow> client_ok (writePump_return cl)" "client_ok (readPump_leave cl)"
proof -
  show "client_ok (writePump_take ok cl)" if "cl_writer cl = Select"
    using assms that by (auto simp: client_ok_def writePump_take_def split: list.splits)
  show "client_ok (writePump_measure cl)"
    using assms by (auto simp: client_ok_def writePump_measure_def split: writer.splits)
  show "client_ok (writePump_drain cl)"
    using assms by (auto simp: client_ok_def writePump_drain_def split: writer.splits list.splits nat.splits)
  show "client_ok (writePump_flush ok cl)"
    using assms by (auto simp: client_ok_def writePump_flush_def split: writer.splits nat.splits)
  show "client_ok (writePump_return cl)" if "cl_writer cl = Select"
    using assms that by (auto simp: client_ok_def writePump_return_def)
  show "client_ok (readPump_leave cl)" using assms by (auto simp: client_ok_def readPump_leave_def)
qed

lemma pumps_frame [simp]:
  "cl_closed (writePump_take ok cl) = cl_closed cl" "cl_reader (writePump_take ok cl) = cl_reader cl"
  "cl_closed (writePump_measure cl) = cl_closed cl" "cl_reader (writePump_measure cl) = cl_reader cl"
  "cl_closed (writePump_drain cl) = cl_closed cl" "cl_reader (writePump_drain cl) = cl_reader cl"
  "cl_closed (writePump_flush ok cl) = cl_closed cl" "cl_reader (writePump_flush ok cl) = cl_reader cl"
  "cl_closed (writePump_return cl) = cl_closed cl" "cl_reader (writePump_return cl) = cl_reader cl"
  "cl_closed (readPump_leave cl) = cl_closed cl" "cl_reader (readPump_leave cl) = Leaving"
  by (simp_all add: writePump_take_def writePump_measure_def writePump_drain_def writePump_flush_def
      writePump_return_def readPump_leave_def split: list.splits writer.splits nat.splits)

text \<open>A step of one client's pumps.\<close>

lemma upd_client_keeps:
  assumes "hub_ok h" and "h_conns h c = Some cl" and "client_ok (f cl)" and "cl_closed (f cl) = cl_closed cl"
    and "cl_reader (f cl) = Gone \<Longrightarrow> cl_closed cl"
  shows "hub_ok (upd_client c f h)"
  using assms unfolding hub_ok_def upd_client_def by auto

lemma hub_ok_client: "hub_ok h \<Longrightarrow> h_conns h c = Some cl \<Longrightarrow> client_ok cl"
  by (auto simp: hub_ok_def)

lemma hub_ok_gone: "hub_ok h \<Longrightarrow> h_conns h c = Some cl \<Longrightarrow> cl_reader cl = Gone \<Longrightarrow> cl_closed cl"
  by (auto simp: hub_ok_def)

lemma log_offer_fields [simp]:
  "h_clients (log_offer data c h) = h_clients h" "h_conns (log_offer data c h) = h_conns h" "h_active (log_offer data c h) = h_active h"
  "h_pending (log_offer data c h) = h_pending h" "h_panic (log_offer data c h) = h_panic h"
  "hub_ok (log_offer data c h) = hub_ok h"
  by (simp_all add: log_offer_def hub_ok_def)

lemma ServeWS_keeps: "hub_ok h \<Longrightarrow> h_active h = [] \<Longrightarrow> h_conns h c = None \<Longrightarrow> hub_ok (ServeWS c h)"
  by (auto simp: hub_ok_def ServeWS_def Hub_Register_def new_client_def client_ok_def)

text \<open>Unregistering while no broadcast is under way never closes a channel twice.\<close>

lemma Unregister_keeps:
  assumes "hub_ok h" and "h_active h = []"
  shows "hub_ok (Hub_Unregister c h)"
proof (cases "c \<in> set (h_clients h)")
  case True
  with assms(1) obtain cl where "h_conns h c = Some cl" "\<not> cl_closed cl" by (auto simp: hub_ok_def)
  with True assms show ?thesis
    by (auto simp: hub_ok_def Hub_Unregister_def close_send_def upd_client_def client_ok_def distinct_removeAll)
qed (use assms in \<open>simp add: Hub_Unregister_def\<close>)

lemma Unregister_removes:
  assumes "hub_ok h"
  shows "c \<notin> set (h_clients (Hub_Unregister c h))"
    and "h_conns (Hub_Unregister c h) c = Some cl \<Longrightarrow> h_active h = [] \<Longrightarrow> cl_closed cl"
proof -
  show *: "c \<notin> set (h_clients (Hub_Unregister c h))"
    by (auto simp: Hub_Unregister_def close_send_def upd_client_def split: option.splits)
  assume "h_conns (Hub_Unregister c h) c = Some cl" and "h_active h = []"
  with * Unregister_keeps [OF assms, of c] show "cl_closed cl" by (auto simp: hub_ok_def)
qed

text \<open>Sending to a registered client never hits a closed channel.\<close>

lemma send_keeps:
  assumes "hub_ok h" and "h_active h = pre @ (data, c # cs) # post"
  shows "hub_ok (send_or_drop data c (h\<lparr>h_active := pre @ (data, cs) # post\<rparr>))"
proof -
  from assms have "c \<in> set (h_clients h)" by (auto simp: hub_ok_def)
  with assms(1) obtain cl where cl: "h_conns h c = Some cl" "\<not> cl_closed cl" by (auto simp: hub_ok_def)
  have ok: "hub_ok (h\<lparr>h_active := pre @ (data, cs) # post\<rparr>)" using assms by (auto simp: hub_ok_def)
  show ?thesis
  proof (cases "length (cl_send cl) < sendBufSize")
    case True
    let ?f = "\<lambda>cl. cl\<lparr>cl_send := cl_send cl @ [data], cl_sent := cl_sent cl @ [data]\<rparr>"
    have "client_ok (?f cl)" using hub_ok_client [OF assms(1) cl(1)] True by (auto simp: client_ok_def)
    with ok cl hub_ok_gone [OF assms(1) cl(1)]
    have "hub_ok (upd_client c ?f (log_offer data c (h\<lparr>h_active := pre @ (data, cs) # post\<rparr>)))" by (intro upd_client_keeps) auto
    with cl True show ?thesis by (simp add: send_or_drop_def select_send_def)
  next
    case False
    with cl ok show ?thesis by (auto simp: send_or_drop_def select_send_def log_offer_def hub_ok_def)
  qed
qed

lemma hub_step_keeps: "hub_step h h' \<Longrightarrow> hub_ok h \<Longrightarrow> hub_ok h'"
proof (induction rule: hub_step.induct)
  case (serve h c)
  then show ?case by (simp add: ServeWS_keeps)
next
  case (begin_broadcast cs h data)
  then show ?case by (auto simp: hub_ok_def)
next
  case (send h pre data c cs post)
  then show ?case by (simp add: send_keeps)
next
  case (end_broadcast h pre data post)
  then show ?case by (auto simp: hub_ok_def)
next
  case (unregister_slow h pre c post)
  then have "hub_ok (h\<lparr>h_pending := pre @ post\<rparr>)" unfolding hub_ok_def by simp blast
  with unregister_slow show ?case by (simp add: Unregister_keeps)
next
  case (unregister_self h c cl)
  let ?h = "Hub_Unregister c h"
  have ok: "hub_ok ?h" using unregister_self by (simp add: Unregister_keeps)
  show ?case
  proof (cases "h_conns ?h c")
    case None
    then show ?thesis using ok by (simp add: readPump_return_def upd_client_def fun_upd_idem)
  next
    case (Some cl')
    have "cl_closed cl'" using Unregister_removes(2) [OF unregister_self.prems Some] unregister_self by simp
    then show ?thesis
      unfolding readPump_return_def using upd_client_keeps [OF ok Some] hub_ok_client [OF ok Some]
      by (simp add: client_ok_def)
  qed
qed (auto intro!: upd_client_keeps pumps_keep dest: hub_ok_client hub_ok_gone)

interpretation hub_run: step_system "\<lambda>h. h = NewHub" hub_step hub_ok
  by unfold_locales (simp add: NewHub_def hub_ok_def, erule (1) hub_step_keeps)

lemmas hub_reachable_ok = hub_run.reachable_inv

text \<open>C16: however registrations, broadcasts and the goroutines of the clients interleave, the hub never sends on a closed
  channel and never closes one twice (no panic), a channel is closed exactly when its client is no longer
  registered, no buffer exceeds its capacity of 256, and \<open>writePump\<close> never waits while it drains: the messages it
  counted are there.\<close>

theorem Hub_safe:
  assumes "hub_reachable h"
  shows "\<not> h_panic h \<and> (\<forall>c cl. h_conns h c = Some cl \<longrightarrow> (cl_closed cl \<longleftrightarrow> c \<notin> set (h_clients h)) \<and>
    length (cl_send cl) \<le> 256 \<and> (\<forall>ms n. cl_writer cl = Frame ms n \<longrightarrow> n \<le> length (cl_send cl)))"
  using hub_reachable_ok [OF assms] by (fastforce simp: hub_ok_def client_ok_def sendBufSize_def)

definition demo_hub :: hub where
  "demo_hub = ServeWS 1 NewHub"

lemma demo_hub_reachable: "hub_reachable demo_hub"
  unfolding demo_hub_def by (rule hub_reachable_step [OF hub_reachable_start hub_step.serve]) (simp_all add: NewHub_def)

lemma Hub_safe_witness: "\<not> h_panic demo_hub \<and> 1 \<in> set (h_clients demo_hub)"
  using Hub_safe [OF demo_hub_reachable] by (simp add: demo_hub_def ServeWS_def Hub_Register_def)

section \<open>Order and losses\<close>

text \<open>What a client was sent, compared with the broadcasts that visited it: who lost one is scheduled to be dropped, or was dropped.\<close>

definition log_ok :: "string list \<Rightarrow> bool \<Rightarrow> client \<Rightarrow> bool" where
  "log_ok offers dropped cl \<longleftrightarrow> subseq (cl_sent cl) offers \<and> (\<not> dropped \<and> \<not> cl_closed cl \<longrightarrow> cl_sent cl = offers)"

definition logs_ok :: "hub \<Rightarrow> bool" where
  "logs_ok h \<longleftrightarrow> (\<forall>c. case h_conns h c of None \<Rightarrow> offered h c = [] | Some cl \<Rightarrow> log_ok (offered h c) (c \<in> set (h_pending h)) cl)"

lemma logs_okI:
  assumes "\<And>c. h_conns h c = None \<Longrightarrow> offered h c = []"
    and "\<And>c cl. h_conns h c = Some cl \<Longrightarrow> log_ok (offered h c) (c \<in> set (h_pending h)) cl"
  shows "logs_ok h"
  using assms by (simp add: logs_ok_def split: option.split)

lemma logs_okD:
  assumes "logs_ok h"
  shows "h_conns h c = None \<Longrightarrow> offered h c = []"
    and "h_conns h c = Some cl \<Longrightarrow> log_ok (offered h c) (c \<in> set (h_pending h)) cl"
  using assms by (auto simp: logs_ok_def dest!: spec [of _ c])

text \<open>Whatever visits nobody and forgets no scheduled drop but that of a closed client.\<close>

lemma logs_ok_frame:
  assumes "logs_ok h" and "h_offers h' = h_offers h" and "\<And>c. h_conns h' c = None \<Longrightarrow> h_conns h c = None"
    and "\<And>c cl'. h_conns h' c = Some cl' \<Longrightarrow> \<exists>cl. h_conns h c = Some cl \<and> cl_sent cl' = cl_sent cl \<and>
      (c \<in> set (h_pending h) \<or> cl_closed cl \<longrightarrow> c \<in> set (h_pending h') \<or> cl_closed cl')"
  shows "logs_ok h'"
proof (rule logs_okI)
  have same: "offered h' c = offered h c" for c using assms(2) by (simp add: offered_def)
  show "offered h' c = []" if "h_conns h' c = None" for c using logs_okD(1) [OF assms(1) assms(3) [OF that]] same by simp
  show "log_ok (offered h' c) (c \<in> set (h_pending h')) cl'" if c: "h_conns h' c = Some cl'" for c cl'
  proof -
    from assms(4) [OF c] obtain cl where cl: "h_conns h c = Some cl" "cl_sent cl' = cl_sent cl"
      "c \<in> set (h_pending h) \<or> cl_closed cl \<longrightarrow> c \<in> set (h_pending h') \<or> cl_closed cl'" by blast
    from logs_okD(2) [OF assms(1) cl(1)] cl(2,3) show ?thesis by (auto simp: log_ok_def same)
  qed
qed

lemma pumps_sent [simp]:
  "cl_sent (writePump_take ok cl) = cl_sent cl" "cl_sent (writePump_measure cl) = cl_sent cl"
  "cl_sent (writePump_drain cl) = cl_sent cl" "cl_sent (writePump_flush ok cl) = cl_sent cl"
  "cl_sent (writePump_return cl) = cl_sent cl" "cl_sent (readPump_leave cl) = cl_sent cl"
  by (simp_all add: writePump_take_def writePump_measure_def writePump_drain_def writePump_flush_def
      writePump_return_def readPump_leave_def split: list.splits writer.splits nat.splits)

lemma upd_client_logs:
  assumes "logs_ok h" and "\<And>cl. cl_sent (f cl) = cl_sent cl" and "\<And>cl. cl_closed cl \<Longrightarrow> cl_closed (f cl)"
  shows "logs_ok (upd_client c f h)"
  by (rule logs_ok_frame [OF assms(1)]) (use assms(2,3) in \<open>auto simp: upd_client_def split: if_splits\<close>)

lemma Unregister_conns:
  "h_offers (Hub_Unregister c h) = h_offers h" "h_conns (Hub_Unregister c h) x = None \<longleftrightarrow> h_conns h x = None"
  "h_conns (Hub_Unregister c h) x = Some cl' \<Longrightarrow> \<exists>cl. h_conns h x = Some cl \<and> cl_sent cl' = cl_sent cl \<and> (cl_closed cl \<longrightarrow> cl_closed cl')"
  "h_pending (Hub_Unregister c h) = h_pending h"
  by (auto simp: Hub_Unregister_def close_send_def upd_client_def split: option.splits if_splits)

lemma Unregister_logs:
  assumes "logs_ok h"
  shows "logs_ok (Hub_Unregister c h)"
  by (rule logs_ok_frame [OF assms]) (use Unregister_conns in \<open>fastforce+\<close>)

lemma send_logs:
  assumes "logs_ok h" and "h_conns h c = Some cl" and "\<not> cl_closed cl"
  shows "logs_ok (send_or_drop data c h)"
proof -
  have off: "offered (send_or_drop data c h) x = offered h x @ (if x = c then [data] else [])" for x
    by (simp add: send_or_drop_def select_send_def log_offer_def offered_def upd_client_def split: option.splits)
  have c: "log_ok (offered h c) (c \<in> set (h_pending h)) cl" by (rule logs_okD(2) [OF assms(1,2)])
  show ?thesis
  proof (rule logs_okI)
    fix x assume "h_conns (send_or_drop data c h) x = None"
    with assms(2) have "x \<noteq> c" "h_conns h x = None"
      by (auto simp: send_or_drop_def select_send_def log_offer_def upd_client_def split: option.splits if_splits)
    with logs_okD(1) [OF assms(1)] show "offered (send_or_drop data c h) x = []" by (simp add: off)
  next
    fix x cl' assume x: "h_conns (send_or_drop data c h) x = Some cl'"
    show "log_ok (offered (send_or_drop data c h) x) (x \<in> set (h_pending (send_or_drop data c h))) cl'"
    proof (cases "x = c")
      case True
      with x assms(2,3) c show ?thesis unfolding off
        by (auto simp: send_or_drop_def select_send_def log_offer_def upd_client_def log_ok_def split: if_splits)
    next
      case False
      with x have "h_conns h x = Some cl'" "x \<in> set (h_pending (send_or_drop data c h)) \<longleftrightarrow> x \<in> set (h_pending h)"
        using assms(2,3) by (auto simp: send_or_drop_def select_send_def log_offer_def upd_client_def split: if_splits)
      with logs_okD(2) [OF assms(1)] False show ?thesis by (simp add: off)
    qed
  qed
qed

lemma hub_step_logs: "hub_step h h' \<Longrightarrow> hub_ok h \<Longrightarrow> logs_ok h \<Longrightarrow> logs_ok h'"
proof (induction rule: hub_step.induct)
  case (serve h c)
  show ?case
  proof (rule logs_okI)
    have off: "offered (ServeWS c h) x = offered h x" for x by (simp add: offered_def ServeWS_def Hub_Register_def)
    show "offered (ServeWS c h) x = []" if "h_conns (ServeWS c h) x = None" for x
      using that logs_okD(1) [OF serve(4)] unfolding off by (simp add: ServeWS_def Hub_Register_def split: if_splits)
    show "log_ok (offered (ServeWS c h) x) (x \<in> set (h_pending (ServeWS c h))) cl" if "h_conns (ServeWS c h) x = Some cl" for x cl
      using that logs_okD [OF serve(4)] serve(2) unfolding off
      by (auto simp: ServeWS_def Hub_Register_def new_client_def log_ok_def split: if_splits)
  qed
next
  case (begin_broadcast cs h data)
  show ?case by (rule logs_ok_frame [OF begin_broadcast(4)]) auto
next
  case (send h pre data c cs post)
  let ?h = "h\<lparr>h_active := pre @ (data, cs) # post\<rparr>"
  from send(1,2) have "c \<in> set (h_clients h)" by (auto simp: hub_ok_def)
  with send(2) obtain cl where cl: "h_conns ?h c = Some cl" "\<not> cl_closed cl" by (auto simp: hub_ok_def)
  have "logs_ok ?h" by (rule logs_ok_frame [OF send(3)]) auto
  then show ?case using cl by (rule send_logs)
next
  case (end_broadcast h pre data post)
  show ?case by (rule logs_ok_frame [OF end_broadcast(3)]) auto
next
  case (unregister_slow h pre c post)
  let ?h = "h\<lparr>h_pending := pre @ post\<rparr>"
  have "hub_ok ?h" using unregister_slow(3) unfolding hub_ok_def by simp blast
  then have closed: "h_conns (Hub_Unregister c ?h) c = Some cl' \<Longrightarrow> cl_closed cl'" for cl'
    using Unregister_removes(2) unregister_slow(1) by simp
  show ?case
    by (rule logs_ok_frame [OF unregister_slow(4)])
      (use Unregister_conns [of c ?h] closed unregister_slow(2) in \<open>fastforce+\<close>)
next
  case (unregister_self h c cl)
  show ?case unfolding readPump_return_def by (intro upd_client_logs Unregister_logs unregister_self) simp_all
qed (auto intro!: upd_client_logs)

interpretation hub_log_run: step_system "\<lambda>h. h = NewHub" hub_step "\<lambda>h. hub_ok h \<and> logs_ok h"
  by unfold_locales (simp add: NewHub_def hub_ok_def logs_ok_def offered_def, blast intro: hub_step_keeps hub_step_logs)

text \<open>C17: delivery to a client is in order and without duplicates, and without gaps as long as the hub keeps the client. What has gone out on the
  wire, with what is in \<open>writePump\<close>'s hand and in the channel after it, is a subsequence of the broadcasts that visited the client, in their order; it
  is all of them unless the client is scheduled to be dropped as too slow or has been dropped; and once \<open>writePump\<close> waits on an
  empty channel of a client that is not, every broadcast that visited the client has gone out.\<close>

theorem Hub_fifo:
  assumes "hub_reachable h" and "h_conns h c = Some cl"
  shows "concat (cl_wire cl) @ in_hand (cl_writer cl) @ cl_send cl = cl_sent cl \<and>
    subseq (cl_sent cl) (offered h c) \<and>
    (c \<notin> set (h_pending h) \<and> c \<in> set (h_clients h) \<longrightarrow>
       concat (cl_wire cl) @ in_hand (cl_writer cl) @ cl_send cl = offered h c \<and> prefix (concat (cl_wire cl)) (offered h c) \<and>
       (cl_writer cl = Select \<and> cl_send cl = [] \<longrightarrow> concat (cl_wire cl) = offered h c))"
proof -
  from hub_log_run.reachable_inv [OF assms(1)] have ok: "hub_ok h" and log: "logs_ok h" by blast+
  have eq: "concat (cl_wire cl) @ in_hand (cl_writer cl) @ cl_send cl = cl_sent cl"
    using hub_ok_client [OF ok assms(2)] by (simp add: client_ok_def)
  have sub: "subseq (cl_sent cl) (offered h c)" using logs_okD(2) [OF log assms(2)] by (simp add: log_ok_def)
  have "cl_sent cl = offered h c" if "c \<notin> set (h_pending h)" "c \<in> set (h_clients h)"
    using that logs_okD(2) [OF log assms(2)] ok assms(2) by (auto simp: log_ok_def hub_ok_def)
  with eq sub show ?thesis by (metis append.right_neutral append_assoc in_hand.simps(1) prefixI append_Nil)
qed

section \<open>A whole broadcast\<close>

lemma send_or_drop_active:
  "send_or_drop data c (h\<lparr>h_active := A\<rparr>) = (send_or_drop data c h)\<lparr>h_active := A\<rparr>"
  by (auto simp: send_or_drop_def select_send_def log_offer_def upd_client_def split: option.splits)

lemma send_or_drop_frame [simp]: "h_active (send_or_drop data c h) = h_active h" "h_clients (send_or_drop data c h) = h_clients h"
  by (auto simp: send_or_drop_def select_send_def log_offer_def upd_client_def split: option.splits)

lemma fold_send_frame [simp]: "h_active (fold (send_or_drop data) cs h) = h_active h" "h_clients (fold (send_or_drop data) cs h) = h_clients h"
  by (induction cs arbitrary: h) simp_all

lemma fold_send_steps:
  "hub_step\<^sup>*\<^sup>* (h\<lparr>h_active := A @ [(data, cs)]\<rparr>) ((fold (send_or_drop data) cs h)\<lparr>h_active := A @ [(data, [])]\<rparr>)"
proof (induction cs arbitrary: h)
  case (Cons c cs)
  have "hub_step (h\<lparr>h_active := A @ [(data, c # cs)]\<rparr>) (send_or_drop data c (h\<lparr>h_active := A @ [(data, cs)]\<rparr>))"
    using hub_step.send [of "h\<lparr>h_active := A @ [(data, c # cs)]\<rparr>" A data c cs "[]"] by simp
  then show ?case
    using Cons.IH [of "send_or_drop data c h"] by (simp add: send_or_drop_active converse_rtranclp_into_rtranclp)
qed simp

lemma Broadcast_steps: "hub_ok h \<Longrightarrow> hub_step\<^sup>*\<^sup>* h (Hub_Broadcast marshal e h)"
proof (cases "marshal e")
  case (Some data)
  assume ok: "hub_ok h"
  let ?cs = "h_clients h" and ?A = "h_active h"
  let ?last = "(fold (send_or_drop data) ?cs h)\<lparr>h_active := ?A @ [(data, [])]\<rparr>"
  have "hub_step h (h\<lparr>h_active := ?A @ [(data, ?cs)]\<rparr>)"
    using ok by (intro hub_step.begin_broadcast) (auto simp: hub_ok_def)
  also have "hub_step\<^sup>*\<^sup>* (h\<lparr>h_active := ?A @ [(data, ?cs)]\<rparr>) ?last" by (rule fold_send_steps)
  also have "hub_step ?last (?last\<lparr>h_active := ?A @ []\<rparr>)" by (rule hub_step.end_broadcast) simp
  also have "?last\<lparr>h_active := ?A @ []\<rparr> = Hub_Broadcast marshal e h"
    using fold_send_frame(1) [of data ?cs h] by (simp add: Hub_Broadcast_def Some)
  finally show ?thesis .
qed (simp add: Hub_Broadcast_def)

lemma send_or_drop_other:
  "c' \<noteq> c \<Longrightarrow> h_conns (send_or_drop data c h) c' = h_conns h c'"
  by (auto simp: send_or_drop_def select_send_def log_offer_def upd_client_def split: option.splits)

lemma send_or_drop_pending: "set (h_pending h) \<subseteq> set (h_pending (send_or_drop data c h))"
  by (auto simp: send_or_drop_def select_send_def log_offer_def upd_client_def split: option.splits)

lemma fold_send_pending: "set (h_pending h) \<subseteq> set (h_pending (fold (send_or_drop data) cs h))"
  by (induction cs arbitrary: h) (use send_or_drop_pending in fastforce)+

lemma fold_send_other: "c \<notin> set cs \<Longrightarrow> h_conns (fold (send_or_drop data) cs h) c = h_conns h c"
  by (induction cs arbitrary: h) (auto simp: send_or_drop_other)

lemma fold_send_effect:
  assumes "distinct cs" and "c \<in> set cs" and "h_conns h c = Some cl" and "\<not> cl_closed cl"
  shows "if length (cl_send cl) < sendBufSize
    then h_conns (fold (send_or_drop data) cs h) c =
      Some (cl\<lparr>cl_send := cl_send cl @ [data], cl_sent := cl_sent cl @ [data]\<rparr>)
    else h_conns (fold (send_or_drop data) cs h) c = Some cl \<and> c \<in> set (h_pending (fold (send_or_drop data) cs h))"
  using assms
proof (induction cs arbitrary: h)
  case (Cons x cs)
  show ?case
  proof (cases "x = c")
    case True
    with Cons.prems have c: "c \<notin> set cs" by simp
    have "send_or_drop data c h =
        (if length (cl_send cl) < sendBufSize
         then upd_client c (\<lambda>cl. cl\<lparr>cl_send := cl_send cl @ [data], cl_sent := cl_sent cl @ [data]\<rparr>) (log_offer data c h)
         else (log_offer data c h)\<lparr>h_pending := h_pending h @ [c]\<rparr>)"
      using Cons.prems(3,4) by (simp add: send_or_drop_def select_send_def)
    with c True Cons.prems(3) show ?thesis
      using fold_send_pending [of "send_or_drop data c h" data cs]
      by (auto simp: fold_send_other upd_client_def)
  next
    case False
    with Cons show ?thesis by (simp add: send_or_drop_other)
  qed
qed simp

text \<open>C18: what one broadcast does. It is a sequence of steps of the hub, so it leads to a reachable state; every registered
  client with room in its channel gets the event at the end of it; one with a full channel keeps its
  channel and is scheduled to be unregistered, which, once no broadcast is under way, takes it off the hub; clients that
  are not registered are not touched.\<close>

theorem Broadcast_reaches_all:
  assumes "hub_reachable h" and "marshal e = Some data" and "h' = Hub_Broadcast marshal e h"
  shows "hub_step\<^sup>*\<^sup>* h h' \<and> hub_reachable h' \<and> h_clients h' = h_clients h \<and>
    (\<forall>c \<in> set (h_clients h). \<exists>cl cl'. h_conns h c = Some cl \<and> h_conns h' c = Some cl' \<and>
       (if length (cl_send cl) < sendBufSize
        then cl_send cl' = cl_send cl @ [data]
        else cl' = cl \<and> c \<in> set (h_pending h') \<and> c \<notin> set (h_clients (Hub_Unregister c h')))) \<and>
    (\<forall>c. c \<notin> set (h_clients h) \<longrightarrow> h_conns h' c = h_conns h c)"
proof -
  have ok: "hub_ok h" by (rule hub_reachable_ok [OF assms(1)])
  have h': "h' = fold (send_or_drop data) (h_clients h) h" using assms(2,3) by (simp add: Hub_Broadcast_def)
  have steps: "hub_step\<^sup>*\<^sup>* h h'" using Broadcast_steps [OF ok, of marshal e] assms(3) by simp
  with assms(1) have reach: "hub_reachable h'" by (simp add: reachable_steps)
  have "\<exists>cl cl'. h_conns h c = Some cl \<and> h_conns h' c = Some cl' \<and>
      (if length (cl_send cl) < sendBufSize then cl_send cl' = cl_send cl @ [data]
       else cl' = cl \<and> c \<in> set (h_pending h') \<and> c \<notin> set (h_clients (Hub_Unregister c h')))"
    if c: "c \<in> set (h_clients h)" for c
  proof -
    from c ok obtain cl where cl: "h_conns h c = Some cl" "\<not> cl_closed cl" by (auto simp: hub_ok_def)
    have "distinct (h_clients h)" using ok by (simp add: hub_ok_def)
    from fold_send_effect [OF this c cl, of data] Unregister_removes(1) [OF hub_reachable_ok [OF reach], of c] cl(1)
    show ?thesis unfolding h' by (auto split: if_splits)
  qed
  with steps reach show ?thesis by (simp add: h' fold_send_other)
qed

lemma Broadcast_reaches_all_witness:
  "\<forall>p. \<exists>cl'. h_conns (Hub_Broadcast (\<lambda>e. Some (ev_Type e)) \<lparr>ev_Type = ''new_message'', ev_Payload = p\<rparr> demo_hub) 1 = Some cl' \<and>
     cl_send cl' = [''new_message'']"
proof
  fix p
  show "\<exists>cl'. h_conns (Hub_Broadcast (\<lambda>e. Some (ev_Type e)) \<lparr>ev_Type = ''new_message'', ev_Payload = p\<rparr> demo_hub) 1 = Some cl' \<and>
     cl_send cl' = [''new_message'']"
    using Broadcast_reaches_all [OF demo_hub_reachable, of "\<lambda>e. Some (ev_Type e)"
        "\<lparr>ev_Type = ''new_message'', ev_Payload = p\<rparr>" "''new_message''"]
    by (auto simp: demo_hub_def ServeWS_def Hub_Register_def new_client_def sendBufSize_def NewHub_def)
qed

text \<open>One broadcast to one client.\<close>

lemma demo_broadcast:
  "hub_reachable (Hub_Broadcast (\<lambda>e. Some ''hi'') e demo_hub)"
  "h_conns (Hub_Broadcast (\<lambda>e. Some ''hi'') e demo_hub) = (h_conns demo_hub)(1 \<mapsto> new_client\<lparr>cl_send := [''hi''], cl_sent := [''hi'']\<rparr>)"
  "h_pending (Hub_Broadcast (\<lambda>e. Some ''hi'') e demo_hub) = []" "h_clients (Hub_Broadcast (\<lambda>e. Some ''hi'') e demo_hub) = [1]"
proof -
  show "hub_reachable (Hub_Broadcast (\<lambda>e. Some ''hi'') e demo_hub)"
    by (rule reachable_steps [OF Broadcast_steps demo_hub_reachable]) (rule hub_reachable_ok [OF demo_hub_reachable])
qed (simp_all add: Hub_Broadcast_def demo_hub_def ServeWS_def Hub_Register_def NewHub_def send_or_drop_def select_send_def
    log_offer_def new_client_def sendBufSize_def upd_client_def)

lemma Hub_fifo_witness: "\<forall>e. offered (Hub_Broadcast (\<lambda>e. Some ''hi'') e demo_hub) 1 = [''hi'']"
proof
  fix e
  let ?h = "Hub_Broadcast (\<lambda>e. Some ''hi'') e demo_hub" and ?cl = "new_client\<lparr>cl_send := [''hi''], cl_sent := [''hi'']\<rparr>"
  have "h_conns ?h 1 = Some ?cl" by (simp add: demo_broadcast)
  from Hub_fifo [OF demo_broadcast(1) this] show "offered ?h 1 = [''hi'']" by (simp add: demo_broadcast new_client_def)
qed

section \<open>Progress\<close>

text \<open>How many steps \<open>writePump\<close> is away from an empty channel.\<close>

fun writer_work :: "client \<Rightarrow> nat" where
  "writer_work cl = 3 * length (cl_send cl) + (case cl_writer cl of Opened m \<Rightarrow> 2 | Frame ms n \<Rightarrow> 1 | _ \<Rightarrow> 0)"

definition writing :: "client \<Rightarrow> bool" where
  "writing cl \<longleftrightarrow> (case cl_writer cl of Returned ms \<Rightarrow> False | _ \<Rightarrow> True)"

text \<open>A running pump with something to do can do it: the drain loop never waits for a message.\<close>

lemma writePump_progress:
  assumes "hub_ok h" and "h_conns h c = Some cl" and "writing cl" and "\<not> (cl_writer cl = Select \<and> cl_send cl = [])"
  shows "\<exists>f. hub_step h (upd_client c f h) \<and> writer_work (f cl) < writer_work cl \<and> writing (f cl) \<and> cl_sent (f cl) = cl_sent cl"
proof (cases "cl_writer cl")
  case Select
  with assms have "hub_step h (upd_client c (writePump_take True) h)" by (intro hub_step.take) auto
  with Select assms(4) show ?thesis
    by (intro exI [of _ "writePump_take True"]) (auto simp: writePump_take_def writing_def split: list.splits)
next
  case (Opened m)
  with assms have "hub_step h (upd_client c writePump_measure h)" by (intro hub_step.measure)
  with Opened show ?thesis by (intro exI [of _ writePump_measure]) (auto simp: writePump_measure_def writing_def)
next
  case (Frame ms n)
  show ?thesis
  proof (cases n)
    case 0
    with Frame assms have "hub_step h (upd_client c (writePump_flush True) h)" by (intro hub_step.flush) auto
    with Frame 0 show ?thesis by (intro exI [of _ "writePump_flush True"]) (auto simp: writePump_flush_def writing_def)
  next
    case (Suc k)
    with Frame hub_ok_client [OF assms(1,2)] have "cl_send cl \<noteq> []" by (auto simp: client_ok_def)
    moreover from this Frame Suc assms have "hub_step h (upd_client c writePump_drain h)" by (intro hub_step.drain) auto
    ultimately show ?thesis using Frame Suc
      by (intro exI [of _ writePump_drain]) (auto simp: writePump_drain_def writing_def split: list.splits)
  qed
qed (use assms(3) in \<open>simp add: writing_def\<close>)

lemma upd_client_const: "upd_client c (\<lambda>_. x) (upd_client c f h) = upd_client c (\<lambda>_. x) h"
  by (simp add: upd_client_def option.map_comp comp_def)

lemma writePump_finishes:
  assumes "hub_ok h" and "h_conns h c = Some cl" and "writing cl"
  shows "\<exists>cl'. hub_step\<^sup>*\<^sup>* h (upd_client c (\<lambda>_. cl') h) \<and> cl_writer cl' = Select \<and> cl_send cl' = [] \<and>
    concat (cl_wire cl') = cl_sent cl"
  using assms
proof (induction "writer_work cl" arbitrary: h cl rule: less_induct)
  case less
  show ?case
  proof (cases "cl_writer cl = Select \<and> cl_send cl = []")
    case True
    with hub_ok_client [OF less.prems(1,2)] have "concat (cl_wire cl) = cl_sent cl" by (simp add: client_ok_def)
    moreover have "upd_client c (\<lambda>_. cl) h = h" by (simp add: upd_client_def less.prems(2) fun_upd_idem)
    ultimately show ?thesis using True by (intro exI [of _ cl]) simp
  next
    case False
    with writePump_progress [OF less.prems] obtain f where f: "hub_step h (upd_client c f h)" "writer_work (f cl) < writer_work cl"
      "writing (f cl)" "cl_sent (f cl) = cl_sent cl" by blast
    have "h_conns (upd_client c f h) c = Some (f cl)" by (simp add: upd_client_def less.prems(2))
    from less.hyps [OF f(2) hub_step_keeps [OF f(1) less.prems(1)] this f(3)] f(1,4) show ?thesis
      unfolding upd_client_const by (metis converse_rtranclp_into_rtranclp)
  qed
qed



text \<open>The broadcasts under way end, which releases the lock, and then the scheduled goroutines run.\<close>

lemma broadcast_progress:
  assumes "h_active h \<noteq> []"
  shows "\<exists>h1. hub_step h h1 \<and> set (h_pending h) \<subseteq> set (h_pending h1) \<and>
    sum_list (map (\<lambda>(d, cs). Suc (length cs)) (h_active h1)) < sum_list (map (\<lambda>(d, cs). Suc (length cs)) (h_active h))"
proof -
  from assms obtain data cs rest where h: "h_active h = (data, cs) # rest" by (cases "h_active h") auto
  show ?thesis
  proof (cases cs)
    case Nil
    with h hub_step.end_broadcast [of h "[]" data rest] show ?thesis by (intro exI [of _ "h\<lparr>h_active := rest\<rparr>"]) simp
  next
    case (Cons c cs')
    let ?h = "h\<lparr>h_active := (data, cs') # rest\<rparr>"
    have "hub_step h (send_or_drop data c ?h)" using hub_step.send [of h "[]" data c cs' rest] h Cons by simp
    then show ?thesis using h Cons send_or_drop_pending [of ?h data c] by (intro exI [of _ "send_or_drop data c ?h"]) simp
  qed
qed

lemma broadcasts_end:
  assumes "hub_ok h"
  shows "\<exists>h'. hub_step\<^sup>*\<^sup>* h h' \<and> h_active h' = [] \<and> set (h_pending h) \<subseteq> set (h_pending h')"
proof -
  have "\<exists>k. hub_step\<^sup>*\<^sup>* h k \<and> hub_ok k \<and> set (h_pending h) \<subseteq> set (h_pending k) \<and> h_active k = []"
    by (rule hub_run.progress [where left = "\<lambda>k. sum_list (map (\<lambda>(d, cs). Suc (length cs)) (h_active k))", OF assms order_refl])
      (drule broadcast_progress, blast)
  then show ?thesis by blast
qed

lemma Unregister_frame:
  "h_active (Hub_Unregister c h) = h_active h" "h_pending (Hub_Unregister c h) = h_pending h"
  "set (h_clients (Hub_Unregister c h)) = set (h_clients h) - {c}"
  by (auto simp: Hub_Unregister_def close_send_def upd_client_def split: option.splits)

lemma pending_run:
  assumes "hub_ok h" and "h_active h = []"
  shows "\<exists>h'. hub_step\<^sup>*\<^sup>* h h' \<and> h_active h' = [] \<and> h_pending h' = [] \<and>
     set (h_clients h') = set (h_clients h) - set (h_pending h)"
proof -
  let ?left = "\<lambda>k. set (h_clients k) - set (h_pending k)"
  have "\<exists>k. hub_step\<^sup>*\<^sup>* h k \<and> hub_ok k \<and> (h_active k = [] \<and> ?left k = ?left h) \<and> h_pending k = []"
  proof (rule hub_run.progress [where left = "\<lambda>k. length (h_pending k)"])
    fix k :: hub
    assume k: "h_active k = [] \<and> ?left k = ?left h" "h_pending k \<noteq> []"
    then obtain c cs where p: "h_pending k = c # cs" by (cases "h_pending k") auto
    with k(1) hub_step.unregister_slow [of k "[]" c cs] have "hub_step k (Hub_Unregister c (k\<lparr>h_pending := cs\<rparr>))" by simp
    with k(1) p show "\<exists>t. hub_step k t \<and> (h_active t = [] \<and> ?left t = ?left h) \<and> length (h_pending t) < length (h_pending k)"
      by (intro exI [of _ "Hub_Unregister c (k\<lparr>h_pending := cs\<rparr>)"]) (auto simp: Unregister_frame)
  qed (use assms in auto)
  then show ?thesis by auto
qed

text \<open>C20: the hub does not deadlock. From every reachable state the broadcasts under way can finish, the lock becomes free and every
  client that was scheduled to be dropped as too slow is unregistered and its channel closed.\<close>

theorem Hub_quiesces:
  assumes "hub_reachable h"
  shows "\<exists>h'. hub_step\<^sup>*\<^sup>* h h' \<and> h_active h' = [] \<and> h_pending h' = [] \<and>
    (\<forall>c \<in> set (h_pending h). c \<notin> set (h_clients h') \<and> (\<forall>cl. h_conns h' c = Some cl \<longrightarrow> cl_closed cl))"
proof -
  note ok = hub_reachable_ok [OF assms]
  from broadcasts_end [OF ok] obtain h1 where h1: "hub_step\<^sup>*\<^sup>* h h1" "h_active h1 = []"
    "set (h_pending h) \<subseteq> set (h_pending h1)" by blast
  from pending_run [OF hub_run.steps_inv [OF h1(1) ok] h1(2)] obtain h' where h': "hub_step\<^sup>*\<^sup>* h1 h'" "h_active h' = []" "h_pending h' = []"
    "set (h_clients h') = set (h_clients h1) - set (h_pending h1)" by blast
  have steps: "hub_step\<^sup>*\<^sup>* h h'" using h1(1) h'(1) by simp
  have "hub_ok h'" by (rule hub_run.steps_inv [OF steps ok])
  moreover have "c \<notin> set (h_clients h')" if "c \<in> set (h_pending h)" for c using that h1(3) h'(4) by auto
  ultimately show ?thesis using steps h'(2,3) unfolding hub_ok_def by blast
qed

lemma Hub_quiesces_witness:
  "\<exists>h'. hub_step\<^sup>*\<^sup>* (demo_hub\<lparr>h_active := [(''hi'', [1])]\<rparr>) h' \<and> h_active h' = []"
proof -
  have "hub_step demo_hub (demo_hub\<lparr>h_active := [(''hi'', [1])]\<rparr>)"
    using hub_step.begin_broadcast [of "[1]" demo_hub "''hi''"] by (simp add: demo_hub_def ServeWS_def Hub_Register_def NewHub_def)
  from Hub_quiesces [OF hub_reachable_step [OF demo_hub_reachable this]] show ?thesis by blast
qed

end
