(* ===== verification/Message_Service.thy ===== *)
theory Message_Service
  imports Gamification_Repo Redis_Cache Ws_Hub
begin

text \<open>
  \<open>backend/internal/service/message_service.go\<close>: the service that ties the repositories, the cache and the hub together. Its
  state \<open>app\<close> is what the process shares between requests.
\<close>

section \<open>State\<close>

record app =
  a_db :: db
  a_cache :: RedisCache
  a_hub :: hub

type_synonym 'a service = "(app, go_error, 'a) call"

text \<open>Which of the optional repositories the service was built with (\<open>main\<close> passes both).\<close>

record MessageService =
  ms_gamRepo :: bool
  ms_interactionRepo :: bool

definition NewMessageService :: "bool \<Rightarrow> bool \<Rightarrow> MessageService" where
  "NewMessageService gamRepo interactionRepo = \<lparr>ms_gamRepo = gamRepo, ms_interactionRepo = interactionRepo\<rparr>"

definition on_db :: "'a action \<Rightarrow> 'a service" where
  "on_db act a = (case act (a_db a) of (r, d) \<Rightarrow> (r, a\<lparr>a_db := d\<rparr>))"

section \<open>Create and Delete\<close>

definition mystery_mask :: "Message \<Rightarrow> Message" where
  "mystery_mask m = (if msg_MessageType m = ''mystery'' then m\<lparr>msg_Content := ''???''\<rparr> else m)"

definition record_creation :: "env \<Rightarrow> string \<Rightarrow> CreateMessageRequest \<Rightarrow> app \<Rightarrow> app" where
  "record_creation env userID req a =
     (let a1 = snd (on_db (GamificationRepo_RecordPost env userID (cmr_Latitude req) (cmr_Longitude req)) a);
          a2 = snd (on_db (GamificationRepo_CheckAndAwardBadges env userID) a1)
      in if cmr_MessageType req = ''capsule''
         then snd (on_db (GamificationRepo_AwardBadge env userID ''capsule_creator'') a2) else a2)"

definition MessageService_Create ::
  "MessageService \<Rightarrow> (ws_Event \<Rightarrow> string option) \<Rightarrow> env \<Rightarrow> string \<Rightarrow> CreateMessageRequest \<Rightarrow> Message service" where
  "MessageService_Create svc marshal env userID req a =
     (case on_db (MessageRepo_Create env userID req) a of
        (Inl e, a1) \<Rightarrow> (Inl e, a1)
      | (Inr msg, a1) \<Rightarrow>
          (let a2 = a1\<lparr>a_cache := RedisCache_InvalidateZone (go_now env) (a_cache a1)\<rparr>;
               a3 = a2\<lparr>a_hub := Hub_BroadcastNewMessage marshal (mystery_mask msg) (a_hub a2)\<rparr>;
               a4 = (if ms_gamRepo svc then record_creation env userID req a3 else a3)
           in (Inr msg, a4)))"

definition MessageService_Delete :: "env \<Rightarrow> string \<Rightarrow> string \<Rightarrow> unit service" where
  "MessageService_Delete env i userID a =
     (case on_db (MessageRepo_Delete env i userID) a of
        (Inl e, a1) \<Rightarrow> (Inl e, a1)
      | (Inr _, a1) \<Rightarrow> (Inr (), a1\<lparr>a_cache := RedisCache_InvalidateZone (go_now env) (a_cache a1)\<rparr>))"

definition MessageService_GetByUser :: "env \<Rightarrow> string \<Rightarrow> Message list service" where
  "MessageService_GetByUser env userID a = on_db (MessageRepo_GetByUser env userID) a"

section \<open>GetNearby\<close>

definition clamp_query :: "NearbyQuery \<Rightarrow> NearbyQuery" where
  "clamp_query q =
     (let q1 = (if nq_Radius q \<le> 0 then q\<lparr>nq_Radius := 1000\<rparr> else q)
      in if nq_Limit q1 \<le> 0 \<or> nq_Limit q1 > 50 then q1\<lparr>nq_Limit := 50\<rparr> else q1)"

definition cacheable :: "NearbyQuery \<Rightarrow> bool" where
  "cacheable q \<longleftrightarrow> nq_Hashtag q = [] \<and> (nq_Sort q = [] \<or> nq_Sort q = ''distance'')"

text \<open>The masking loop's body: the message as it is then, and whether it was masked. An error of \<open>IsUnlocked\<close> counts as not
  unlocked.\<close>

definition check_unlocked :: "env \<Rightarrow> string \<Rightarrow> string \<Rightarrow> db \<Rightarrow> bool \<times> db" where
  "check_unlocked env userID messageID d =
     (if userID = [] then (False, d)
      else (case MessageRepo_IsUnlocked env messageID userID d of
              (Inl e, d1) \<Rightarrow> (False, d1) | (Inr b, d1) \<Rightarrow> (b, d1)))"

definition mask_one :: "env \<Rightarrow> string \<Rightarrow> Message \<Rightarrow> db \<Rightarrow> (Message \<times> bool) \<times> db" where
  "mask_one env userID m d =
     (if msg_MessageType m = ''mystery'' \<and> (userID = [] \<or> msg_UserID m \<noteq> userID)
      then (case check_unlocked env userID (msg_ID m) d of
              (unlocked, d1) \<Rightarrow>
                if unlocked then ((m, False), d1) else ((m\<lparr>msg_Content := ''???''\<rparr>, True), d1))
      else ((m, False), d))"

fun mask_mystery :: "env \<Rightarrow> string \<Rightarrow> Message list \<Rightarrow> db \<Rightarrow> (Message list \<times> bool) \<times> db" where
  "mask_mystery env userID [] d = (([], False), d)"
| "mask_mystery env userID (m # ms) d =
     (case mask_one env userID m d of
        ((m', b), d1) \<Rightarrow>
          (case mask_mystery env userID ms d1 of
             ((ms', b'), d2) \<Rightarrow> ((m' # ms', b \<or> b'), d2)))"

definition enrich :: "MessageService \<Rightarrow> env \<Rightarrow> string \<Rightarrow> Message list \<Rightarrow> db \<Rightarrow> Message list \<times> db" where
  "enrich svc env userID ms d =
     (if ms_interactionRepo svc \<and> ms \<noteq> []
      then (case InteractionRepo_GetReactionsByMessages env (map msg_ID ms) userID d of
              (Inr (Some rm), d1) \<Rightarrow>
                (map (\<lambda>m. case map_of rm (msg_ID m) of Some r \<Rightarrow> m\<lparr>msg_Reactions := r\<rparr> | None \<Rightarrow> m) ms, d1)
            | (_, d1) \<Rightarrow> (ms, d1))
      else (ms, d))"

definition rankScore :: "instant \<Rightarrow> Message \<Rightarrow> real" where
  "rankScore now m =
     (let dist = (case msg_Distance m of Some x \<Rightarrow> if x > 0 then x else 1000 | None \<Rightarrow> 1000);
          distScore = 1 - min dist 1000 / 1000;
          likesScore = ln (1 + of_int (msg_LikesCount m)) / 5;
          hours = of_int (now - msg_CreatedAt m) / (3600 * 1000000000);
          recencyScore = exp (- hours / 8.66)
      in distScore * 0.4 + likesScore * 0.3 + recencyScore * 0.3)"

definition rank_messages :: "env \<Rightarrow> string \<Rightarrow> Message list \<Rightarrow> Message list" where
  "rank_messages env srt ms =
     (if srt = ''recent'' then sort_slice (\<lambda>a b. msg_CreatedAt a > msg_CreatedAt b) ms
      else if srt = ''popular'' then sort_slice (\<lambda>a b. msg_LikesCount a > msg_LikesCount b) ms
      else sort_slice (\<lambda>a b. rankScore (go_now env) a > rankScore (go_now env) b) ms)"

definition index_panic :: go_error where
  "index_panic = Panic ''slice bounds out of range''"

text \<open>From the repository call on; \<open>key\<close> is the cache key when the query may be cached.\<close>

definition fetch_nearby :: "MessageService \<Rightarrow> env \<Rightarrow> NearbyQuery \<Rightarrow> string option \<Rightarrow> Message list service" where
  "fetch_nearby svc env q key a =
     (case on_db (MessageRepo_GetNearby env q) a of
        (Inl e, a1) \<Rightarrow> (Inl e, a1)
      | (Inr ms0, a1) \<Rightarrow>
          (case mask_mystery env (nq_UserID q) ms0 (a_db a1) of
             ((ms1, masked), d2) \<Rightarrow>
               (case enrich svc env (nq_UserID q) ms1 d2 of
                  (ms2, d3) \<Rightarrow>
                    (let ms = rank_messages env (nq_Sort q) ms2; a2 = a1\<lparr>a_db := d3\<rparr>
                     in case key of
                          Some k \<Rightarrow> if masked then (Inr ms, a2)
                                    else (Inr ms, a2\<lparr>a_cache := snd (RedisCache_Set (go_now env) k ms (a_cache a2))\<rparr>)
                        | None \<Rightarrow> (Inr ms, a2)))))"

definition MessageService_GetNearby :: "MessageService \<Rightarrow> env \<Rightarrow> NearbyQuery \<Rightarrow> Message list service" where
  "MessageService_GetNearby svc env q0 a =
     (let q = clamp_query q0 in
      if cacheable q
      then (case GridKey (nq_Latitude q) (nq_Longitude q) (nq_Radius q) (nq_UserID q) of
              None \<Rightarrow> (Inl index_panic, a)
            | Some key \<Rightarrow>
                (case RedisCache_Get (go_now env) key (a_cache a) of
                   (Inr cached, c1) \<Rightarrow> (Inr cached, a\<lparr>a_cache := c1\<rparr>)
                 | (Inl e, c1) \<Rightarrow> fetch_nearby svc env q (Some key) (a\<lparr>a_cache := c1\<rparr>)))
      else fetch_nearby svc env q None a)"

section \<open>UnlockMystery\<close>

definition record_unlocked :: "env \<Rightarrow> string \<Rightarrow> app \<Rightarrow> app" where
  "record_unlocked env userID a =
     snd (on_db (GamificationRepo_CheckAndAwardBadges env userID) (snd (on_db (GamificationRepo_RecordUnlock env userID) a)))"

definition too_far :: "Message \<Rightarrow> bool" where
  "too_far m \<longleftrightarrow> (case msg_Distance m of None \<Rightarrow> False | Some x \<Rightarrow> x > of_int (msg_MysteryRadius m))"

text \<open>The part after the checks.\<close>

definition finish_unlock :: "MessageService \<Rightarrow> env \<Rightarrow> string \<Rightarrow> string \<Rightarrow> Message \<Rightarrow> (Message \<times> bool) service" where
  "finish_unlock svc env messageID userID target a =
     (case on_db (MessageRepo_UnlockMystery env messageID userID) a of
        (Inl e, a1) \<Rightarrow> (Inl e, a1)
      | (Inr newlyUnlocked, a1) \<Rightarrow>
          (let a2 = (if newlyUnlocked \<and> ms_gamRepo svc then record_unlocked env userID a1 else a1)
           in case on_db (MessageRepo_GetMessageContent env messageID) a2 of
                (Inl e, a3) \<Rightarrow> (Inr (target, newlyUnlocked), a3)
              | (Inr content, a3) \<Rightarrow> (Inr (target\<lparr>msg_Content := content\<rparr>, newlyUnlocked), a3)))"

definition unlock_query :: "string \<Rightarrow> real \<Rightarrow> real \<Rightarrow> NearbyQuery" where
  "unlock_query userID userLat userLng = \<lparr>nq_Latitude = Finite userLat, nq_Longitude = Finite userLng, nq_Radius = 1000,
     nq_Limit = 100, nq_Sort = [], nq_Hashtag = [], nq_UserID = userID\<rparr>"

definition MessageService_UnlockMystery ::
  "MessageService \<Rightarrow> env \<Rightarrow> string \<Rightarrow> string \<Rightarrow> real \<Rightarrow> real \<Rightarrow> (Message \<times> bool) service" where
  "MessageService_UnlockMystery svc env messageID userID userLat userLng a =
     (case on_db (MessageRepo_GetNearby env (unlock_query userID userLat userLng)) a of
        (Inl e, a1) \<Rightarrow> (Inl e, a1)
      | (Inr ms, a1) \<Rightarrow>
          (case find (\<lambda>m. msg_ID m = messageID) ms of
             None \<Rightarrow> (Inl ErrNotFound, a1)
           | Some target \<Rightarrow>
               if msg_MessageType target \<noteq> ''mystery'' then (Inr (target, False), a1)
               else if too_far target then (Inr (target, False), a1)
               else finish_unlock svc env messageID userID target a1))"

section \<open>Heatmap, leaderboard, events\<close>

definition MessageService_GetHeatmap :: "env \<Rightarrow> go_float \<Rightarrow> go_float \<Rightarrow> int \<Rightarrow> HeatmapPoint list service" where
  "MessageService_GetHeatmap env lat lng radius a =
     on_db (MessageRepo_GetHeatmap env lat lng (if radius > 5000 then 5000 else radius)) a"

definition MessageService_GetLeaderboard :: "env \<Rightarrow> go_float \<Rightarrow> go_float \<Rightarrow> int \<Rightarrow> int \<Rightarrow> LeaderboardEntry list service" where
  "MessageService_GetLeaderboard env lat lng radius limit a =
     on_db (MessageRepo_GetLeaderboard env lat lng (if radius > 10000 then 10000 else radius)
       (if limit > 50 then 50 else limit)) a"

definition MessageService_DetectEvents :: "env \<Rightarrow> go_float \<Rightarrow> go_float \<Rightarrow> int \<Rightarrow> Event list service" where
  "MessageService_DetectEvents env lat lng radius a =
     on_db (MessageRepo_DetectEvents env lat lng (if radius > 10000 then 10000 else radius)) a"

section \<open>The invariant of the process\<close>

definition app_ok :: "app \<Rightarrow> bool" where
  "app_ok a \<longleftrightarrow> db_ok (a_db a) \<and> hub_reachable (a_hub a)"

lemma on_db_eq: "on_db act a = (fst (act (a_db a)), a\<lparr>a_db := snd (act (a_db a))\<rparr>)"
  by (simp add: on_db_def split: prod.splits)

lemma app_ok_db: "app_ok a \<Longrightarrow> db_ok d \<Longrightarrow> app_ok (a\<lparr>a_db := d\<rparr>)"
  by (simp add: app_ok_def)

lemma app_ok_cache [simp]: "app_ok (a\<lparr>a_cache := c\<rparr>) = app_ok a"
  by (simp add: app_ok_def)

text \<open>A method that only calls the database, when the call keeps the database invariant.\<close>

lemma on_db_ok:
  assumes "app_ok a" and "\<And>d. db_ok d \<Longrightarrow> db_ok (snd (act d))"
  shows "app_ok (snd (on_db act a))"
  using assms by (simp add: on_db_eq app_ok_def)

lemma on_db_okD:
  assumes "on_db act a = (r, a')" and "app_ok a" and "\<And>d. db_ok d \<Longrightarrow> db_ok (snd (act d))"
  shows "app_ok a'"
  using on_db_ok [OF assms(2), of act] assms(1,3) by simp

lemma broadcast_ok: "app_ok a \<Longrightarrow> app_ok (a\<lparr>a_hub := Hub_BroadcastNewMessage marshal m (a_hub a)\<rparr>)"
  using reachable_steps [OF Broadcast_steps [OF hub_reachable_ok]]
  by (simp add: app_ok_def Hub_BroadcastNewMessage_def)

lemma AwardBadge_inv [db_inv]: "db_ok d \<Longrightarrow> db_ok (snd (GamificationRepo_AwardBadge env u b d))"
  by (simp add: GamificationRepo_AwardBadge_def award_badge_stmt.exec_keeps)

lemma record_creation_ok: "app_ok a \<Longrightarrow> app_ok (record_creation env u req a)"
  unfolding record_creation_def Let_def by (auto intro!: on_db_ok db_inv)

lemma record_unlocked_ok: "app_ok a \<Longrightarrow> app_ok (record_unlocked env u a)"
  unfolding record_unlocked_def by (auto intro!: on_db_ok db_inv)

lemma MessageService_Create_inv:
  assumes "app_ok a"
  shows "app_ok (snd (MessageService_Create svc marshal env u req a))"
proof -
  obtain r a1 where c: "on_db (MessageRepo_Create env u req) a = (r, a1)" by fastforce
  then have a1: "app_ok a1" using assms by (rule on_db_okD) (rule db_inv)
  let ?a2 = "a1\<lparr>a_cache := RedisCache_InvalidateZone (go_now env) (a_cache a1)\<rparr>"
  have "app_ok (?a2\<lparr>a_hub := Hub_BroadcastNewMessage marshal m (a_hub ?a2)\<rparr>)" for m
    using a1 by (intro broadcast_ok) simp
  with a1 show ?thesis
    by (cases r) (auto simp: MessageService_Create_def c Let_def intro: record_creation_ok)
qed

lemma MessageService_Delete_inv: "app_ok a \<Longrightarrow> app_ok (snd (MessageService_Delete env i u a))"
  using on_db_ok [of a "MessageRepo_Delete env i u"] MessageRepo_Delete_inv
  by (auto simp: MessageService_Delete_def split: prod.splits sum.splits)

lemma check_unlocked_ok: "check_unlocked env u i d = (b, d') \<Longrightarrow> db_ok d \<Longrightarrow> db_ok d'"
  using MessageRepo_reads_inv(2) [of d env i u]
  by (auto simp: check_unlocked_def split: if_splits prod.splits sum.splits)

lemma mask_one_ok: "mask_one env u m d = (x, d') \<Longrightarrow> db_ok d \<Longrightarrow> db_ok d'"
  by (auto simp: mask_one_def split: if_splits prod.splits dest: check_unlocked_ok)

lemma mask_mystery_ok: "mask_mystery env u ms d = (x, d') \<Longrightarrow> db_ok d \<Longrightarrow> db_ok d'"
  by (induction ms arbitrary: d x) (auto split: prod.splits dest: mask_one_ok)

lemma enrich_ok: "enrich svc env u ms d = (x, d') \<Longrightarrow> db_ok d \<Longrightarrow> db_ok d'"
  using interaction_methods_inv(8) [of d env "map msg_ID ms" u]
  by (auto simp: enrich_def split: if_splits prod.splits sum.splits option.splits)

lemma fetch_nearby_inv: "app_ok a \<Longrightarrow> app_ok (snd (fetch_nearby svc env q key a))"
  using MessageRepo_GetNearby_inv [of "a_db a" env q]
  by (auto simp: fetch_nearby_def on_db_eq app_ok_def Let_def split: sum.splits prod.splits option.splits
      dest!: mask_mystery_ok enrich_ok)

lemma MessageService_GetNearby_inv: "app_ok a \<Longrightarrow> app_ok (snd (MessageService_GetNearby svc env q a))"
  by (auto simp: MessageService_GetNearby_def Let_def fetch_nearby_inv split: option.splits sum.splits prod.splits)

lemma finish_unlock_inv:
  assumes "app_ok a"
  shows "app_ok (snd (finish_unlock svc env i u m a))"
proof -
  obtain r a1 where un: "on_db (MessageRepo_UnlockMystery env i u) a = (r, a1)" by fastforce
  then have "app_ok a1" using assms by (rule on_db_okD) (rule db_inv)
  then have "app_ok (snd (on_db (MessageRepo_GetMessageContent env i) (if c then record_unlocked env u a1 else a1)))" for c
    by (intro on_db_ok) (auto simp: record_unlocked_ok intro: db_inv)
  with \<open>app_ok a1\<close> show ?thesis
    by (auto simp: finish_unlock_def un Let_def split: sum.splits prod.splits) (metis snd_conv)+
qed

lemma MessageService_UnlockMystery_inv:
  assumes "app_ok a"
  shows "app_ok (snd (MessageService_UnlockMystery svc env i u lat lng a))"
proof -
  have "on_db (MessageRepo_GetNearby env q) a = (r, a1) \<Longrightarrow> app_ok a1" for q r a1
    using assms by (rule on_db_okD [rotated]) (rule db_inv)
  then show ?thesis
    by (auto simp: MessageService_UnlockMystery_def finish_unlock_inv split: prod.splits sum.splits option.splits)
qed

lemma MessageService_reads_inv:
  assumes "app_ok a"
  shows "app_ok (snd (MessageService_GetByUser env u a))" "app_ok (snd (MessageService_GetHeatmap env lat lng radius a))"
    "app_ok (snd (MessageService_GetLeaderboard env lat lng radius limit a))"
    "app_ok (snd (MessageService_DetectEvents env lat lng radius a))"
  unfolding MessageService_GetByUser_def MessageService_GetHeatmap_def MessageService_GetLeaderboard_def
    MessageService_DetectEvents_def
  by (rule on_db_ok [OF assms]; rule MessageRepo_reads_inv; assumption)+

section \<open>What GetNearby reveals\<close>

text \<open>A user may read a message that is no mystery, that is the user's own, or that the user has unlocked.\<close>

definition may_read :: "env \<Rightarrow> string \<Rightarrow> db \<Rightarrow> Message \<Rightarrow> bool" where
  "may_read env userID d m \<longleftrightarrow>
     msg_MessageType m \<noteq> ''mystery'' \<or>
     userID \<noteq> [] \<and>
       (msg_UserID m = userID \<or>
        (\<exists>mid uid. uuid_in env (msg_ID m) = Some mid \<and> uuid_in env userID = Some uid \<and>
           (\<exists>r \<in> set (t_unlocks d). kr_message_id r = mid \<and> kr_user_id r = uid)))"

lemma query_unlocks: "query q d = (r, d') \<Longrightarrow> t_unlocks d' = t_unlocks d"
  using query_tables [of q d r d'] by auto

lemma IsUnlocked_True:
  assumes "MessageRepo_IsUnlocked env i u d = (Inr True, d')"
  shows "\<exists>mid uid. uuid_in env i = Some mid \<and> uuid_in env u = Some uid \<and>
    (\<exists>r \<in> set (t_unlocks d). kr_message_id r = mid \<and> kr_user_id r = uid)"
  using query_InrD [OF assms [unfolded MessageRepo_IsUnlocked_def]]
  by (auto simp: is_unlocked_query_def uuid_param_def split: sum.splits option.splits)

lemma check_unlocked_sound:
  assumes "check_unlocked env u i d = (b, d')"
  shows "t_unlocks d' = t_unlocks d \<and> (b \<longrightarrow> u \<noteq> [] \<and> (\<exists>mid uid. uuid_in env i = Some mid \<and> uuid_in env u = Some uid \<and>
    (\<exists>r \<in> set (t_unlocks d). kr_message_id r = mid \<and> kr_user_id r = uid)))"
proof (cases "u = []")
  case False
  obtain r d1 where run: "MessageRepo_IsUnlocked env i u d = (r, d1)" by fastforce
  then have "t_unlocks d1 = t_unlocks d" unfolding MessageRepo_IsUnlocked_def by (rule query_unlocks)
  moreover have "d' = d1" "b \<longrightarrow> r = Inr True"
    using assms False run by (auto simp: check_unlocked_def split: sum.splits)
  ultimately show ?thesis using False IsUnlocked_True run by simp
qed (use assms in \<open>simp add: check_unlocked_def\<close>)

lemma mask_one_safe:
  assumes "mask_one env u m d = ((m', b), d')"
  shows "t_unlocks d' = t_unlocks d \<and> (if b then m' = m\<lparr>msg_Content := ''???''\<rparr> else m' = m \<and> may_read env u d m)"
  using assms
  by (auto simp: mask_one_def may_read_def split: if_splits prod.splits dest!: check_unlocked_sound)

lemma may_read_cong: "t_unlocks d' = t_unlocks d \<Longrightarrow> may_read env u d' m = may_read env u d m"
  by (simp add: may_read_def)

lemma may_read_fields [simp]:
  "may_read env u d (m\<lparr>msg_Content := c\<rparr>) = may_read env u d m"
  "may_read env u d (m\<lparr>msg_Reactions := r\<rparr>) = may_read env u d m"
  by (simp_all add: may_read_def)

lemma mask_mystery_safe:
  assumes "mask_mystery env u ms d = ((ms', b), d')"
  shows "t_unlocks d' = t_unlocks d \<and> map msg_ID ms' = map msg_ID ms \<and>
    (\<forall>m \<in> set ms'. msg_Content m = ''???'' \<or> may_read env u d m) \<and> (\<not> b \<longrightarrow> (\<forall>m \<in> set ms'. may_read env u d m))"
  using assms
proof (induction ms arbitrary: d ms' b)
  case (Cons m ms)
  from Cons.prems obtain m1 b1 d1 ms1 b2 where one: "mask_one env u m d = ((m1, b1), d1)"
    and rest: "mask_mystery env u ms d1 = ((ms1, b2), d')" and out: "ms' = m1 # ms1" "b = (b1 \<or> b2)"
    by (auto split: prod.splits)
  note 1 = mask_one_safe [OF one] and 2 = Cons.IH [OF rest]
  from 1 have "may_read env u d1 = may_read env u d" by (intro ext may_read_cong) simp
  with 1 2 out show ?case by (auto split: if_splits)
qed simp

text \<open>Adding reactions and sorting change neither content nor who may read.\<close>

lemma enrich_safe:
  assumes "enrich svc env u ms d = (ms', d')" and "\<And>m r. P (m\<lparr>msg_Reactions := r\<rparr>) = P m"
  shows "(\<forall>m \<in> set ms'. P m) = (\<forall>m \<in> set ms. P m) \<and> length ms' = length ms"
proof -
  have "P (case x of None \<Rightarrow> m | Some r \<Rightarrow> m\<lparr>msg_Reactions := r\<rparr>) = P m" for x m
    by (simp add: assms(2) split: option.splits)
  then show ?thesis
    using assms(1) by (auto simp: enrich_def split: if_splits prod.splits sum.splits option.splits)
qed

lemma rank_messages_set [simp]:
  "set (rank_messages env srt ms) = set ms" "length (rank_messages env srt ms) = length ms"
  by (simp_all add: rank_messages_def)

lemma repo_GetNearby_Inr:
  assumes "MessageRepo_GetNearby env q d = (Inr ms, d')"
  shows "t_unlocks d' = t_unlocks d \<and> length ms \<le> nat (nq_Limit q) \<and>
    set ms \<subseteq> set (get_nearby_messages env (nq_Latitude q) (nq_Longitude q) (nq_Radius q) (nq_Limit q)
      (query_user env (nq_UserID q)) d)"
proof -
  let ?got = "get_nearby_messages env (nq_Latitude q) (nq_Longitude q) (nq_Radius q) (nq_Limit q) (query_user env (nq_UserID q)) d"
  from GetNearby_rows(1) [OF assms] obtain n where ms: "ms = hashtag_filter env (nq_Hashtag q) (take n ?got)" ..
  have "set ms \<subseteq> set (take n ?got)" "length ms \<le> length (take n ?got)" unfolding ms by (rule hashtag_filter_le)+
  moreover have "length (take n ?got) \<le> nat (nq_Limit q)" by (simp add: get_nearby_messages_def)
  moreover have "t_unlocks d' = t_unlocks d" using GetNearby_rows(2) [OF assms] by auto
  ultimately show ?thesis using set_take_subset [of n ?got] by auto
qed

text \<open>The order each sort mode promises.\<close>

definition ranked :: "env \<Rightarrow> string \<Rightarrow> Message list \<Rightarrow> bool" where
  "ranked env srt ms \<longleftrightarrow>
     (if srt = ''recent'' then sorted_wrt (\<lambda>a b. msg_CreatedAt b \<le> msg_CreatedAt a) ms
      else if srt = ''popular'' then sorted_wrt (\<lambda>a b. msg_LikesCount b \<le> msg_LikesCount a) ms
      else sorted_wrt (\<lambda>a b. rankScore (go_now env) b \<le> rankScore (go_now env) a) ms)"

lemma rank_messages_ranked: "ranked env srt (rank_messages env srt ms)"
  by (simp add: ranked_def rank_messages_def sorted_sort_slice_desc)

lemma fetch_nearby_safe:
  assumes "fetch_nearby svc env q key a = (Inr ms, a')"
  shows "(\<forall>m \<in> set ms. msg_Content m = ''???'' \<or> may_read env (nq_UserID q) (a_db a) m) \<and>
    length ms \<le> nat (nq_Limit q) \<and> ranked env (nq_Sort q) ms \<and>
    ((\<exists>m \<in> set ms. \<not> may_read env (nq_UserID q) (a_db a) m) \<longrightarrow> a_cache a' = a_cache a) \<and>
    (\<forall>e \<in> set (entries (a_cache a')). e \<in> set (entries (a_cache a)) \<or> key = Some (ce_key e) \<and> ce_value e = ms)"
proof -
  let ?u = "nq_UserID q"
  from assms obtain ms0 d1 ms1 masked d2 ms2 d3 where
    g: "MessageRepo_GetNearby env q (a_db a) = (Inr ms0, d1)" and
    k: "mask_mystery env ?u ms0 d1 = ((ms1, masked), d2)" and
    n: "enrich svc env ?u ms1 d2 = (ms2, d3)" and
    ms: "ms = rank_messages env (nq_Sort q) ms2" and
    c: "masked \<longrightarrow> a_cache a' = a_cache a" and
    a': "a_cache a' = a_cache a \<or> (\<exists>k. key = Some k \<and> a_cache a' = snd (RedisCache_Set (go_now env) k ms (a_cache a)))"
    by (cases key) (auto simp: fetch_nearby_def on_db_def Let_def split: prod.splits sum.splits if_splits)
  note 1 = repo_GetNearby_Inr [OF g] and 2 = mask_mystery_safe [OF k]
  have read: "may_read env ?u d1 m = may_read env ?u (a_db a) m" for m using 1 by (intro may_read_cong) simp
  have len: "length ms1 = length ms0" using 2 by (metis length_map)
  have "(\<forall>m \<in> set ms2. msg_Content m = ''???'' \<or> may_read env ?u (a_db a) m) \<and> length ms2 = length ms1"
    using enrich_safe [OF n, of "\<lambda>m. msg_Content m = ''???'' \<or> may_read env ?u (a_db a) m"] 2 read by simp
  moreover have "masked" if "\<exists>m \<in> set ms2. \<not> may_read env ?u (a_db a) m"
    using enrich_safe [OF n, of "may_read env ?u (a_db a)"] 2 read that by auto
  moreover have "e \<in> set (entries (a_cache a)) \<or> key = Some (ce_key e) \<and> ce_value e = ms" if "e \<in> set (entries (a_cache a'))" for e
    using a' that Set_entries(1) by fastforce
  ultimately show ?thesis using 1 len c rank_messages_ranked by (auto simp: ms)
qed

text \<open>C10: what the nearby feed reveals. A list that is read from the database has at most fifty messages in
  the order of the sort mode, and the content of a mystery message of someone else that the
  user has not unlocked is masked in it; it is put into the cache, under the key of the request, only if the user may read all its
  messages. A list that is found in the cache is returned as it was stored, without another check: for a request of a user whose key
  is that of another (\<open>GridKey_identifies\<close>), the one that the other was allowed to read.\<close>

theorem GetNearby_masks:
  assumes "MessageService_GetNearby svc env q a = (Inr ms, a')"
  shows "if cacheable (clamp_query q) \<and> (\<exists>key v c. GridKey (nq_Latitude q) (nq_Longitude q) (nq_Radius (clamp_query q)) (nq_UserID q) = Some key \<and>
       RedisCache_Get (go_now env) key (a_cache a) = (Inr v, c))
    then a_db a' = a_db a \<and> entries (a_cache a') = entries (a_cache a) \<and>
      (\<exists>e \<in> set (entries (a_cache a)). ce_value e = ms \<and> rd_live (go_now env) e \<and>
        GridKey (nq_Latitude q) (nq_Longitude q) (nq_Radius (clamp_query q)) (nq_UserID q) = Some (ce_key e))
    else (\<forall>m \<in> set ms. msg_Content m = ''???'' \<or> may_read env (nq_UserID q) (a_db a) m) \<and>
      length ms \<le> 50 \<and> ranked env (nq_Sort q) ms \<and>
      ((\<exists>m \<in> set ms. \<not> may_read env (nq_UserID q) (a_db a) m) \<longrightarrow>
         map_option rd_store (rc_client (a_cache a')) = map_option rd_store (rc_client (a_cache a))) \<and>
      (\<forall>e \<in> set (entries (a_cache a')). e \<in> set (entries (a_cache a)) \<or> ce_value e = ms \<and>
         GridKey (nq_Latitude q) (nq_Longitude q) (nq_Radius (clamp_query q)) (nq_UserID q) = Some (ce_key e))"
    (is "if ?hit then ?stored else ?fresh")
proof -
  let ?q = "clamp_query q"
  have q: "nq_UserID ?q = nq_UserID q" "nq_Sort ?q = nq_Sort q" "nq_Latitude ?q = nq_Latitude q"
    "nq_Longitude ?q = nq_Longitude q" "nat (nq_Limit ?q) \<le> 50"
    by (auto simp: clamp_query_def Let_def)
  have ?stored if ?hit
  proof -
    from that assms obtain key c where "GridKey (nq_Latitude q) (nq_Longitude q) (nq_Radius ?q) (nq_UserID q) = Some key"
      "RedisCache_Get (go_now env) key (a_cache a) = (Inr ms, c)" "a' = a\<lparr>a_cache := c\<rparr>"
      by (auto simp: MessageService_GetNearby_def q)
    with Get_entry Get_frame show ?thesis by fastforce
  qed
  moreover have ?fresh if "\<not> ?hit"
  proof -
    have miss: "RedisCache_Get (go_now env) key (a_cache a) \<noteq> (Inr v, c)"
      if "cacheable ?q" "GridKey (nq_Latitude q) (nq_Longitude q) (nq_Radius ?q) (nq_UserID q) = Some key" for key v c
      using that \<open>\<not> ?hit\<close> by blast
    from assms obtain key a1 where run: "fetch_nearby svc env ?q key a1 = (Inr ms, a')" and db: "a_db a1 = a_db a"
      and st: "map_option rd_store (rc_client (a_cache a1)) = map_option rd_store (rc_client (a_cache a))"
      and key: "key = None \<or> key = GridKey (nq_Latitude q) (nq_Longitude q) (nq_Radius ?q) (nq_UserID q)"
    proof (cases "cacheable ?q")
      case True
      with assms miss obtain k e c where "GridKey (nq_Latitude q) (nq_Longitude q) (nq_Radius ?q) (nq_UserID q) = Some k"
        "RedisCache_Get (go_now env) k (a_cache a) = (Inl e, c)" "fetch_nearby svc env ?q (Some k) (a\<lparr>a_cache := c\<rparr>) = (Inr ms, a')"
        by (auto simp: MessageService_GetNearby_def Let_def q index_panic_def split: option.splits prod.splits sum.splits)
      then show ?thesis
        by (intro that [of "Some k" "a\<lparr>a_cache := c\<rparr>"])
          (auto simp: RedisCache_Get_def rd_get_def rd_next_def split: option.splits prod.splits list.splits if_splits)
    qed (auto simp: MessageService_GetNearby_def Let_def)
    have "entries (a_cache a1) = entries (a_cache a)" using st by (auto simp: entries_def split: option.splits)
    with fetch_nearby_safe [OF run] q db st key show ?thesis by auto
  qed
  ultimately show ?thesis by (simp only: if_bool_eq_conj) blast
qed

definition demo_mystery :: message_row where
  "demo_mystery = (demo_message ''m2'' ''alice'')\<lparr>mr_message_type := ''mystery'', mr_content := ''secret''\<rparr>"

text \<open>One mystery message of \<open>alice\<close> at the origin, no cache, no WebSocket client.\<close>

definition demo_app :: app where
  "demo_app = \<lparr>a_db = demo_db\<lparr>t_messages := [demo_mystery]\<rparr>, a_cache = \<lparr>rc_client = None, rc_ttl = 10\<rparr>, a_hub = NewHub\<rparr>"

definition demo_service :: MessageService where
  "demo_service = \<lparr>ms_gamRepo = True, ms_interactionRepo = True\<rparr>"

definition demo_found :: "real \<Rightarrow> Message" where
  "demo_found x = (scan_message (demo_mystery, demo_user ''alice'' ''alice''))\<lparr>msg_Distance := Some x\<rparr>"

lemma demo_app_links: "t_links (a_db demo_app) = []"
  by (simp add: demo_app_def demo_db_def empty_db_def)

lemma demo_nearby:
  assumes "nq_Longitude q = Finite x" and "nq_Latitude q = Finite y" and "\<bar>x\<bar> + \<bar>y\<bar> \<le> of_int (nq_Radius q)"
    and "int4_ok (nq_Radius q)" and "int4_ok (nq_Limit q)" and "0 < nq_Limit q" and "nq_Hashtag q = []"
  shows "MessageRepo_GetNearby demo_env q (a_db demo_app) = (Inr [demo_found (\<bar>x\<bar> + \<bar>y\<bar>)], a_db demo_app)"
proof -
  have "filter (nearby_where demo_env (Finite y) (Finite x) (nq_Radius q) uid) (t_messages (a_db demo_app)) =
      t_messages (a_db demo_app)" for uid
    unfolding nearby_where_demo
    using assms(3) by (simp add: demo_app_def demo_mystery_def demo_message_def visible_to_def live_def)
  moreover have "join_users (a_db demo_app) (t_messages (a_db demo_app)) = [(demo_mystery, demo_user ''alice'' ''alice'')]"
    by (simp add: join_users_def demo_app_def demo_db_def demo_mystery_def demo_message_def demo_user_def)
  moreover have "row_distance demo_env (Finite y) (Finite x) demo_mystery = \<bar>x\<bar> + \<bar>y\<bar>"
    by (simp add: row_distance_def demo_env_def demo_mystery_def demo_message_def)
  ultimately have g: "get_nearby_messages demo_env (Finite y) (Finite x) (nq_Radius q) (nq_Limit q) uid (a_db demo_app) =
      [demo_found (\<bar>x\<bar> + \<bar>y\<bar>)]" for uid
    using assms(6) by (simp add: get_nearby_messages_def demo_found_def)
  have "uuid_in demo_env u = Some u" if "u \<noteq> []" for u using that by (simp add: demo_env_def)
  with assms show ?thesis
    by (simp add: MessageRepo_GetNearby_def query_rows_up demo_app_links nearby_query_def g uuid_param_def hashtag_filter_def)
qed

lemma demo_found_fields [simp]:
  "msg_ID (demo_found x) = ''m2''" "msg_UserID (demo_found x) = ''alice''" "msg_MessageType (demo_found x) = ''mystery''"
  "msg_Content (demo_found x) = ''secret''" "msg_Distance (demo_found x) = Some x" "msg_MysteryRadius (demo_found x) = 50"
  by (simp_all add: demo_found_def demo_mystery_def demo_message_def scan_message_def)

lemma mask_mystery_frame:
  assumes "mask_mystery env u ms d = ((ms', b), d')" and "\<And>m c. P (m\<lparr>msg_Content := c\<rparr>) = P m"
  shows "(\<forall>m \<in> set ms'. P m) = (\<forall>m \<in> set ms. P m) \<and> length ms' = length ms"
  using assms(1)
proof (induction ms arbitrary: d ms' b)
  case (Cons m ms)
  from Cons.prems obtain m1 b1 d1 ms1 b2 where one: "mask_one env u m d = ((m1, b1), d1)"
    and rest: "mask_mystery env u ms d1 = ((ms1, b2), d')" and out: "ms' = m1 # ms1"
    by (auto split: prod.splits)
  from one have "P m1 = P m" using assms(2) by (auto simp: mask_one_def split: if_splits prod.splits)
  with Cons.IH [OF rest] out show ?case by simp
qed simp

lemma fetch_nearby_Inr:
  assumes "MessageRepo_GetNearby env q (a_db a) = (Inr ms0, d1)"
    and P: "\<And>m c. P (m\<lparr>msg_Content := c\<rparr>) = P m" "\<And>m r. P (m\<lparr>msg_Reactions := r\<rparr>) = P m"
  shows "\<exists>ms a'. fetch_nearby svc env q key a = (Inr ms, a') \<and> length ms = length ms0 \<and>
    (\<forall>m \<in> set ms. P m) = (\<forall>m \<in> set ms0. P m)"
proof -
  obtain ms1 b d2 where k: "mask_mystery env (nq_UserID q) ms0 d1 = ((ms1, b), d2)" by (metis prod.exhaust)
  obtain ms2 d3 where n: "enrich svc env (nq_UserID q) ms1 d2 = (ms2, d3)" by (metis prod.exhaust)
  from assms(1) k n have "\<exists>a'. fetch_nearby svc env q key a = (Inr (rank_messages env (nq_Sort q) ms2), a')"
    by (cases key; cases b) (simp_all add: fetch_nearby_def on_db_def Let_def)
  with mask_mystery_frame [OF k P(1)] enrich_safe [OF n P(2)] show ?thesis by fastforce
qed

lemma GetNearby_masks_witness:
  "\<exists>ms a'. MessageService_GetNearby demo_service demo_env (demo_query\<lparr>nq_UserID := [], nq_Sort := ''recent''\<rparr>) demo_app = (Inr ms, a') \<and>
     map msg_Content ms = [''???'']"
proof -
  let ?q = "demo_query\<lparr>nq_UserID := [], nq_Sort := ''recent''\<rparr>"
  have q: "\<not> cacheable ?q" "clamp_query ?q = ?q" by (simp_all add: cacheable_def clamp_query_def demo_query_def Let_def)
  have "MessageRepo_GetNearby demo_env ?q (a_db demo_app) = (Inr [demo_found 3], a_db demo_app)"
    using demo_nearby [of ?q 2 1] by (simp add: demo_query_def int4_ok_def)
  from fetch_nearby_Inr [OF this, of "\<lambda>m. msg_MessageType m = ''mystery''" demo_service None] obtain ms a'
    where "fetch_nearby demo_service demo_env ?q None demo_app = (Inr ms, a')" and one: "length ms = 1"
      and ty: "\<forall>m \<in> set ms. msg_MessageType m = ''mystery''"
    by auto
  then have run: "MessageService_GetNearby demo_service demo_env ?q demo_app = (Inr ms, a')"
    by (simp add: MessageService_GetNearby_def q Let_def)
  have "\<forall>m \<in> set ms. msg_Content m = ''???''"
    using GetNearby_masks [OF run] ty q by (auto simp: may_read_def)
  with one have "map msg_Content ms = [''???'']" by (auto simp: length_Suc_conv)
  with run show ?thesis by (intro exI conjI)
qed

section \<open>The geofence\<close>

lemma get_nearby_row:
  assumes "MessageRepo_GetNearby env q d = (Inr ms, d')" and "find (\<lambda>m. msg_ID m = i) ms = Some x"
  shows "\<exists>m \<in> set (t_messages d). mr_id m = i \<and> msg_ID x = i \<and> msg_Content x = mr_content m \<and> msg_MessageType x = mr_message_type m \<and>
    msg_MysteryRadius x = mr_mystery_radius m \<and> visible_to (query_user env (nq_UserID q)) m \<and> live env m \<and> \<not> mr_is_hidden m \<and>
    msg_Distance x = Some (st_distance env (mr_lng m, mr_lat m) (nq_Longitude q, nq_Latitude q))"
proof -
  have "x \<in> set ms" "msg_ID x = i" using find_Some_in [OF assms(2)] by auto
  with repo_GetNearby_Inr [OF assms(1)] obtain m where "m \<in> set (t_messages d)"
    "nearby_where env (nq_Latitude q) (nq_Longitude q) (nq_Radius q) (query_user env (nq_UserID q)) m"
    "\<exists>u. x = (scan_message (m, u))\<lparr>msg_Distance := Some (row_distance env (nq_Latitude q) (nq_Longitude q) m)\<rparr>"
    by (blast dest: get_nearby_sound)
  with \<open>msg_ID x = i\<close> show ?thesis
    by (intro bexI [of _ m]) (auto simp: nearby_where_def row_distance_def scan_message_def)
qed

lemma query_messages: "query q d = (r, d') \<Longrightarrow> t_messages d' = t_messages d \<and> t_unlocks d' = t_unlocks d"
  using query_tables [of q d r d'] by auto

lemma repo_GetNearby_tables:
  "MessageRepo_GetNearby env q d = (r, d') \<Longrightarrow> t_messages d' = t_messages d \<and> t_unlocks d' = t_unlocks d"
  by (auto simp: MessageRepo_GetNearby_def split: prod.splits sum.splits dest!: query_rows_tables)

text \<open>C11: the geofence. Whatever the connection does, \<open>UnlockMystery\<close> changes the unlocks only for a message that is a
  mystery, live, not hidden, visible to the user, and no farther from the position the user sent than its mystery
  radius; and only then does it report a new unlock.\<close>

theorem UnlockMystery_geofence:
  assumes "MessageService_UnlockMystery svc env messageID userID lat lng a = (r, a')"
    and "t_unlocks (a_db a') \<noteq> t_unlocks (a_db a) \<or> (\<exists>m. r = Inr (m, True))"
  shows "\<exists>m \<in> set (t_messages (a_db a)). mr_id m = messageID \<and> mr_message_type m = ''mystery'' \<and>
    live env m \<and> \<not> mr_is_hidden m \<and> visible_to (query_user env userID) m \<and>
    st_distance env (mr_lng m, mr_lat m) (Finite lng, Finite lat) \<le> of_int (mr_mystery_radius m)"
proof -
  let ?q = "unlock_query userID lat lng"
  obtain g d1 where g: "MessageRepo_GetNearby env ?q (a_db a) = (g, d1)" by fastforce
  note same = repo_GetNearby_tables [OF g]
  from assms g same obtain ms x where ms: "g = Inr ms" and x: "find (\<lambda>m. msg_ID m = messageID) ms = Some x"
    and ty: "msg_MessageType x = ''mystery''" and near: "\<not> too_far x"
    by (auto simp: MessageService_UnlockMystery_def on_db_def split: sum.splits option.splits if_splits)
  from get_nearby_row [OF g [unfolded ms] x] ty near show ?thesis
    by (auto simp: too_far_def unlock_query_def not_less)
qed

lemma finish_unlock_Inr:
  "MessageRepo_UnlockMystery env i u (a_db a) = (Inr b, d1) \<Longrightarrow> \<exists>m a'. finish_unlock svc env i u t a = (Inr (m, b), a')"
  by (auto simp: finish_unlock_def on_db_eq Let_def split: sum.splits)

lemma UnlockMystery_geofence_witness:
  "(\<exists>m a'. MessageService_UnlockMystery demo_service demo_env ''m2'' ''bobby'' 10 20 demo_app = (Inr (m, True), a')) \<and>
   (\<exists>m \<in> set (t_messages (a_db demo_app)). mr_message_type m = ''mystery'' \<and>
      st_distance demo_env (mr_lng m, mr_lat m) (Finite 20, Finite 10) \<le> of_int (mr_mystery_radius m))"
proof -
  have near: "MessageRepo_GetNearby demo_env (unlock_query ''bobby'' 10 20) (a_db demo_app) =
      (Inr [demo_found 30], a_db demo_app)"
    using demo_nearby [of "unlock_query ''bobby'' 10 20" 20 10] by (simp add: unlock_query_def int4_ok_def)
  have "fst (MessageRepo_UnlockMystery demo_env ''m2'' ''bobby'' (a_db demo_app)) = Inr True"
    by (simp add: MessageRepo_UnlockMystery_def exec_up demo_app_links unlock_stmt_def uuid_param_def insert_unlock_def
        has_message_def has_user_def demo_app_def demo_mystery_def demo_db_def empty_db_def demo_env_def demo_message_def demo_user_def)
  then obtain d1 where "MessageRepo_UnlockMystery demo_env ''m2'' ''bobby'' (a_db demo_app) = (Inr True, d1)"
    by (metis prod.collapse)
  from finish_unlock_Inr [OF this, of demo_service "demo_found 30"] obtain m a'
    where "finish_unlock demo_service demo_env ''m2'' ''bobby'' (demo_found 30) demo_app = (Inr (m, True), a')" by blast
  then have run: "MessageService_UnlockMystery demo_service demo_env ''m2'' ''bobby'' 10 20 demo_app = (Inr (m, True), a')"
    by (simp add: MessageService_UnlockMystery_def on_db_eq near too_far_def)
  then have "t_unlocks (a_db a') \<noteq> t_unlocks (a_db demo_app) \<or> (\<exists>x. Inr (m, True) = Inr (x, True))" by blast
  from UnlockMystery_geofence [OF run this] run show ?thesis by blast
qed

text \<open>
  The content of a mystery message goes to a user who is too far away, or who has not unlocked it: the early returns hand
  out the row as the repository read it.
\<close>

lemma UnlockMystery_leaks:
  assumes "MessageService_UnlockMystery svc env messageID userID lat lng a = (Inr (m, False), a')"
    and "too_far m" and "msg_MessageType m = ''mystery''"
  shows "\<exists>row \<in> set (t_messages (a_db a)). mr_id row = messageID \<and> msg_Content m = mr_content row"
proof -
  let ?q = "unlock_query userID lat lng"
  obtain g d1 where g: "MessageRepo_GetNearby env ?q (a_db a) = (g, d1)" by fastforce
  from assms(1) g obtain ms x where ms: "g = Inr ms" and x: "find (\<lambda>m. msg_ID m = messageID) ms = Some x"
    and m: "m = x \<or> (\<exists>c. m = x\<lparr>msg_Content := c\<rparr>) \<and> \<not> too_far x"
    by (auto simp: MessageService_UnlockMystery_def on_db_def finish_unlock_def Let_def
        split: prod.splits sum.splits option.splits if_splits)
  have "too_far (x\<lparr>msg_Content := c\<rparr>) = too_far x" for c by (simp add: too_far_def split: option.splits)
  with m assms(2) have "m = x" by auto
  with get_nearby_row [OF g [unfolded ms] x] show ?thesis by auto
qed

section \<open>Publication\<close>

text \<open>Recording a post changes no message.\<close>

lemma exec_messages:
  assumes "exec st d = (r, d')" and "\<And>d x d'. st d = (Inr x, d') \<Longrightarrow> t_messages d' = t_messages d"
  shows "t_messages d' = t_messages d"
  using exec_cases [OF assms(1)] assms(2) by auto

lemma gamification_messages:
  "t_messages (snd (GamificationRepo_AwardBadge env u t d)) = t_messages d"
  "t_messages (snd (GamificationRepo_RecordPost env u lat lng d)) = t_messages d"
  unfolding GamificationRepo_AwardBadge_def GamificationRepo_RecordPost_def
  by (rule exec_messages [OF surjective_pairing],
      auto simp: award_badge_stmt_def insert_badge_def gen_uuid_def record_post_stmt_def upsert_streak_def
        split: sum.splits if_splits)+

lemma CheckAndAwardBadges_messages: "t_messages (snd (GamificationRepo_CheckAndAwardBadges env u d)) = t_messages d"
proof -
  have award: "t_messages (award_if c env u t x) = t_messages x" for c t x
    by (simp add: award_if_def gamification_messages)
  have "t_messages (snd (GamificationRepo_GetStreak env u d)) = t_messages d"
    by (auto simp: GamificationRepo_GetStreak_def split: prod.splits sum.splits dest!: first_row_D query_messages)
  then show ?thesis
    by (auto simp: GamificationRepo_CheckAndAwardBadges_def Let_def award split: prod.splits sum.splits)
qed

lemma record_creation_frame:
  "t_messages (a_db (record_creation env u req a)) = t_messages (a_db a)"
  "a_cache (record_creation env u req a) = a_cache a" "a_hub (record_creation env u req a) = a_hub a"
  by (simp_all add: record_creation_def Let_def on_db_eq gamification_messages CheckAndAwardBadges_messages)

lemma Create_row:
  assumes "MessageRepo_Create env u req d = (Inr m, d')"
  shows "\<exists>row usr. row \<in> set (t_messages d') \<and> m = scan_message (row, usr)"
proof -
  from assms obtain ms where "exec (create_stmt env u req) d = (Inr (m # ms), d')"
    unfolding MessageRepo_Create_def by (auto dest: first_row_Inr)
  from exec_Inr [OF this] obtain uid d1 row where ins: "insert_message row d1 = Inr d'"
    and out: "m # ms = map scan_message (join_users d1 [row])"
    by (auto simp: create_stmt_def gen_uuid_def Let_def split: option.splits sum.splits)
  from ins have "row \<in> set (t_messages d')" by (auto simp: insert_message_def split: if_splits)
  moreover from out have "m \<in> scan_message ` set (join_users d1 [row])" by (metis list.set_intros(1) set_map)
  then obtain usr where "m = scan_message (row, usr)" by (auto simp: join_users_def)
  ultimately show ?thesis by blast
qed

text \<open>C12: publication. When \<open>Create\<close> succeeds, with a cache that answers, the message it returns is a row of the table; no
  nearby query is answered from the cache with a list stored before; and every registered WebSocket client with room
  in its channel has been sent the event, in which the content of a mystery message is masked.\<close>

theorem Create_publishes:
  assumes "app_ok a" and "cache_up (a_cache a)"
    and "MessageService_Create svc marshal env userID req a = (Inr m, a')"
    and "marshal \<lparr>ev_Type = ''new_message'', ev_Payload = mystery_mask m\<rparr> = Some data"
  shows "(\<exists>row \<in> set (t_messages (a_db a')). mr_id row = msg_ID m \<and> mr_content row = msg_Content m) \<and>
    (\<forall>lat lng radius uid key t v c. GridKey lat lng radius uid = Some key \<and> go_now env \<le> t \<longrightarrow>
       RedisCache_Get t key (a_cache a') \<noteq> (Inr v, c)) \<and>
    (\<forall>c \<in> set (h_clients (a_hub a)). \<exists>cl cl'. h_conns (a_hub a) c = Some cl \<and> h_conns (a_hub a') c = Some cl' \<and>
       (length (cl_send cl) < sendBufSize \<longrightarrow> cl_send cl' = cl_send cl @ [data])) \<and>
    (msg_MessageType m = ''mystery'' \<longrightarrow> msg_Content (mystery_mask m) = ''???'')"
proof -
  from assms(3) obtain d1 where c: "MessageRepo_Create env userID req (a_db a) = (Inr m, d1)"
    and a': "t_messages (a_db a') = t_messages d1" "a_cache a' = RedisCache_InvalidateZone (go_now env) (a_cache a)"
      "a_hub a' = Hub_BroadcastNewMessage marshal (mystery_mask m) (a_hub a)"
    by (auto simp: MessageService_Create_def on_db_def Let_def record_creation_frame split: prod.splits sum.splits if_splits)
  have ok: "hub_ok (a_hub a)" using assms(1) by (simp add: app_ok_def hub_reachable_ok)
  have hub: "a_hub a' = fold (send_or_drop data) (h_clients (a_hub a)) (a_hub a)"
    using assms(4) by (simp add: a' Hub_BroadcastNewMessage_def Hub_Broadcast_def)
  have "\<exists>cl cl'. h_conns (a_hub a) k = Some cl \<and> h_conns (a_hub a') k = Some cl' \<and>
      (length (cl_send cl) < sendBufSize \<longrightarrow> cl_send cl' = cl_send cl @ [data])" if k: "k \<in> set (h_clients (a_hub a))" for k
  proof -
    from k ok obtain cl where cl: "h_conns (a_hub a) k = Some cl" "\<not> cl_closed cl" by (auto simp: hub_ok_def)
    have "distinct (h_clients (a_hub a))" using ok by (simp add: hub_ok_def)
    from fold_send_effect [OF this k cl, of data] cl(1) show ?thesis unfolding hub by (auto split: if_splits)
  qed
  moreover have "RedisCache_Get t key (a_cache a') \<noteq> (Inr v, cc)"
    if "GridKey lat lng radius uid = Some key" "go_now env \<le> t" for lat lng radius uid key t v cc
  proof -
    have "grid_prefix key" using that(1) by (auto simp: GridKey_def grid_prefix_def split: option.splits)
    from redis_cache.clear_get [OF assms(2) that(2) this] show ?thesis by (auto simp: a' cache_get_def split: sum.splits)
  qed
  ultimately show ?thesis using Create_row [OF c] by (auto simp: a' mystery_mask_def)
qed

definition demo_full :: app where
  "demo_full = \<lparr>a_db = demo_db, a_cache = demo_cache, a_hub = demo_hub\<rparr>"

lemma Create_publishes_witness:
  "\<exists>m a'. MessageService_Create demo_service (\<lambda>e. Some (ev_Type e)) demo_env ''alice'' demo_request demo_full = (Inr m, a') \<and>
     (\<exists>row \<in> set (t_messages (a_db a')). mr_id row = msg_ID m) \<and>
     (\<exists>cl. h_conns (a_hub a') 1 = Some cl \<and> cl_send cl = [''new_message''])"
proof -
  have ok: "app_ok demo_full" by (simp add: demo_full_def app_ok_def demo_db_ok demo_hub_reachable)
  have up: "cache_up (a_cache demo_full)" unfolding cache_up_def demo_full_def using demo_cache_up by auto
  have "is_ok (fst (MessageRepo_Create demo_env ''alice'' demo_request demo_db))" by code_simp
  then obtain m d1 where "MessageRepo_Create demo_env ''alice'' demo_request demo_db = (Inr m, d1)"
    by (cases "MessageRepo_Create demo_env ''alice'' demo_request demo_db") (auto simp: is_ok_iff)
  then have "\<exists>a'. MessageService_Create demo_service (\<lambda>e. Some (ev_Type e)) demo_env ''alice'' demo_request demo_full = (Inr m, a')"
    by (simp add: MessageService_Create_def on_db_def demo_full_def Let_def)
  then obtain a' where run: "MessageService_Create demo_service (\<lambda>e. Some (ev_Type e)) demo_env ''alice'' demo_request demo_full = (Inr m, a')" ..
  have cl: "1 \<in> set (h_clients (a_hub demo_full))" "h_conns (a_hub demo_full) 1 = Some new_client"
    by (simp_all add: demo_full_def demo_hub_def ServeWS_def Hub_Register_def)
  note pub = Create_publishes [OF ok up run refl]
  from pub have "\<exists>row \<in> set (t_messages (a_db a')). mr_id row = msg_ID m" by blast
  moreover from pub cl have "\<exists>cl. h_conns (a_hub a') 1 = Some cl \<and> cl_send cl = [''new_message'']"
    by (fastforce simp: new_client_def sendBufSize_def)
  ultimately show ?thesis using run by blast
qed

end
