(* ===== verification/Interaction_Service.thy ===== *)
theory Interaction_Service
  imports Message_Service
begin

text \<open>\<open>backend/internal/service/interaction_service.go\<close>: likes, comments, reactions, and reports with auto-moderation.\<close>

section \<open>Operations\<close>

definition InteractionService_ToggleLike :: "env \<Rightarrow> string \<Rightarrow> string \<Rightarrow> LikeResponse action" where
  "InteractionService_ToggleLike env messageID userID d = InteractionRepo_ToggleLike env messageID userID d"

definition InteractionService_AddComment :: "env \<Rightarrow> string \<Rightarrow> string \<Rightarrow> string \<Rightarrow> Interaction action" where
  "InteractionService_AddComment env messageID userID content d =
     InteractionRepo_AddComment env messageID userID (strings_TrimSpace content) d"

definition InteractionService_DeleteComment :: "env \<Rightarrow> string \<Rightarrow> string \<Rightarrow> unit action" where
  "InteractionService_DeleteComment env commentID userID d = InteractionRepo_DeleteComment env commentID userID d"

definition InteractionService_GetComments :: "env \<Rightarrow> string \<Rightarrow> Interaction list action" where
  "InteractionService_GetComments env messageID d = InteractionRepo_GetComments env messageID d"

text \<open>Once the report is stored, an error of the count or of the update is not reported.\<close>

definition InteractionService_ReportMessage ::
  "env \<Rightarrow> string \<Rightarrow> string \<Rightarrow> string \<Rightarrow> string \<Rightarrow> unit action" where
  "InteractionService_ReportMessage env messageID userID reason description d =
     (case InteractionRepo_ReportMessage env messageID userID reason description d of
        (Inl e, d1) \<Rightarrow> (Inl e, d1)
      | (Inr _, d1) \<Rightarrow>
          (case InteractionRepo_GetReportCount env messageID d1 of
             (Inl e, d2) \<Rightarrow> (Inr (), d2)
           | (Inr cnt, d2) \<Rightarrow>
               if cnt \<ge> 3 then (Inr (), snd (InteractionRepo_HideMessage env messageID d2)) else (Inr (), d2)))"

definition InteractionService_ToggleReaction :: "env \<Rightarrow> string \<Rightarrow> string \<Rightarrow> string \<Rightarrow> ReactionResponse action" where
  "InteractionService_ToggleReaction env messageID userID emoji d =
     (case InteractionRepo_ToggleReaction env messageID userID (strings_TrimSpace emoji) d of
        (Inl e, d1) \<Rightarrow> (Inl e, d1)
      | (Inr added, d1) \<Rightarrow>
          (case InteractionRepo_GetReactionsByMessage env messageID userID d1 of
             (Inl e, d2) \<Rightarrow> (Inl e, d2)
           | (Inr reactions, d2) \<Rightarrow> (Inr \<lparr>rrs_Reacted = added, rrs_Reactions = reactions\<rparr>, d2)))"

definition InteractionService_GetReactionsByMessage :: "env \<Rightarrow> string \<Rightarrow> string \<Rightarrow> ReactionSummary list action" where
  "InteractionService_GetReactionsByMessage env messageID userID d =
     InteractionRepo_GetReactionsByMessage env messageID userID d"

definition InteractionService_GetReactionsByMessages ::
  "env \<Rightarrow> string list \<Rightarrow> string \<Rightarrow> reactions_map option action" where
  "InteractionService_GetReactionsByMessages env messageIDs userID d =
     InteractionRepo_GetReactionsByMessages env messageIDs userID d"

section \<open>Every method keeps the invariant\<close>

lemma interaction_service_inv [db_inv]:
  assumes "db_ok d"
  shows "db_ok (snd (InteractionService_ToggleLike env m u d))"
    "db_ok (snd (InteractionService_AddComment env m u c d))"
    "db_ok (snd (InteractionService_DeleteComment env i u d))"
    "db_ok (snd (InteractionService_GetComments env m d))"
  using assms by (simp_all add: InteractionService_ToggleLike_def InteractionService_AddComment_def
      InteractionService_DeleteComment_def InteractionService_GetComments_def db_inv)

lemma ReportMessage_inv [db_inv]:
  assumes "db_ok d"
  shows "db_ok (snd (InteractionService_ReportMessage env m u r t d))"
proof -
  obtain x d1 where 1: "InteractionRepo_ReportMessage env m u r t d = (x, d1)" by fastforce
  obtain n d2 where 2: "InteractionRepo_GetReportCount env m d1 = (n, d2)" by fastforce
  have "db_ok d1" using interaction_methods_inv(4) [OF assms, of env m u r t] 1 by simp
  moreover from this have "db_ok d2" using interaction_methods_inv(5) [of d1 env m] 2 by simp
  ultimately show ?thesis
    using interaction_methods_inv(6) [of d2 env m]
    by (auto simp: InteractionService_ReportMessage_def 1 2 split: sum.splits)
qed

lemma ToggleReaction_service_inv [db_inv]:
  assumes "db_ok d"
  shows "db_ok (snd (InteractionService_ToggleReaction env m u e d))"
proof -
  obtain x d1 where 1: "InteractionRepo_ToggleReaction env m u (strings_TrimSpace e) d = (x, d1)" by fastforce
  have "db_ok d1" using ToggleReaction_inv [OF assms, of env m u "strings_TrimSpace e"] 1 by simp
  then show ?thesis
    using interaction_methods_inv(7) [of d1 env m u]
    by (auto simp: InteractionService_ToggleReaction_def 1 split: sum.splits prod.splits)
qed

section \<open>Auto-moderation\<close>

definition reports_of :: "db \<Rightarrow> string \<Rightarrow> nat" where
  "reports_of d mid = count_where (\<lambda>r. pr_message_id r = mid) (t_reports d)"

lemma GetNearby_not_hidden:
  assumes "MessageRepo_GetNearby env q d = (Inr ms, d')" and "x \<in> set ms"
  shows "\<exists>m \<in> set (t_messages d). msg_ID x = mr_id m \<and> \<not> mr_is_hidden m"
proof -
  from GetNearby_rows(1) [OF assms(1)] assms(2) have "x \<in> set (get_nearby_messages env (nq_Latitude q) (nq_Longitude q) (nq_Radius q)
      (nq_Limit q) (query_user env (nq_UserID q)) d)"
    using hashtag_filter_le(1) by (blast dest: in_set_takeD)
  then show ?thesis by (auto dest!: get_nearby_sound simp: nearby_where_def)
qed

lemma report_stmt_Inr:
  assumes "report_stmt env m u r t d = (Inr x, d')"
  shows "t_messages d' = t_messages d \<and> t_links d' = t_links d"
  using assms by (auto simp: report_stmt_def insert_report_def split: sum.splits if_splits option.splits)

lemma hide_update:
  assumes "m \<in> set (update_where (\<lambda>m. mr_id m = mid) (\<lambda>m. m\<lparr>mr_is_hidden := True\<rparr>) ms)" and "mr_id m = mid"
  shows "mr_is_hidden m"
proof -
  from assms(1) obtain m0 where m: "m = (if mr_id m0 = mid then m0\<lparr>mr_is_hidden := True\<rparr> else m0)"
    unfolding in_set_update_where by (elim bexE)
  show ?thesis
  proof (cases "mr_id m0 = mid")
    case True
    then show ?thesis by (simp add: m)
  next
    case False
    then have "m = m0" using m by simp
    with False assms(2) show ?thesis by simp
  qed
qed

text \<open>The service reads what the repository returns; reactions, masks and ranks leave the identifiers.\<close>

lemma fetch_nearby_not_hidden:
  assumes "fetch_nearby svc env q key a = (Inr ms, a')" and "\<forall>m \<in> set (t_messages (a_db a)). mr_id m = mid \<longrightarrow> mr_is_hidden m"
  shows "\<forall>x \<in> set ms. msg_ID x \<noteq> mid"
proof -
  from assms(1) obtain ms0 d1 ms1 masked d2 ms2 d3 where
    g: "MessageRepo_GetNearby env q (a_db a) = (Inr ms0, d1)" and k: "mask_mystery env (nq_UserID q) ms0 d1 = ((ms1, masked), d2)" and
    n: "enrich svc env (nq_UserID q) ms1 d2 = (ms2, d3)" and ms: "ms = rank_messages env (nq_Sort q) ms2"
    by (cases key) (auto simp: fetch_nearby_def on_db_def Let_def split: prod.splits sum.splits if_splits)
  have "msg_ID x \<noteq> mid" if "x \<in> set ms0" for x using GetNearby_not_hidden [OF g that] assms(2) by metis
  then have "\<forall>i \<in> set (map msg_ID ms0). i \<noteq> mid" by simp
  then have "\<forall>x \<in> set ms1. msg_ID x \<noteq> mid" using mask_mystery_safe [OF k] by (metis image_eqI set_map)
  with enrich_safe [OF n, of "\<lambda>x. msg_ID x \<noteq> mid"] show ?thesis unfolding ms by simp
qed

lemma served_not_hidden:
  assumes "MessageService_GetNearby svc env q a = (Inr ms, a')" and "\<forall>m \<in> set (t_messages (a_db a)). mr_id m = mid \<longrightarrow> mr_is_hidden m"
  shows "(\<forall>x \<in> set ms. msg_ID x \<noteq> mid) \<or> (\<exists>e \<in> set (entries (a_cache a)). ce_value e = ms \<and> rd_live (go_now env) e)"
proof (rule disjCI)
  assume old: "\<not> (\<exists>e \<in> set (entries (a_cache a)). ce_value e = ms \<and> rd_live (go_now env) e)"
  have "RedisCache_Get (go_now env) k (a_cache a) \<noteq> (Inr ms, c)" for k c using Get_entry old by blast
  with assms(1) obtain key c where "fetch_nearby svc env (clamp_query q) key (a\<lparr>a_cache := c\<rparr>) = (Inr ms, a') \<or>
      fetch_nearby svc env (clamp_query q) key a = (Inr ms, a')"
    by (auto simp: MessageService_GetNearby_def Let_def index_panic_def split: option.splits prod.splits sum.splits if_splits)
  then show "\<forall>x \<in> set ms. msg_ID x \<noteq> mid"
    using fetch_nearby_not_hidden [of svc env "clamp_query q" key _ ms a' mid] assms(2) by fastforce
qed


definition demo_reports :: "report_row list" where
  "demo_reports = map (\<lambda>u. \<lparr>pr_reporter_id = u, pr_message_id = ''m1'', pr_reason = ''spam'', pr_description = []\<rparr>)
     [''carol'', ''dave'']"


end
