(* ===== verification/Report_Race.thy ===== *)
theory Report_Race
  imports Interaction_Service
begin

text \<open>
  \<open>InteractionService.ReportMessage\<close> of \<open>backend/internal/service/interaction_service.go\<close> when many users report at the same time. Its
  three statements run outside a transaction, so those of other requests come in between: two
  reports may both be stored before either is counted. The theory shows that auto-moderation is not lost that way. Statements
  are those of \<open>Interaction_Repo\<close>, each a step of its own on the committed rows; any of them may fail, before or
  after it took effect.
\<close>

section \<open>Sessions\<close>

text \<open>The arguments of a request: message, user, reason and description.\<close>

record report_call =
  rp_messageID :: string
  rp_userID :: string
  rp_reason :: string
  rp_description :: string

text \<open>
  Called; the report is stored; the reports have been counted; returned; refused by the database; cut off by a failed round trip. The
  code returns no error in the last case when the report was stored.
\<close>

datatype report_phase = Called | Stored | Tallied nat | Returned_nil | Refused | Broken

record report_race =
  rr_db :: db
  rr_phase :: "nat \<Rightarrow> report_phase"

definition move :: "nat \<Rightarrow> report_phase \<Rightarrow> db \<Rightarrow> report_race \<Rightarrow> report_race" where
  "move s p d w = w\<lparr>rr_db := d, rr_phase := (rr_phase w)(s := p)\<rparr>"

definition store :: "env \<Rightarrow> report_call \<Rightarrow> unit stmt" where
  "store env c = report_stmt env (rp_messageID c) (rp_userID c) (rp_reason c) (rp_description c)"

text \<open>
  What the statements of other requests may do: they keep the invariant, store no reports, neither hide nor unhide a message
  (only \<open>HideMessage\<close> writes \<open>is_hidden\<close>), and a message they create has no reports.
\<close>

definition foreign :: "db \<Rightarrow> db \<Rightarrow> bool" where
  "foreign d d' \<longleftrightarrow> db_ok d' \<and> (\<forall>i. reports_of d' i \<le> reports_of d i) \<and>
     (\<forall>x \<in> set (t_messages d'). (\<exists>y \<in> set (t_messages d). mr_id y = mr_id x \<and> mr_is_hidden y = mr_is_hidden x) \<or>
        \<not> mr_is_hidden x \<and> reports_of d' (mr_id x) = 0)"

inductive report_step :: "env \<Rightarrow> (nat \<Rightarrow> report_call) \<Rightarrow> report_race \<Rightarrow> report_race \<Rightarrow> bool" for env req where
  stored: "rr_phase w s = Called \<Longrightarrow> store env (req s) (rr_db w) = (Inr (), d') \<Longrightarrow> report_step env req w (move s Stored d' w)"
| refused: "rr_phase w s = Called \<Longrightarrow> store env (req s) (rr_db w) = (Inl e, d') \<Longrightarrow>
    report_step env req w (move s Refused (rr_db w) w)"
| store_lost: "rr_phase w s = Called \<Longrightarrow> store env (req s) (rr_db w) = (Inr (), d') \<Longrightarrow>
    report_step env req w (move s Broken d' w)"
| tally: "rr_phase w s = Stored \<Longrightarrow> uuid_in env (rp_messageID (req s)) = Some mid \<Longrightarrow>
    report_step env req w (move s (Tallied (reports_of (rr_db w) mid)) (rr_db w) w)"
| below: "rr_phase w s = Tallied n \<Longrightarrow> \<not> 3 \<le> n \<Longrightarrow> report_step env req w (move s Returned_nil (rr_db w) w)"
| hide: "rr_phase w s = Tallied n \<Longrightarrow> 3 \<le> n \<Longrightarrow> hide_stmt env (rp_messageID (req s)) (rr_db w) = (Inr (), d') \<Longrightarrow>
    report_step env req w (move s Returned_nil d' w)"
| hide_lost: "rr_phase w s = Tallied n \<Longrightarrow> 3 \<le> n \<Longrightarrow> hide_stmt env (rp_messageID (req s)) (rr_db w) = (Inr (), d') \<Longrightarrow>
    report_step env req w (move s Broken d' w)"
| cut: "rr_phase w s \<in> {Called, Stored} \<union> range Tallied \<Longrightarrow> report_step env req w (move s Broken (rr_db w) w)"
| other: "foreign (rr_db w) d' \<Longrightarrow> report_step env req w (w\<lparr>rr_db := d'\<rparr>)"

definition report_begins :: "report_race \<Rightarrow> bool" where
  "report_begins w \<longleftrightarrow> db_ok (rr_db w) \<and> t_reports (rr_db w) = [] \<and> rr_phase w = (\<lambda>_. Called)"

abbreviation report_reachable :: "env \<Rightarrow> (nat \<Rightarrow> report_call) \<Rightarrow> report_race \<Rightarrow> bool" where
  "report_reachable env req \<equiv> reachable report_begins (report_step env req)"

lemma report_reachable_start:
  "db_ok d \<Longrightarrow> t_reports d = [] \<Longrightarrow> report_reachable env req \<lparr>rr_db = d, rr_phase = (\<lambda>_. Called)\<rparr>"
  by (rule reachable.start) (simp add: report_begins_def)

lemmas report_reachable_step = reachable.step [where step = "report_step env req" for env req]

section \<open>The invariant\<close>

text \<open>A session that still owes the message a look: it has not counted yet, or counted enough, or was cut off.\<close>

definition owes :: "report_phase \<Rightarrow> bool" where
  "owes p \<longleftrightarrow> (case p of Stored \<Rightarrow> True | Tallied n \<Rightarrow> 3 \<le> n | Broken \<Rightarrow> True | _ \<Rightarrow> False)"

lemma owes_simps [simp]: "owes Stored" "owes Broken" "owes (Tallied n) = (3 \<le> n)" "\<not> owes Called" "\<not> owes Returned_nil" "\<not> owes Refused"
  by (simp_all add: owes_def)

definition reports_ok :: "env \<Rightarrow> (nat \<Rightarrow> report_call) \<Rightarrow> report_race \<Rightarrow> bool" where
  "reports_ok env req w \<longleftrightarrow> db_ok (rr_db w) \<and>
     (\<forall>x \<in> set (t_messages (rr_db w)). 3 \<le> reports_of (rr_db w) (mr_id x) \<and> \<not> mr_is_hidden x \<longrightarrow>
        (\<exists>s. uuid_in env (rp_messageID (req s)) = Some (mr_id x) \<and> owes (rr_phase w s)))"

text \<open>A report adds a row for its message at most, and changes no message.\<close>

lemma store_Inr:
  assumes "store env c d = (Inr (), d')"
  shows "t_messages d' = t_messages d" "reports_of d' i = reports_of d i \<or> uuid_in env (rp_messageID c) = Some i"
  using assms
  by (auto simp: store_def report_stmt_def insert_report_def uuid_param_def reports_of_def
      split: sum.splits option.splits if_splits)

lemma store_ok: "store env c d = (Inr (), d') \<Longrightarrow> db_ok d \<Longrightarrow> db_ok d'"
  unfolding store_def by (rule report_stmt.keeps)

lemma hide_Inr:
  assumes "hide_stmt env m d = (Inr (), d')"
  shows "\<exists>mid. uuid_in env m = Some mid \<and> d' = d\<lparr>t_messages := update_where (\<lambda>x. mr_id x = mid) (\<lambda>x. x\<lparr>mr_is_hidden := True\<rparr>) (t_messages d)\<rparr>"
  using assms by (auto simp: hide_stmt_def uuid_param_def split: sum.splits option.splits)

lemma reports_ok_move:
  assumes "reports_ok env req w" and "db_ok d'"
    and "\<And>x. x \<in> set (t_messages d') \<Longrightarrow> 3 \<le> reports_of d' (mr_id x) \<Longrightarrow> \<not> mr_is_hidden x \<Longrightarrow>
      uuid_in env (rp_messageID (req s)) = Some (mr_id x) \<and> owes p \<or>
      (\<exists>y \<in> set (t_messages (rr_db w)). mr_id y = mr_id x \<and> \<not> mr_is_hidden y) \<and> 3 \<le> reports_of (rr_db w) (mr_id x) \<and>
      \<not> (uuid_in env (rp_messageID (req s)) = Some (mr_id x) \<and> owes (rr_phase w s))"
  shows "reports_ok env req (move s p d' w)"
  unfolding reports_ok_def
proof (intro conjI ballI impI)
  show "db_ok (rr_db (move s p d' w))" using assms(2) by (simp add: move_def)
  fix x
  assume "x \<in> set (t_messages (rr_db (move s p d' w)))" and x: "3 \<le> reports_of (rr_db (move s p d' w)) (mr_id x) \<and> \<not> mr_is_hidden x"
  then have "x \<in> set (t_messages d')" "3 \<le> reports_of d' (mr_id x)" "\<not> mr_is_hidden x" by (simp_all add: move_def)
  from assms(3) [OF this] show "\<exists>t. uuid_in env (rp_messageID (req t)) = Some (mr_id x) \<and> owes (rr_phase (move s p d' w) t)"
  proof
    assume "uuid_in env (rp_messageID (req s)) = Some (mr_id x) \<and> owes p"
    then show ?thesis by (intro exI [of _ s]) (simp add: move_def)
  next
    assume old: "(\<exists>y \<in> set (t_messages (rr_db w)). mr_id y = mr_id x \<and> \<not> mr_is_hidden y) \<and> 3 \<le> reports_of (rr_db w) (mr_id x) \<and>
      \<not> (uuid_in env (rp_messageID (req s)) = Some (mr_id x) \<and> owes (rr_phase w s))"
    then obtain y where "y \<in> set (t_messages (rr_db w))" "mr_id y = mr_id x" "\<not> mr_is_hidden y" by blast
    with assms(1) old obtain t where t: "uuid_in env (rp_messageID (req t)) = Some (mr_id x)" "owes (rr_phase w t)"
      unfolding reports_ok_def by metis
    with old have "t \<noteq> s" by auto
    with t show ?thesis by (intro exI [of _ t]) (simp add: move_def)
  qed
qed

lemma same_db_move:
  assumes "reports_ok env req w" and "owes (rr_phase w s) \<Longrightarrow> owes p"
  shows "reports_ok env req (move s p (rr_db w) w)"
  by (rule reports_ok_move [OF assms(1)]) (use assms in \<open>auto simp: reports_ok_def\<close>)

lemma store_move:
  assumes "reports_ok env req w" and "rr_phase w s = Called" and "store env (req s) (rr_db w) = (Inr (), d')" and "owes p"
  shows "reports_ok env req (move s p d' w)"
proof (rule reports_ok_move [OF assms(1)])
  show "db_ok d'" using store_ok [OF assms(3)] assms(1) by (simp add: reports_ok_def)
qed (use assms(2,4) store_Inr [OF assms(3)] in \<open>auto, metis\<close>)

lemma hide_move:
  assumes "reports_ok env req w" and "hide_stmt env (rp_messageID (req s)) (rr_db w) = (Inr (), d')"
  shows "reports_ok env req (move s p d' w)"
proof (rule reports_ok_move [OF assms(1)])
  from hide_Inr [OF assms(2)] obtain mid where mid: "uuid_in env (rp_messageID (req s)) = Some mid"
    and d': "d' = (rr_db w)\<lparr>t_messages := update_where (\<lambda>x. mr_id x = mid) (\<lambda>x. x\<lparr>mr_is_hidden := True\<rparr>) (t_messages (rr_db w))\<rparr>"
    by blast
  show "db_ok d'" using hide_stmt.keeps [OF assms(2)] assms(1) by (simp add: reports_ok_def)
  fix x
  assume "x \<in> set (t_messages d')" "3 \<le> reports_of d' (mr_id x)" "\<not> mr_is_hidden x"
  moreover from this have "mr_id x \<noteq> mid" using hide_update unfolding d' by force
  ultimately show "uuid_in env (rp_messageID (req s)) = Some (mr_id x) \<and> owes p \<or>
      (\<exists>y \<in> set (t_messages (rr_db w)). mr_id y = mr_id x \<and> \<not> mr_is_hidden y) \<and> 3 \<le> reports_of (rr_db w) (mr_id x) \<and>
      \<not> (uuid_in env (rp_messageID (req s)) = Some (mr_id x) \<and> owes (rr_phase w s))"
    using mid by (auto simp: d' in_set_update_where reports_of_def split: if_splits)
qed

lemma report_step_ok: "report_step env req w w' \<Longrightarrow> reports_ok env req w \<Longrightarrow> reports_ok env req w'"
proof (induction rule: report_step.induct)
  case (tally w s mid)
  then show ?case by (intro reports_ok_move) (auto simp: reports_ok_def)
next
  case (other w d')
  show ?case
    unfolding reports_ok_def
  proof (intro conjI ballI impI)
    show "db_ok (rr_db (w\<lparr>rr_db := d'\<rparr>))" using other by (simp add: foreign_def)
    fix x
    assume "x \<in> set (t_messages (rr_db (w\<lparr>rr_db := d'\<rparr>)))" and x: "3 \<le> reports_of (rr_db (w\<lparr>rr_db := d'\<rparr>)) (mr_id x) \<and> \<not> mr_is_hidden x"
    with other obtain y where "y \<in> set (t_messages (rr_db w))" "mr_id y = mr_id x" "\<not> mr_is_hidden y" unfolding foreign_def by force
    moreover have "3 \<le> reports_of (rr_db w) (mr_id x)" using x other unfolding foreign_def by (auto intro: order_trans)
    ultimately show "\<exists>s. uuid_in env (rp_messageID (req s)) = Some (mr_id x) \<and> owes (rr_phase (w\<lparr>rr_db := d'\<rparr>) s)"
      using other unfolding reports_ok_def by (metis report_race.select_convs(2) report_race.surjective report_race.update_convs(1))
  qed
qed (auto intro: store_move hide_move same_db_move)

interpretation report_run: step_system report_begins "report_step env req" "reports_ok env req" for env req
  by unfold_locales (simp add: report_begins_def reports_ok_def reports_of_def, erule (1) report_step_ok)

lemmas report_reachable_ok = report_run.reachable_inv

text \<open>Nobody but a session that counted three reports hides a message.\<close>

lemma hidden_by_count:
  assumes "report_step env req w w'" and "db_ok (rr_db w)" and "x \<in> set (t_messages (rr_db w))" and "y \<in> set (t_messages (rr_db w'))"
    and "mr_id y = mr_id x" and "\<not> mr_is_hidden x" and "mr_is_hidden y"
  shows "\<exists>s n. uuid_in env (rp_messageID (req s)) = Some (mr_id x) \<and> rr_phase w s = Tallied n \<and> 3 \<le> n"
proof -
  have "distinct (map mr_id (t_messages (rr_db w)))" using assms(2) by (simp add: db_ok_def wf_messages_def)
  then have visible: "\<not> mr_is_hidden z" if "z \<in> set (t_messages (rr_db w))" "mr_id z = mr_id x" for z
    using distinct_map_unique [of mr_id _ z x] that assms(3,6) by auto
  have hidden: "uuid_in env m = Some (mr_id x)" if "hide_stmt env m (rr_db w) = (Inr (), d')" "y \<in> set (t_messages d')" for m d'
  proof -
    from hide_Inr [OF that(1)] that(2) obtain mid y0 where "uuid_in env m = Some mid" "y0 \<in> set (t_messages (rr_db w))"
      "y = (if mr_id y0 = mid then y0\<lparr>mr_is_hidden := True\<rparr> else y0)" by (auto simp: in_set_update_where)
    with visible [of y0] assms(5,7) show ?thesis by (auto split: if_splits)
  qed
  from assms(1) show ?thesis
  proof cases
    case (hide s n d')
    with assms(4) hidden show ?thesis by (auto simp: move_def)
  next
    case (hide_lost s n d')
    with assms(4) hidden show ?thesis by (auto simp: move_def)
  next
    case (other d')
    with assms(4-7) visible show ?thesis by (force simp: foreign_def)
  qed (use assms(4-7) visible in \<open>auto simp: move_def dest: store_Inr(1)\<close>)
qed

section \<open>One session alone\<close>

text \<open>Undisturbed and on a connection that answers, the steps do what \<open>InteractionService_ReportMessage\<close> does.\<close>

lemma report_alone:
  assumes "t_links d = []"
    and "InteractionService_ReportMessage env (rp_messageID (req s)) (rp_userID (req s)) (rp_reason (req s)) (rp_description (req s)) d = (Inr (), d')"
  shows "(report_step env req)\<^sup>*\<^sup>* \<lparr>rr_db = d, rr_phase = (\<lambda>_. Called)\<rparr> \<lparr>rr_db = d', rr_phase = (\<lambda>_. Called)(s := Returned_nil)\<rparr>"
proof -
  let ?m = "rp_messageID (req s)"
  let ?w = "\<lambda>d p. \<lparr>rr_db = d, rr_phase = (\<lambda>_. Called)(s := p)\<rparr>"
  have mv: "move s p d2 (?w d1 q) = ?w d2 p" for p q d1 d2 by (simp add: move_def)
  from assms obtain d1 where st: "store env (req s) d = (Inr (), d1)"
    by (auto simp: InteractionService_ReportMessage_def InteractionRepo_ReportMessage_def store_def exec_up split: prod.splits sum.splits)
  then obtain mid where mid: "uuid_in env ?m = Some mid"
    by (auto simp: store_def report_stmt_def uuid_param_def split: sum.splits option.splits)
  have l1: "t_links d1 = []" using report_stmt.keeps_links [OF st [unfolded store_def]] assms(1) by simp
  let ?n = "reports_of d1 mid"
  have "InteractionRepo_GetReportCount env ?m d1 = (Inr ?n, d1)"
    using l1 mid by (simp add: InteractionRepo_GetReportCount_def query_up uuid_param_def reports_of_def)
  with assms(2) st assms(1) have d': "d' = (if 3 \<le> ?n then snd (exec (hide_stmt env ?m) d1) else d1)"
    by (auto simp: InteractionService_ReportMessage_def InteractionRepo_ReportMessage_def InteractionRepo_HideMessage_def store_def exec_up
        split: if_splits)
  have "(report_step env req)\<^sup>*\<^sup>* (?w d Called) (?w d1 Stored)"
    using report_step.stored [of "?w d Called" s env req d1] st by (simp add: mv)
  also have "report_step env req (?w d1 Stored) (?w d1 (Tallied ?n))"
    using report_step.tally [of "?w d1 Stored" s env req mid] mid by (simp add: mv)
  also have "report_step env req (?w d1 (Tallied ?n)) (?w d' Returned_nil)"
  proof (cases "3 \<le> ?n")
    case True
    obtain d2 where "hide_stmt env ?m d1 = (Inr (), d2)" using mid by (simp add: hide_stmt_def uuid_param_def)
    with True d' l1 report_step.hide [of "?w d1 (Tallied ?n)" s ?n env req d2] show ?thesis by (simp add: mv exec_up)
  next
    case False
    with d' report_step.below [of "?w d1 (Tallied ?n)" s ?n env req] show ?thesis by (simp add: mv)
  qed
  finally show ?thesis by (simp add: fun_upd_idem)
qed

section \<open>Racing reports\<close>

text \<open>C7: auto-moderation under concurrency. Whatever the interleaving of reports with each other and with other requests, a message with
  three reports that is still visible has a session that will look at it (its report is stored and not yet counted, or it
  counted three and is about to hide the message) or one whose connection broke; so once the reports of a message are through
  without failures it is hidden. And a message becomes hidden only by a session that counted at least three reports of it.\<close>

theorem Reports_race:
  assumes "report_reachable env req w"
  shows "(\<forall>x \<in> set (t_messages (rr_db w)). 3 \<le> reports_of (rr_db w) (mr_id x) \<and> \<not> mr_is_hidden x \<longrightarrow>
      (\<exists>s. uuid_in env (rp_messageID (req s)) = Some (mr_id x) \<and>
         (rr_phase w s = Stored \<or> (\<exists>n \<ge> 3. rr_phase w s = Tallied n) \<or> rr_phase w s = Broken))) \<and>
    (\<forall>w' x y. report_step env req w w' \<and> x \<in> set (t_messages (rr_db w)) \<and> y \<in> set (t_messages (rr_db w')) \<and> mr_id y = mr_id x \<and>
       \<not> mr_is_hidden x \<and> mr_is_hidden y \<longrightarrow>
       (\<exists>s n. uuid_in env (rp_messageID (req s)) = Some (mr_id x) \<and> rr_phase w s = Tallied n \<and> 3 \<le> n))"
proof -
  note ok = report_reachable_ok [OF assms]
  have owing: "rr_phase w s = Stored \<or> (\<exists>n \<ge> 3. rr_phase w s = Tallied n) \<or> rr_phase w s = Broken" if "owes (rr_phase w s)" for s
    using that by (cases "rr_phase w s") auto
  have "db_ok (rr_db w)" using ok by (simp add: reports_ok_def)
  with ok owing show ?thesis unfolding reports_ok_def by (blast intro: hidden_by_count)
qed

text \<open>Three users report, and all three reports are stored before any is counted.\<close>

definition demo_calls :: "nat \<Rightarrow> report_call" where
  "demo_calls s = \<lparr>rp_messageID = ''m1'', rp_userID = (if s = 0 then ''bobby'' else if s = 1 then ''carol'' else ''dave''),
     rp_reason = ''spam'', rp_description = []\<rparr>"

definition demo_stored :: "nat \<Rightarrow> report_race" where
  "demo_stored k = fold (\<lambda>s w. move s Stored (snd (store demo_env (demo_calls s) (rr_db w))) w) [0..<k]
     \<lparr>rr_db = demo_db, rr_phase = (\<lambda>_. Called)\<rparr>"

lemma demo_stored_reachable: "k \<le> 3 \<Longrightarrow> report_reachable demo_env demo_calls (demo_stored k)"
proof (induction k)
  case 0
  have "t_reports demo_db = []" by code_simp
  then show ?case using report_reachable_start [OF demo_db_ok] by (simp add: demo_stored_def)
next
  case (Suc k)
  have fresh: "rr_phase (demo_stored k) k = Called"
  proof -
    have "rr_phase (fold (\<lambda>s w. move s Stored (snd (store demo_env (demo_calls s) (rr_db w))) w) ss w) j = rr_phase w j"
      if "j \<notin> set ss" for ss w j using that by (induction ss arbitrary: w) (auto simp: move_def)
    then show ?thesis by (simp add: demo_stored_def)
  qed
  have "k = 0 \<or> k = 1 \<or> k = 2" using Suc.prems by linarith
  then have "fst (store demo_env (demo_calls k) (rr_db (demo_stored k))) = Inr ()" by (elim disjE) (simp, code_simp)+
  then have "store demo_env (demo_calls k) (rr_db (demo_stored k)) = (Inr (), snd (store demo_env (demo_calls k) (rr_db (demo_stored k))))"
    by (metis prod.collapse)
  then have "report_step demo_env demo_calls (demo_stored k) (demo_stored (Suc k))"
    using report_step.stored [of "demo_stored k" k demo_env demo_calls, OF fresh] by (simp add: demo_stored_def)
  with Suc show ?case by (auto intro: report_reachable_step)
qed

lemma Reports_race_witness:
  "reports_of (rr_db (demo_stored 3)) ''m1'' = 3 \<and>
   (\<exists>s. rr_phase (demo_stored 3) s = Stored \<or> (\<exists>n \<ge> 3. rr_phase (demo_stored 3) s = Tallied n) \<or> rr_phase (demo_stored 3) s = Broken)"
proof -
  have n: "reports_of (rr_db (demo_stored 3)) ''m1'' = 3" by code_simp
  have "map (\<lambda>x. (mr_id x, mr_is_hidden x)) (t_messages (rr_db (demo_stored 3))) = [(''m1'', False)]" by code_simp
  then obtain x where "x \<in> set (t_messages (rr_db (demo_stored 3)))" "mr_id x = ''m1''" "\<not> mr_is_hidden x" by auto
  moreover note Reports_race [OF demo_stored_reachable [OF order_refl], THEN conjunct1]
  ultimately show ?thesis using n by (metis order_refl)
qed

end
