(* ===== verification/Feed_Race.thy ===== *)
theory Feed_Race
  imports Message_Service
begin

text \<open>
  The cached feed when requests overlap. \<open>MessageService.GetNearby\<close> asks the cache, reads the database and stores what it read;
  \<open>Create\<close> and \<open>Delete\<close> write to the database and clear the cache. None of this is atomic: between any two round trips of one request
  those of others may come. Here every round trip is a step of its own. The theory says what a hit may then be: a result of the query
  that is not older than the request that stored it and the time to live, and when it can miss a write that has cleared the cache.
\<close>

section \<open>Sessions\<close>

text \<open>What a request read: its environment and query, when, from which rows, and the result.\<close>

record feed_read =
  fd_env :: env
  fd_query :: NearbyQuery
  fd_at :: instant
  fd_db :: db
  fd_rows :: "Message list"

text \<open>
  A reader was called; has missed the cache; is in its masking loop, with the messages done, those to do, and whether one was masked;
  has a ranked list; has answered; was cut off.
\<close>

datatype feed_phase =
    Asked
  | Missed
  | Masking feed_read "Message list" "Message list" bool
  | Ranked feed_read "Message list" bool
  | Fed "Message list"
  | Cut

text \<open>
  The writers, \<open>Create\<close> and \<open>Delete\<close>. After the commit the keys are collected page by page and then deleted. \<open>Committed c\<close>, \<open>Scanning c b keys\<close>,
  \<open>Deleting c b keys\<close> and \<open>Cleared c b\<close> keep the time \<open>c\<close> of the commit and the time \<open>b\<close> of the first page (\<open>None\<close> when the scan
  was broken off).
\<close>

datatype write_call = Post string CreateMessageRequest | Remove string string

datatype write_phase =
    Write_asked
  | Committed instant
  | Scanning instant instant "string list"
  | Deleting instant "instant option" "string list"
  | Cleared instant instant
  | Not_cleared

fun write_db :: "env \<Rightarrow> write_call \<Rightarrow> unit action" where
  "write_db env (Post userID req) d =
     (case MessageRepo_Create env userID req d of (Inl e, d1) \<Rightarrow> (Inl e, d1) | (Inr msg, d1) \<Rightarrow> (Inr (), d1))"
| "write_db env (Remove i userID) d = MessageRepo_Delete env i userID d"

record feed_race =
  fr_db :: db
  fr_cache :: RedisCache
  fr_clock :: instant
  fr_reader :: "nat \<Rightarrow> feed_phase"
  fr_writer :: "nat \<Rightarrow> write_phase"
  fr_reads :: "feed_read set"

definition query_key :: "NearbyQuery \<Rightarrow> string option" where
  "query_key q = GridKey (nq_Latitude q) (nq_Longitude q) (nq_Radius q) (nq_UserID q)"

definition reader_at :: "nat \<Rightarrow> feed_phase \<Rightarrow> feed_race \<Rightarrow> feed_race" where
  "reader_at s p w = w\<lparr>fr_reader := (fr_reader w)(s := p)\<rparr>"

definition writer_at :: "nat \<Rightarrow> write_phase \<Rightarrow> feed_race \<Rightarrow> feed_race" where
  "writer_at s p w = w\<lparr>fr_writer := (fr_writer w)(s := p)\<rparr>"

definition with_client :: "redis \<Rightarrow> feed_race \<Rightarrow> feed_race" where
  "with_client r w = w\<lparr>fr_cache := (fr_cache w)\<lparr>rc_client := Some r\<rparr>\<rparr>"

text \<open>The iterator asks for the first page or for the next one: when it began, and the keys so far.\<close>

fun scan_from :: "instant \<Rightarrow> write_phase \<Rightarrow> (instant \<times> instant \<times> string list) option" where
  "scan_from now (Committed c) = Some (c, now, [])"
| "scan_from now (Scanning c began keys) = Some (c, began, keys)"
| "scan_from now _ = None"

definition grid_keys :: "instant \<Rightarrow> redis \<Rightarrow> string list" where
  "grid_keys now r = filter grid_prefix (map ce_key (filter (rd_live now) (rd_store r)))"

text \<open>
  What Redis documents of a full scan: it returns every key that is there from its start to its end. An entry that was stored before the
  first page and is still there at the end has been there throughout; all others may be returned or not.
\<close>

definition older :: "int \<Rightarrow> instant \<Rightarrow> cache_entry \<Rightarrow> bool" where
  "older ttl began e \<longleftrightarrow> (case ce_expires e of None \<Rightarrow> True | Some x \<Rightarrow> x - ttl < began)"

definition scan_complete :: "instant \<Rightarrow> instant \<Rightarrow> string list \<Rightarrow> RedisCache \<Rightarrow> bool" where
  "scan_complete now began keys c \<longleftrightarrow>
     (\<forall>e \<in> set (entries c). rd_live now e \<and> grid_prefix (ce_key e) \<and> older (rc_ttl c) began e \<longrightarrow> ce_key e \<in> set keys)"

text \<open>The cache is cleared when the scan was complete and the server has executed the deletion, even if its answer was lost.\<close>

definition after_del :: "instant \<Rightarrow> instant option \<Rightarrow> link \<Rightarrow> write_phase" where
  "after_del c b l = (case b of None \<Rightarrow> Not_cleared | Some began \<Rightarrow> if l = Unreachable then Not_cleared else Cleared c began)"

text \<open>
  The steps of a reader, in the order of the code; those of a writer: the commit, each page of the scan, the end of the scan or its error
  (then the keys so far are deleted), the deletion, which is not asked for without keys; and what happens around them: other
  statements, the network, eviction in the cache server, time. \<open>fr_reads\<close> only records what was read.
\<close>

inductive feed_step :: "MessageService \<Rightarrow> (nat \<Rightarrow> NearbyQuery) \<Rightarrow> (nat \<Rightarrow> write_call) \<Rightarrow> feed_race \<Rightarrow> feed_race \<Rightarrow> bool"
  for svc ask wr where
  hit: "fr_reader w s = Asked \<Longrightarrow> q = clamp_query (ask s) \<Longrightarrow> cacheable q \<Longrightarrow> query_key q = Some key \<Longrightarrow>
    RedisCache_Get (fr_clock w) key (fr_cache w) = (Inr ms, c) \<Longrightarrow> feed_step svc ask wr w (reader_at s (Fed ms) (w\<lparr>fr_cache := c\<rparr>))"
| miss: "fr_reader w s = Asked \<Longrightarrow> q = clamp_query (ask s) \<Longrightarrow> cacheable q \<Longrightarrow> query_key q = Some key \<Longrightarrow>
    RedisCache_Get (fr_clock w) key (fr_cache w) = (Inl e, c) \<Longrightarrow> feed_step svc ask wr w (reader_at s Missed (w\<lparr>fr_cache := c\<rparr>))"
| bypass: "fr_reader w s = Asked \<Longrightarrow> \<not> cacheable (clamp_query (ask s)) \<Longrightarrow> feed_step svc ask wr w (reader_at s Missed w)"
| read: "fr_reader w s = Missed \<Longrightarrow> q = clamp_query (ask s) \<Longrightarrow> go_now env = fr_clock w \<Longrightarrow>
    MessageRepo_GetNearby env q (fr_db w) = (Inr ms, d) \<Longrightarrow>
    r = \<lparr>fd_env = env, fd_query = q, fd_at = fr_clock w, fd_db = fr_db w, fd_rows = ms\<rparr> \<Longrightarrow>
    feed_step svc ask wr w (reader_at s (Masking r [] ms False) (w\<lparr>fr_reads := insert r (fr_reads w), fr_db := d\<rparr>))"
| mask: "fr_reader w s = Masking r ms (m # todo) b \<Longrightarrow> go_now env = fr_clock w \<Longrightarrow>
    mask_one env (nq_UserID (ask s)) m (fr_db w) = ((m', b'), d) \<Longrightarrow>
    feed_step svc ask wr w (reader_at s (Masking r (ms @ [m']) todo (b \<or> b')) (w\<lparr>fr_db := d\<rparr>))"
| enrich: "fr_reader w s = Masking r ms [] b \<Longrightarrow> go_now env = fr_clock w \<Longrightarrow>
    enrich svc env (nq_UserID (ask s)) ms (fr_db w) = (ms', d) \<Longrightarrow>
    feed_step svc ask wr w (reader_at s (Ranked r (rank_messages env (nq_Sort (ask s)) ms') b) (w\<lparr>fr_db := d\<rparr>))"
| store: "fr_reader w s = Ranked r ms False \<Longrightarrow> q = clamp_query (ask s) \<Longrightarrow> cacheable q \<Longrightarrow> query_key q = Some key \<Longrightarrow>
    feed_step svc ask wr w
      (reader_at s (Fed ms) (w\<lparr>fr_cache := snd (RedisCache_Set (fr_clock w) key ms (fr_cache w))\<rparr>))"
| skip: "fr_reader w s = Ranked r ms b \<Longrightarrow> b \<or> \<not> cacheable (clamp_query (ask s)) \<Longrightarrow> feed_step svc ask wr w (reader_at s (Fed ms) w)"
| cut: "feed_step svc ask wr w (reader_at s Cut w)"
| commit: "fr_writer w x = Write_asked \<Longrightarrow> write_db env (wr x) (fr_db w) = (Inr (), d) \<Longrightarrow>
    feed_step svc ask wr w (writer_at x (Committed (fr_clock w)) (w\<lparr>fr_db := d\<rparr>))"
| refuse: "fr_writer w x = Write_asked \<Longrightarrow> write_db env (wr x) (fr_db w) = (Inl e, d) \<Longrightarrow>
    feed_step svc ask wr w (writer_at x Not_cleared (w\<lparr>fr_db := d\<rparr>))"
| cache_off: "fr_writer w x = Committed t \<Longrightarrow> rc_client (fr_cache w) = None \<Longrightarrow> feed_step svc ask wr w (writer_at x Not_cleared w)"
| scan: "scan_from (fr_clock w) (fr_writer w x) = Some (t, began, keys) \<Longrightarrow> rc_client (fr_cache w) = Some r \<Longrightarrow>
    rd_next r = (Answered, r1) \<Longrightarrow> set page \<subseteq> set (grid_keys (fr_clock w) r) \<Longrightarrow>
    feed_step svc ask wr w (writer_at x (Scanning t began (keys @ page)) (with_client r1 w))"
| scan_fails: "scan_from (fr_clock w) (fr_writer w x) = Some (t, began, keys) \<Longrightarrow> rc_client (fr_cache w) = Some r \<Longrightarrow>
    rd_next r = (l, r1) \<Longrightarrow> l \<noteq> Answered \<Longrightarrow> feed_step svc ask wr w (writer_at x (Deleting t None keys) (with_client r1 w))"
| scan_end: "fr_writer w x = Scanning t began keys \<Longrightarrow> scan_complete (fr_clock w) began keys (fr_cache w) \<Longrightarrow>
    feed_step svc ask wr w (writer_at x (Deleting t (Some began) keys) w)"
| del: "fr_writer w x = Deleting t b keys \<Longrightarrow> keys \<noteq> [] \<Longrightarrow> rc_client (fr_cache w) = Some r \<Longrightarrow>
    feed_step svc ask wr w (writer_at x (after_del t b (fst (rd_next r))) (with_client (rd_del keys r) w))"
| del_none: "fr_writer w x = Deleting t b [] \<Longrightarrow> feed_step svc ask wr w (writer_at x (after_del t b Answered) w)"
| other: "feed_step svc ask wr w (w\<lparr>fr_db := d\<rparr>)"
| network: "rc_client (fr_cache w) = Some r \<Longrightarrow>
    feed_step svc ask wr w (w\<lparr>fr_cache := (fr_cache w)\<lparr>rc_client := Some (r\<lparr>rd_links := ls\<rparr>)\<rparr>\<rparr>)"
| evict: "rc_client (fr_cache w) = Some r \<Longrightarrow>
    feed_step svc ask wr w (w\<lparr>fr_cache := (fr_cache w)\<lparr>rc_client := Some (r\<lparr>rd_store := filter P (rd_store r)\<rparr>)\<rparr>\<rparr>)"
| tick: "fr_clock w \<le> t \<Longrightarrow> feed_step svc ask wr w (w\<lparr>fr_clock := t\<rparr>)"

definition feed_start :: "db \<Rightarrow> RedisCache \<Rightarrow> instant \<Rightarrow> feed_race" where
  "feed_start d c t = \<lparr>fr_db = d, fr_cache = c, fr_clock = t, fr_reader = (\<lambda>_. Asked), fr_writer = (\<lambda>_. Write_asked), fr_reads = {}\<rparr>"

definition feed_begins :: "feed_race \<Rightarrow> bool" where
  "feed_begins w \<longleftrightarrow> (\<exists>d c t. entries c = [] \<and> 0 < rc_ttl c \<and> w = feed_start d c t)"

abbreviation feed_reachable :: "MessageService \<Rightarrow> (nat \<Rightarrow> NearbyQuery) \<Rightarrow> (nat \<Rightarrow> write_call) \<Rightarrow> feed_race \<Rightarrow> bool" where
  "feed_reachable svc ask wr \<equiv> reachable feed_begins (feed_step svc ask wr)"

lemma feed_reachable_start: "entries c = [] \<Longrightarrow> 0 < rc_ttl c \<Longrightarrow> feed_reachable svc ask wr (feed_start d c t)"
  by (rule reachable.start) (auto simp: feed_begins_def)

lemmas feed_reachable_step = reachable.step [where step = "feed_step svc ask wr" for svc ask wr]

section \<open>The cache, entry by entry\<close>

lemma rd_next_store: "rd_next r = (l, r1) \<Longrightarrow> rd_store r1 = rd_store r"
  by (auto simp: rd_next_def split: list.splits)

lemma rd_del_store:
  "rd_store (rd_del keys r) = (if fst (rd_next r) = Unreachable then rd_store r else filter (\<lambda>e. ce_key e \<notin> set keys) (rd_store r))"
  by (auto simp: rd_del_def rd_next_def split: list.splits)

lemma with_client_sel [simp]:
  "fr_db (with_client r w) = fr_db w" "fr_clock (with_client r w) = fr_clock w" "fr_reader (with_client r w) = fr_reader w"
  "fr_writer (with_client r w) = fr_writer w" "fr_reads (with_client r w) = fr_reads w" "entries (fr_cache (with_client r w)) = rd_store r"
  "rc_ttl (fr_cache (with_client r w)) = rc_ttl (fr_cache w)" "rc_client (fr_cache (with_client r w)) = Some r"
  by (simp_all add: with_client_def entries_def)

section \<open>The invariant\<close>

text \<open>The same messages, apart from their order and the reactions that were added.\<close>

definition plain :: "Message \<Rightarrow> Message" where
  "plain m = m\<lparr>msg_Reactions := []\<rparr>"

definition same_feed :: "Message list \<Rightarrow> Message list \<Rightarrow> bool" where
  "same_feed ms ms' \<longleftrightarrow> mset (map plain ms) = mset (map plain ms')"

lemma same_feed_refl [simp]: "same_feed ms ms"
  by (simp add: same_feed_def)

lemma enrich_plain: "enrich svc env u ms d = (ms', d') \<Longrightarrow> map plain ms' = map plain ms"
  by (auto simp: enrich_def plain_def split: if_splits prod.splits sum.splits option.splits)

lemma same_feed_ranked:
  assumes "enrich svc env u ms d = (ms', d')" and "same_feed ms rows"
  shows "same_feed (rank_messages env srt ms') rows"
proof -
  have "mset (rank_messages env srt ms') = mset ms'" by (simp add: rank_messages_def)
  moreover have "image_mset plain (mset ms') = image_mset plain (mset ms)" using enrich_plain [OF assms(1)] by (metis mset_map)
  ultimately show ?thesis using assms(2) by (simp add: same_feed_def)
qed

text \<open>What a writer that has scanned the cache says of a live entry stored at \<open>t\<close>: it is new, or its key will be deleted.\<close>

fun passed :: "write_phase \<Rightarrow> string \<Rightarrow> instant \<Rightarrow> bool" where
  "passed (Deleting c (Some began) keys) key t \<longleftrightarrow> began \<le> t \<or> key \<in> set keys"
| "passed (Cleared c began) key t \<longleftrightarrow> began \<le> t"
| "passed _ key t \<longleftrightarrow> True"

fun writer_ok :: "instant \<Rightarrow> write_phase \<Rightarrow> bool" where
  "writer_ok now (Committed c) \<longleftrightarrow> c \<le> now"
| "writer_ok now (Scanning c began keys) \<longleftrightarrow> c \<le> began \<and> began \<le> now"
| "writer_ok now (Deleting c (Some began) keys) \<longleftrightarrow> c \<le> began \<and> began \<le> now"
| "writer_ok now (Cleared c began) \<longleftrightarrow> c \<le> began \<and> began \<le> now"
| "writer_ok now _ \<longleftrightarrow> True"

text \<open>A live entry with the read it comes from, stored at \<open>t\<close>.\<close>

definition stored_from :: "feed_race \<Rightarrow> cache_entry \<Rightarrow> feed_read \<Rightarrow> instant \<Rightarrow> bool" where
  "stored_from w e r t \<longleftrightarrow> query_key (fd_query r) = Some (ce_key e) \<and> same_feed (ce_value e) (fd_rows r) \<and> fd_at r \<le> t \<and> t \<le> fr_clock w \<and>
     ce_expires e = Some (t + rc_ttl (fr_cache w)) \<and> (\<forall>x. passed (fr_writer w x) (ce_key e) t)"

fun reader_ok :: "NearbyQuery \<Rightarrow> feed_read set \<Rightarrow> feed_phase \<Rightarrow> bool" where
  "reader_ok q rs (Masking r ms todo b) = (r \<in> rs \<and> fd_query r = q \<and> (\<not> b \<longrightarrow> ms @ todo = fd_rows r))"
| "reader_ok q rs (Ranked r ms b) = (r \<in> rs \<and> fd_query r = q \<and> (\<not> b \<longrightarrow> same_feed ms (fd_rows r)))"
| "reader_ok q rs _ = True"

definition read_ok :: "instant \<Rightarrow> feed_read \<Rightarrow> bool" where
  "read_ok now r \<longleftrightarrow> fd_at r \<le> now \<and> fst (MessageRepo_GetNearby (fd_env r) (fd_query r) (fd_db r)) = Inr (fd_rows r)"

definition feed_ok :: "(nat \<Rightarrow> NearbyQuery) \<Rightarrow> feed_race \<Rightarrow> bool" where
  "feed_ok ask w \<longleftrightarrow> 0 < rc_ttl (fr_cache w) \<and> (\<forall>r \<in> fr_reads w. read_ok (fr_clock w) r) \<and>
     (\<forall>s. reader_ok (clamp_query (ask s)) (fr_reads w) (fr_reader w s)) \<and>
     (\<forall>x. writer_ok (fr_clock w) (fr_writer w x)) \<and>
     (\<forall>e \<in> set (entries (fr_cache w)). rd_live (fr_clock w) e \<longrightarrow> (\<exists>r \<in> fr_reads w. \<exists>t. stored_from w e r t))"

lemma stored_from_frame:
  assumes "stored_from w e r t" and "fr_clock w \<le> fr_clock w'" and "rc_ttl (fr_cache w') = rc_ttl (fr_cache w)"
    and "\<And>x. fr_writer w' x = fr_writer w x \<or> passed (fr_writer w' x) (ce_key e) t"
  shows "stored_from w' e r t"
proof -
  have "t \<le> fr_clock w'" using assms(1,2) by (simp add: stored_from_def)
  moreover have "passed (fr_writer w' x) (ce_key e) t" for x using assms(4) [of x] assms(1) by (auto simp: stored_from_def)
  ultimately show ?thesis using assms(1,3) by (simp add: stored_from_def)
qed

lemma writer_ok_mono: "writer_ok now p \<Longrightarrow> now \<le> now' \<Longrightarrow> writer_ok now' p"
  by (cases "(now, p)" rule: writer_ok.cases) auto

lemma new_passed: "writer_ok now p \<Longrightarrow> passed p key now"
  by (cases "(now, p)" rule: writer_ok.cases) auto

lemma rd_live_mono: "rd_live t e \<Longrightarrow> t0 \<le> t \<Longrightarrow> rd_live t0 e"
  by (auto simp: rd_live_def split: option.splits)

lemma reader_ok_mono: "reader_ok q rs p \<Longrightarrow> rs \<subseteq> rs' \<Longrightarrow> reader_ok q rs' p"
  by (cases p) auto

text \<open>A step that adds no entry keeps the invariant if it keeps the phases right.\<close>

lemma feed_ok_frame:
  assumes "feed_ok ask w" and "set (entries (fr_cache w')) \<subseteq> set (entries (fr_cache w))" and "rc_ttl (fr_cache w') = rc_ttl (fr_cache w)"
    and "fr_clock w \<le> fr_clock w'" and "fr_reads w \<subseteq> fr_reads w'" and "\<And>r. r \<in> fr_reads w' - fr_reads w \<Longrightarrow> read_ok (fr_clock w') r"
    and "\<And>s. fr_reader w' s = fr_reader w s \<or> reader_ok (clamp_query (ask s)) (fr_reads w') (fr_reader w' s)"
    and "\<And>x. fr_writer w' x = fr_writer w x \<or> writer_ok (fr_clock w') (fr_writer w' x)"
    and "\<And>x e r t. e \<in> set (entries (fr_cache w')) \<Longrightarrow> rd_live (fr_clock w) e \<Longrightarrow> stored_from w e r t \<Longrightarrow>
      fr_writer w' x = fr_writer w x \<or> passed (fr_writer w' x) (ce_key e) t"
  shows "feed_ok ask w'"
  unfolding feed_ok_def
proof (intro conjI allI ballI impI)
  show "0 < rc_ttl (fr_cache w')" using assms(1,3) by (simp add: feed_ok_def)
  show "read_ok (fr_clock w') r" if "r \<in> fr_reads w'" for r
    using that assms(1,4) assms(6) [of r] by (cases "r \<in> fr_reads w") (auto simp: feed_ok_def read_ok_def)
  show "reader_ok (clamp_query (ask s)) (fr_reads w') (fr_reader w' s)" for s
    using assms(7) [of s] reader_ok_mono [OF _ assms(5)] assms(1) by (auto simp: feed_ok_def)
  show "writer_ok (fr_clock w') (fr_writer w' x)" for x
    using assms(8) [of x] writer_ok_mono [OF _ assms(4)] assms(1) by (auto simp: feed_ok_def)
  show "\<exists>r \<in> fr_reads w'. \<exists>t. stored_from w' e r t" if "e \<in> set (entries (fr_cache w'))" "rd_live (fr_clock w') e" for e
  proof -
    note live = rd_live_mono [OF that(2) assms(4)]
    from that(1) live assms(1,2) obtain r t where r: "r \<in> fr_reads w" "stored_from w e r t" unfolding feed_ok_def by blast
    with stored_from_frame [OF r(2) assms(4,3) assms(9) [OF that(1) live r(2)]] assms(5) show ?thesis by blast
  qed
qed

lemma key_grid: "query_key q = Some key \<Longrightarrow> grid_prefix key"
  by (auto simp: query_key_def GridKey_def grid_prefix_def split: option.splits)

lemma feed_ok_store:
  assumes "feed_ok ask w" and "fr_reader w s = Ranked r ms False" and "query_key (clamp_query (ask s)) = Some key"
  shows "feed_ok ask (reader_at s (Fed ms) (w\<lparr>fr_cache := snd (RedisCache_Set (fr_clock w) key ms (fr_cache w))\<rparr>))" (is "feed_ok ask ?w")
  unfolding feed_ok_def
proof (intro conjI allI ballI impI)
  note ok = assms(1) [unfolded feed_ok_def]
  have ttl: "rc_ttl (fr_cache ?w) = rc_ttl (fr_cache w)" by (simp add: reader_at_def Set_entries(2))
  show "0 < rc_ttl (fr_cache ?w)" using ok ttl by simp
  show "read_ok (fr_clock ?w) r" if "r \<in> fr_reads ?w" for r using that ok by (simp add: reader_at_def)
  show "reader_ok (clamp_query (ask t)) (fr_reads ?w) (fr_reader ?w t)" for t using ok by (simp add: reader_at_def)
  show "writer_ok (fr_clock ?w) (fr_writer ?w x)" for x using ok by (simp add: reader_at_def)
  show "\<exists>r \<in> fr_reads ?w. \<exists>t. stored_from ?w e r t" if e: "e \<in> set (entries (fr_cache ?w))" "rd_live (fr_clock ?w) e" for e
  proof (cases "e \<in> set (entries (fr_cache w))")
    case True
    with e(2) ok obtain r t where "r \<in> fr_reads w" "stored_from w e r t" by (auto simp: reader_at_def)
    with stored_from_frame [of w e r t ?w] ttl show ?thesis by (auto simp: reader_at_def)
  next
    case False
    with e(1) Set_entries(1) ok have new: "ce_key e = key" "ce_value e = ms" "ce_expires e = Some (fr_clock w + rc_ttl (fr_cache w))"
      by (fastforce simp: reader_at_def)+
    from ok assms(2) have r: "r \<in> fr_reads w" "fd_query r = clamp_query (ask s)" "same_feed ms (fd_rows r)"
      by (metis reader_ok.simps(2))+
    with ok have "fd_at r \<le> fr_clock w" by (simp add: read_ok_def)
    with new r ok assms(3) ttl have "stored_from ?w e r (fr_clock w)"
      by (simp add: stored_from_def reader_at_def new_passed)
    with r(1) show ?thesis by (auto simp: reader_at_def)
  qed
qed

text \<open>At the end of a scan, what is older than its start is among the keys.\<close>

lemma scan_complete_passed:
  assumes "scan_complete (fr_clock w) began keys (fr_cache w)" and "e \<in> set (entries (fr_cache w))" and "rd_live (fr_clock w) e"
    and "stored_from w e r t"
  shows "passed (Deleting c (Some began) keys) (ce_key e) t"
proof -
  have "grid_prefix (ce_key e)" "older (rc_ttl (fr_cache w)) began e \<longleftrightarrow> t < began"
    using assms(4) by (auto simp: stored_from_def older_def intro: key_grid)
  with assms(1-3) show ?thesis unfolding scan_complete_def by fastforce
qed

lemma after_del_passed:
  assumes "passed (Deleting c b keys) key t" and "l \<noteq> Unreachable \<Longrightarrow> key \<notin> set keys"
  shows "passed (after_del c b l) key t"
  using assms by (cases b) (auto simp: after_del_def)

lemma after_del_ok: "writer_ok now (Deleting c b keys) \<Longrightarrow> writer_ok now (after_del c b l)"
  by (cases b) (auto simp: after_del_def)

lemma scan_from_ok: "writer_ok now p \<Longrightarrow> scan_from now p = Some (c, began, keys) \<Longrightarrow> c \<le> began \<and> began \<le> now"
  by (cases p) auto

lemma mask_one_plain: "mask_one env u m d = ((m', b), d') \<Longrightarrow> \<not> b \<Longrightarrow> m' = m"
  using mask_one_safe [of env u m d m' b d'] by simp

lemma clamp_fields [simp]: "nq_UserID (clamp_query q) = nq_UserID q" "nq_Sort (clamp_query q) = nq_Sort q"
  by (simp_all add: clamp_query_def Let_def)

lemmas at_defs = reader_at_def writer_at_def

lemma feed_step_ok: "feed_step svc ask wr w w' \<Longrightarrow> feed_ok ask w \<Longrightarrow> feed_ok ask w'"
proof (induction rule: feed_step.induct)
  case (hit w s q key ms c)
  show ?case using Get_frame [OF hit(5)] by (intro feed_ok_frame [OF hit(6)]) (auto simp: at_defs)
next
  case (miss w s q key e c)
  show ?case using Get_frame [OF miss(5)] by (intro feed_ok_frame [OF miss(6)]) (auto simp: at_defs)
next
  case (read w s q env ms d r)
  show ?case by (rule feed_ok_frame [OF read(6)]) (use read(2,4,5) in \<open>auto simp: at_defs read_ok_def\<close>)
next
  case (mask w s r ms m todo b env m' b' d)
  have "reader_ok (clamp_query (ask s)) (fr_reads w) (Masking r ms (m # todo) b)"
    using mask(1,4) unfolding feed_ok_def by metis
  then have "reader_ok (clamp_query (ask s)) (fr_reads w) (Masking r (ms @ [m']) todo (b \<or> b'))"
    using mask_one_plain [OF mask(3)] by auto
  then show ?case by (intro feed_ok_frame [OF mask(4)]) (auto simp: at_defs)
next
  case (enrich w s r ms b env ms' d)
  have "reader_ok (clamp_query (ask s)) (fr_reads w) (Masking r ms [] b)"
    using enrich(1,4) unfolding feed_ok_def by metis
  then have "reader_ok (clamp_query (ask s)) (fr_reads w) (Ranked r (rank_messages env (nq_Sort (ask s)) ms') b)"
    using same_feed_ranked [OF enrich(3)] by auto
  then show ?case by (intro feed_ok_frame [OF enrich(4)]) (auto simp: at_defs)
next
  case (store w s r ms q key)
  then show ?case using feed_ok_store by blast
next
  case (scan w x t began keys r r1 page)
  have "writer_ok (fr_clock w) (fr_writer w x)" using scan(5) by (simp add: feed_ok_def)
  with scan_from_ok [OF _ scan(1)] rd_next_store [OF scan(3)] scan(2) show ?case
    by (intro feed_ok_frame [OF scan(5)]) (auto simp: at_defs entries_def)
next
  case (scan_fails w x t began keys r l r1)
  with rd_next_store [OF scan_fails(3)] show ?case by (intro feed_ok_frame [OF scan_fails(5)]) (auto simp: at_defs entries_def)
next
  case (scan_end w x t began keys)
  have "writer_ok (fr_clock w) (Scanning t began keys)" using scan_end(1,3) unfolding feed_ok_def by metis
  with scan_complete_passed [OF scan_end(2)] show ?case by (intro feed_ok_frame [OF scan_end(3)]) (auto simp: at_defs simp del: passed.simps)
next
  case (del w x t b keys r)
  have ok: "writer_ok (fr_clock w) (Deleting t b keys)" using del(1,4) unfolding feed_ok_def by metis
  have left: "e \<in> set (rd_store r) \<and> (fst (rd_next r) \<noteq> Unreachable \<longrightarrow> ce_key e \<notin> set keys)" if "e \<in> set (rd_store (rd_del keys r))" for e
    using that by (simp add: rd_del_store split: if_splits)
  have "passed (after_del t b (fst (rd_next r))) (ce_key e) i" if "e \<in> set (rd_store (rd_del keys r))" "stored_from w e a i" for e a i
    using left [OF that(1)] that(2) del(1) by (intro after_del_passed [of t b keys]) (auto simp: stored_from_def dest!: spec [of _ x])
  with after_del_ok [OF ok] left del(3) show ?case by (intro feed_ok_frame [OF del(4)]) (auto simp: at_defs entries_def)
next
  case (del_none w x t b)
  have ok: "writer_ok (fr_clock w) (Deleting t b [])" using del_none(1,2) unfolding feed_ok_def by metis
  have "passed (after_del t b Answered) (ce_key e) i" if "stored_from w e a i" for e a i
    using that del_none(1) by (intro after_del_passed [of t b "[]"]) (auto simp: stored_from_def dest!: spec [of _ x])
  with after_del_ok [OF ok] show ?case by (intro feed_ok_frame [OF del_none(2)]) (auto simp: at_defs)
qed (rule feed_ok_frame, assumption, auto simp: at_defs entries_def split: if_splits)+

interpretation feed_run: step_system feed_begins "feed_step svc ask wr" "feed_ok ask" for svc ask wr
  by unfold_locales ((auto simp: feed_begins_def feed_ok_def feed_start_def)[1], erule (1) feed_step_ok)

lemmas feed_reachable_ok = feed_run.reachable_inv

section \<open>One request alone\<close>

text \<open>When nothing comes in between, the steps of a reader are \<open>MessageService.GetNearby\<close>.\<close>

lemma reader_at_twice:
  "fr_reader (reader_at s p w) s = p" "fr_db (reader_at s p w) = fr_db w" "fr_cache (reader_at s p w) = fr_cache w"
  "fr_clock (reader_at s p w) = fr_clock w"
  "reader_at s p' ((reader_at s p w)\<lparr>fr_db := d\<rparr>) = reader_at s p' (w\<lparr>fr_db := d\<rparr>)"
  by (simp_all add: reader_at_def)

lemma mask_alone:
  assumes "mask_mystery env (nq_UserID (ask s)) todo (fr_db w) = ((ms', b'), d')" and "fr_reader w s = Masking r ms todo b"
    and "go_now env = fr_clock w"
  shows "(feed_step svc ask wr)\<^sup>*\<^sup>* w (reader_at s (Masking r (ms @ ms') [] (b \<or> b')) (w\<lparr>fr_db := d'\<rparr>))"
  using assms
proof (induction todo arbitrary: w ms b ms' b')
  case Nil
  have "reader_at s (Masking r ms [] b) (w\<lparr>fr_db := fr_db w\<rparr>) = w" using Nil.prems(2) by (cases w) (auto simp: reader_at_def)
  with Nil show ?case by auto
next
  case (Cons m todo)
  from Cons.prems(1) obtain m1 b1 d1 ms1 b2 where one: "mask_one env (nq_UserID (ask s)) m (fr_db w) = ((m1, b1), d1)"
    and rest: "mask_mystery env (nq_UserID (ask s)) todo d1 = ((ms1, b2), d')" and out: "ms' = m1 # ms1" "b' = (b1 \<or> b2)"
    by (auto split: prod.splits)
  let ?w = "reader_at s (Masking r (ms @ [m1]) todo (b \<or> b1)) (w\<lparr>fr_db := d1\<rparr>)"
  have "feed_step svc ask wr w ?w" using Cons.prems(2,3) one by (rule feed_step.mask)
  moreover from Cons.IH [of ?w ms1 b2 "ms @ [m1]" "b \<or> b1"] rest Cons.prems(3)
  have "(feed_step svc ask wr)\<^sup>*\<^sup>* ?w (reader_at s (Masking r (ms @ ms') [] (b \<or> b')) (w\<lparr>fr_db := d'\<rparr>))"
    by (simp add: reader_at_def out)
  ultimately show ?case by (rule converse_rtranclp_into_rtranclp)
qed

lemma fetch_alone:
  assumes "fetch_nearby svc env (clamp_query (ask s)) (if cacheable (clamp_query (ask s)) then Some key else None) a = (Inr ms, a')"
    and "fr_reader w s = Missed" and "fr_db w = a_db a" and "fr_cache w = a_cache a" and "fr_clock w = go_now env"
    and "cacheable (clamp_query (ask s)) \<Longrightarrow> query_key (clamp_query (ask s)) = Some key"
  shows "\<exists>w'. (feed_step svc ask wr)\<^sup>*\<^sup>* w w' \<and> fr_reader w' s = Fed ms \<and> fr_db w' = a_db a' \<and> fr_cache w' = a_cache a'"
proof -
  let ?q = "clamp_query (ask s)" and ?step = "feed_step svc ask wr"
  obtain x d1 where got: "MessageRepo_GetNearby env ?q (a_db a) = (x, d1)" by fastforce
  with assms(1) obtain ms0 ms1 masked d2 ms2 d3 where x: "x = Inr ms0"
    and mask: "mask_mystery env (nq_UserID (ask s)) ms0 d1 = ((ms1, masked), d2)"
    and enr: "enrich svc env (nq_UserID (ask s)) ms1 d2 = (ms2, d3)" and ms: "ms = rank_messages env (nq_Sort (ask s)) ms2"
    and a': "a' = (if cacheable ?q \<and> \<not> masked then a\<lparr>a_db := d3, a_cache := snd (RedisCache_Set (go_now env) key ms (a_cache a))\<rparr>
      else a\<lparr>a_db := d3\<rparr>)"
    by (auto simp: fetch_nearby_def on_db_eq Let_def split: prod.splits sum.splits if_splits)
  note get = got [unfolded x]
  define r where "r = \<lparr>fd_env = env, fd_query = ?q, fd_at = fr_clock w, fd_db = fr_db w, fd_rows = ms0\<rparr>"
  define v where "v = w\<lparr>fr_reads := insert r (fr_reads w)\<rparr>"
  let ?w1 = "reader_at s (Masking r [] ms0 False) (v\<lparr>fr_db := d1\<rparr>)"
  let ?w2 = "reader_at s (Masking r ms1 [] masked) (v\<lparr>fr_db := d2\<rparr>)"
  let ?w3 = "reader_at s (Ranked r ms masked) (v\<lparr>fr_db := d3\<rparr>)"
  have "?step w ?w1"
    using feed_step.read [where ask = ask, OF assms(2) refl assms(5) [symmetric] _ r_def, of d1 svc wr] get assms(3)
    by (simp add: v_def reader_at_def)
  moreover have "?step\<^sup>*\<^sup>* ?w1 ?w2"
    using mask_alone [of env ask s ms0 ?w1 ms1 masked d2 r "[]" False svc wr] mask assms(5) by (simp add: reader_at_def v_def)
  moreover have "?step ?w2 ?w3"
    using feed_step.enrich [of ?w2 s r ms1 masked env svc ask ms2 d3 wr] enr assms(5) by (simp add: ms reader_at_def v_def)
  ultimately have run: "?step\<^sup>*\<^sup>* w ?w3" by (meson converse_rtranclp_into_rtranclp rtranclp.rtrancl_into_rtrancl)
  have "\<exists>w'. ?step ?w3 w' \<and> fr_reader w' s = Fed ms \<and> fr_db w' = a_db a' \<and> fr_cache w' = a_cache a'"
  proof (cases "cacheable ?q \<and> \<not> masked")
    case True
    with feed_step.store [of ?w3 s r ms ?q ask key svc wr] assms(4-6) show ?thesis
      by (auto simp: reader_at_def v_def a')
  next
    case False
    with feed_step.skip [of ?w3 s r ms masked ask svc wr] assms(4) show ?thesis by (auto simp: reader_at_def v_def a')
  qed
  with run show ?thesis by (meson rtranclp.rtrancl_into_rtrancl)
qed

lemma reader_alone:
  assumes "MessageService_GetNearby svc env (ask s) a = (Inr ms, a')"
    and "fr_reader w s = Asked" and "fr_db w = a_db a" and "fr_cache w = a_cache a" and "fr_clock w = go_now env"
  shows "\<exists>w'. (feed_step svc ask wr)\<^sup>*\<^sup>* w w' \<and> fr_reader w' s = Fed ms \<and> fr_db w' = a_db a' \<and> fr_cache w' = a_cache a'"
proof (cases "cacheable (clamp_query (ask s))")
  case False
  have "feed_step svc ask wr w (reader_at s Missed w)" using assms(2) False by (rule feed_step.bypass)
  moreover from fetch_alone [of svc env ask s key a ms a' "reader_at s Missed w" wr for key] assms False
  have "\<exists>w'. (feed_step svc ask wr)\<^sup>*\<^sup>* (reader_at s Missed w) w' \<and> fr_reader w' s = Fed ms \<and> fr_db w' = a_db a' \<and> fr_cache w' = a_cache a'"
    by (simp add: MessageService_GetNearby_def reader_at_def)
  ultimately show ?thesis by (meson converse_rtranclp_into_rtranclp)
next
  case True
  with assms(1) obtain key where key: "query_key (clamp_query (ask s)) = Some key"
    by (auto simp: MessageService_GetNearby_def query_key_def Let_def split: option.splits)
  obtain x c where get: "RedisCache_Get (fr_clock w) key (fr_cache w) = (x, c)" by fastforce
  show ?thesis
  proof (cases x)
    case (Inr ms')
    from feed_step.hit [where ask = ask, OF assms(2) refl True key get [unfolded Inr], of svc wr] assms(1,3-5) True key get Inr show ?thesis
      by (intro exI [of _ "reader_at s (Fed ms) (w\<lparr>fr_cache := c\<rparr>)"])
        (auto simp: MessageService_GetNearby_def query_key_def reader_at_def)
  next
    case (Inl e)
    let ?w = "reader_at s Missed (w\<lparr>fr_cache := c\<rparr>)"
    have "feed_step svc ask wr w ?w" by (rule feed_step.miss [where ask = ask, OF assms(2) refl True key get [unfolded Inl]])
    moreover from fetch_alone [of svc env ask s key "a\<lparr>a_cache := c\<rparr>" ms a' ?w wr] assms True key get Inl
    have "\<exists>w'. (feed_step svc ask wr)\<^sup>*\<^sup>* ?w w' \<and> fr_reader w' s = Fed ms \<and> fr_db w' = a_db a' \<and> fr_cache w' = a_cache a'"
      by (auto simp: MessageService_GetNearby_def query_key_def reader_at_def)
    ultimately show ?thesis by (meson converse_rtranclp_into_rtranclp)
  qed
qed

text \<open>Likewise those of a writer are \<open>InvalidateZone\<close>, if the server's pages hold the keys that match, as one page at least.\<close>

lemma pages_alone:
  assumes "rd_scan_pages ps r = (ks, r')" and "rc_client (fr_cache w) = Some r"
    and "scan_from (fr_clock w) (fr_writer w x) = Some (t, b, acc)" and "\<forall>p \<in> set ps. set p \<subseteq> set (grid_keys (fr_clock w) r)"
    and "ps \<noteq> [] \<or> fr_writer w x = Scanning t b acc" and "scan_complete (fr_clock w) b (acc @ concat ps) (fr_cache w)"
  shows "\<exists>c. (feed_step svc ask wr)\<^sup>*\<^sup>* w (writer_at x (Deleting t c (acc @ ks)) (with_client r' w)) \<and> (c = None \<or> c = Some b)"
  using assms
proof (induction ps arbitrary: w r ks acc)
  case Nil
  have same: "with_client r' w = w" using Nil(1,2) by (cases w, cases "fr_cache w") (auto simp: with_client_def)
  have "fr_writer w x = Scanning t b acc" using Nil by simp
  with feed_step.scan_end [of w x t b acc svc ask wr] Nil show ?case unfolding same by (intro exI [of _ "Some b"]) auto
next
  case (Cons p ps)
  obtain l r1 where l: "rd_next r = (l, r1)" by fastforce
  note st = rd_next_store [OF l]
  show ?case
  proof (cases "l = Answered")
    case False
    with Cons.prems(1) l have "ks = []" "r' = r1" by auto
    with feed_step.scan_fails [OF Cons.prems(3,2) l False, of svc ask wr] show ?thesis by (intro exI [of _ None]) auto
  next
    case True
    from Cons.prems(1) l True obtain ks1 where rest: "rd_scan_pages ps r1 = (ks1, r')" "ks = p @ ks1" by (auto split: prod.splits)
    let ?w = "writer_at x (Scanning t b (acc @ p)) (with_client r1 w)"
    have step: "feed_step svc ask wr w ?w" using Cons.prems(4) l True by (intro feed_step.scan [OF Cons.prems(3,2)]) auto
    have "scan_complete (fr_clock w) b (acc @ p @ concat ps) (fr_cache (with_client r1 w))"
      using Cons.prems(2,6) st by (simp add: scan_complete_def entries_def)
    moreover have "\<forall>q \<in> set ps. set q \<subseteq> set (grid_keys (fr_clock w) r1)" using Cons.prems(4) st by (simp add: grid_keys_def)
    ultimately obtain c where "(feed_step svc ask wr)\<^sup>*\<^sup>* ?w (writer_at x (Deleting t c ((acc @ p) @ ks1)) (with_client r' ?w))" "c = None \<or> c = Some b"
      using Cons.IH [OF rest(1), of ?w "acc @ p"] by (auto simp: writer_at_def)
    moreover have "writer_at x q (with_client r' ?w) = writer_at x q (with_client r' w)" for q by (simp add: writer_at_def with_client_def)
    ultimately show ?thesis using step rest(2) by (metis append.assoc converse_rtranclp_into_rtranclp)
  qed
qed

lemma writer_alone:
  assumes "fr_writer w x = Committed t"
    and "\<And>r ks. rc_client (fr_cache w) = Some r \<Longrightarrow> rd_pages r ks \<noteq> [] \<and> set (concat (rd_pages r ks)) = set ks"
  shows "\<exists>p. (feed_step svc ask wr)\<^sup>*\<^sup>* w (writer_at x p (w\<lparr>fr_cache := RedisCache_InvalidateZone (fr_clock w) (fr_cache w)\<rparr>)) \<and>
    (p = Cleared t (fr_clock w) \<or> p = Not_cleared)"
proof (cases "rc_client (fr_cache w)")
  case None
  with feed_step.cache_off [OF assms(1) None, of svc ask wr] show ?thesis
    by (intro exI [of _ Not_cleared]) (auto simp: RedisCache_InvalidateZone_def)
next
  case (Some r)
  let ?keys = "grid_keys (fr_clock w) r"
  obtain ks r' where run: "rd_scan_pages (rd_pages r ?keys) r = (ks, r')" by fastforce
  have inv: "RedisCache_InvalidateZone (fr_clock w) (fr_cache w) = (fr_cache w)\<lparr>rc_client := Some (if ks \<noteq> [] then rd_del ks r' else r')\<rparr>"
    using run by (simp add: RedisCache_InvalidateZone_def Some grid_keys_def)
  have pages: "rd_pages r ?keys \<noteq> []" "set (concat (rd_pages r ?keys)) = set ?keys" using assms(2) [OF Some] by blast+
  then have "scan_complete (fr_clock w) (fr_clock w) ([] @ concat (rd_pages r ?keys)) (fr_cache w)"
    by (auto simp: scan_complete_def entries_def Some grid_keys_def)
  with pages_alone [OF run Some, of x t "fr_clock w" "[]" svc ask wr] assms(1) pages obtain c where
    c: "(feed_step svc ask wr)\<^sup>*\<^sup>* w (writer_at x (Deleting t c ks) (with_client r' w))" "c = None \<or> c = Some (fr_clock w)" by fastforce
  let ?w = "writer_at x (Deleting t c ks) (with_client r' w)"
  have "\<exists>l. feed_step svc ask wr ?w (writer_at x (after_del t c l) (with_client (if ks \<noteq> [] then rd_del ks r' else r') w))"
  proof (cases "ks = []")
    case True
    with feed_step.del_none [of ?w x t c svc ask wr] show ?thesis by (auto simp: writer_at_def)
  next
    case False
    with feed_step.del [of ?w x t c ks r' svc ask wr] show ?thesis by (auto simp: writer_at_def with_client_def)
  qed
  then obtain l where "feed_step svc ask wr ?w (writer_at x (after_del t c l) (w\<lparr>fr_cache := RedisCache_InvalidateZone (fr_clock w) (fr_cache w)\<rparr>))"
    unfolding inv with_client_def ..
  with c show ?thesis
    by (intro exI [of _ "after_del t c l"]) (auto simp: after_del_def intro: rtranclp.rtrancl_into_rtrancl)
qed

section \<open>What a hit is\<close>

text \<open>C8: the age of a cached feed. Under every interleaving of the round trips of readers and writers, of failures of the network, evictions and other
  statements, a hit for a key is the list that some request with that key read from the database, up to its order and the
  reactions; that request stored it after its read and less than the time to live ago. And if a message was created or deleted
  and the cache cleared after that (every page of the scan arrived and the keys were deleted), the list was stored not before the
  clearing began: it misses the change only if its request overlapped the writer, with its read before the commit and its store after it.\<close>

theorem Feed_race:
  assumes "feed_reachable svc ask wr w" and "RedisCache_Get (fr_clock w) key (fr_cache w) = (Inr ms, c)"
  shows "\<exists>r \<in> fr_reads w. \<exists>t.
    query_key (fd_query r) = Some key \<and> fst (MessageRepo_GetNearby (fd_env r) (fd_query r) (fd_db r)) = Inr (fd_rows r) \<and>
    same_feed ms (fd_rows r) \<and> fd_at r \<le> t \<and> t \<le> fr_clock w \<and> fr_clock w < t + rc_ttl (fr_cache w) \<and>
    (\<forall>x committed began. fr_writer w x = Cleared committed began \<longrightarrow> committed \<le> began \<and> began \<le> t)"
proof -
  from Get_entry [OF assms(2)] obtain e where e: "e \<in> set (entries (fr_cache w))" "ce_key e = key" "ce_value e = ms" "rd_live (fr_clock w) e"
    by blast
  note ok = feed_reachable_ok [OF assms(1), unfolded feed_ok_def]
  with e obtain r t where r: "r \<in> fr_reads w" "stored_from w e r t" by blast
  moreover have "fr_clock w < t + rc_ttl (fr_cache w)" using e(4) r(2) by (simp add: rd_live_def stored_from_def)
  moreover have "fst (MessageRepo_GetNearby (fd_env r) (fd_query r) (fd_db r)) = Inr (fd_rows r)" using ok r(1) by (simp add: read_ok_def)
  moreover have "committed \<le> began \<and> began \<le> t" if "fr_writer w x = Cleared committed began" for x committed began
  proof -
    have "passed (fr_writer w x) (ce_key e) t" "writer_ok (fr_clock w) (fr_writer w x)"
      using r(2) feed_reachable_ok [OF assms(1)] by (simp_all add: stored_from_def feed_ok_def)
    with that show ?thesis by simp
  qed
  ultimately show ?thesis using e(2,3) unfolding stored_from_def by blast
qed

section \<open>A stale feed\<close>

text \<open>The overlap happens: a reader misses the cache and reads \<open>m1\<close>, \<open>m1\<close> is deleted, the cache is scanned and found empty, the reader stores what it
  read, and the clearing ends without a key to delete.\<close>

definition anon_query :: NearbyQuery where
  "anon_query = demo_query\<lparr>nq_UserID := []\<rparr>"

definition anon_key :: string where
  "anon_key = ''grid:1.000:2.000:1000:anon''"

definition old_feed :: "Message list" where
  "old_feed = [(scan_message (demo_message ''m1'' ''alice'', demo_user ''alice'' ''alice''))\<lparr>msg_Distance := Some 3\<rparr>]"

definition old_read :: feed_read where
  "old_read = \<lparr>fd_env = demo_env, fd_query = anon_query, fd_at = go_now demo_env, fd_db = demo_db, fd_rows = old_feed\<rparr>"

definition empty_cache :: RedisCache where
  "empty_cache = \<lparr>rc_client = Some \<lparr>rd_store = [], rd_links = [], rd_pages = (\<lambda>ks. [ks])\<rparr>, rc_ttl = 10\<rparr>"

text \<open>One reader and one writer.\<close>

definition demo_feed :: "db \<Rightarrow> RedisCache \<Rightarrow> instant \<Rightarrow> feed_phase \<Rightarrow> write_phase \<Rightarrow> feed_read set \<Rightarrow> feed_race" where
  "demo_feed d c t p x rs =
     \<lparr>fr_db = d, fr_cache = c, fr_clock = t, fr_reader = (\<lambda>_. Asked)(0 := p), fr_writer = (\<lambda>_. Write_asked)(0 := x), fr_reads = rs\<rparr>"

definition plain_service :: MessageService where
  "plain_service = \<lparr>ms_gamRepo = False, ms_interactionRepo = False\<rparr>"

lemma anon_facts: "clamp_query anon_query = anon_query" "cacheable anon_query" "query_key anon_query = Some anon_key"
proof -
  show "clamp_query anon_query = anon_query" "cacheable anon_query"
    by (simp_all add: clamp_query_def anon_query_def demo_query_def cacheable_def)
  have "GridKey (Finite 1) (Finite 2) 1000 [] = Some anon_key" by code_simp
  then show "query_key anon_query = Some anon_key" by (simp add: query_key_def anon_query_def demo_query_def)
qed

lemma anon_read: "MessageRepo_GetNearby demo_env anon_query demo_db = (Inr old_feed, demo_db)"
proof -
  have "filter (nearby_where demo_env (Finite 1) (Finite 2) 1000 uid) (t_messages demo_db) = t_messages demo_db" for uid
    unfolding nearby_where_demo by (simp add: demo_db_def demo_message_def visible_to_def live_def)
  then show ?thesis
    by (simp add: MessageRepo_GetNearby_def query_rows_up nearby_query_def anon_query_def demo_query_def int4_ok_def
        get_nearby_messages_def uuid_param_def hashtag_filter_def join_users_def row_distance_def old_feed_def
        demo_env_def demo_db_def empty_db_def demo_message_def demo_user_def)
qed

definition gone_db :: db where
  "gone_db = demo_db\<lparr>t_messages := []\<rparr>"

definition stale_cache :: RedisCache where
  "stale_cache = snd (RedisCache_Set 1002 anon_key old_feed empty_cache)"

abbreviation stale_step :: "feed_race \<Rightarrow> feed_race \<Rightarrow> bool" where
  "stale_step \<equiv> feed_step plain_service (\<lambda>_. anon_query) (\<lambda>_. Remove ''m1'' ''alice'')"

lemma stale_delete: "write_db demo_env (Remove ''m1'' ''alice'') demo_db = (Inr (), gone_db)"
  by (simp add: MessageRepo_Delete_def exec_up delete_message_stmt_def uuid_param_def delete_messages_def gone_db_def
      demo_env_def demo_db_def empty_db_def demo_message_def)

lemma old_feed_alone:
  "mask_one env u (hd old_feed) d = ((hd old_feed, False), d)" "rank_messages env srt old_feed = old_feed"
  "enrich plain_service env u ms d = (ms, d)"
  by (simp_all add: mask_one_def old_feed_def scan_message_def demo_message_def rank_messages_def sort_slice_def enrich_def plain_service_def)

lemma empty_cache_facts:
  "cache_up empty_cache" "RedisCache_InvalidateZone t empty_cache = empty_cache"
  "RedisCache_Get t k empty_cache = (Inl (ErrLibrary ''redis: nil''), empty_cache)"
  by (simp_all add: empty_cache_def cache_up_def RedisCache_InvalidateZone_def rd_next_def RedisCache_Get_def rd_get_def)

lemma old_feed_json: "list_all json_times old_feed"
  by (simp add: old_feed_def json_times_def json_time_def scan_message_def demo_message_def)

lemma stale_reads:
  "stale_step (demo_feed demo_db empty_cache 1000 Asked Write_asked {}) (demo_feed demo_db empty_cache 1000 Missed Write_asked {})"
  "stale_step (demo_feed demo_db empty_cache 1000 Missed Write_asked {})
    (demo_feed demo_db empty_cache 1000 (Masking old_read [] old_feed False) Write_asked {old_read})"
  "stale_step (demo_feed demo_db empty_cache 1000 (Masking old_read [] old_feed False) Write_asked {old_read})
    (demo_feed demo_db empty_cache 1000 (Masking old_read old_feed [] False) Write_asked {old_read})"
  "stale_step (demo_feed demo_db empty_cache 1000 (Masking old_read old_feed [] False) Write_asked {old_read})
    (demo_feed demo_db empty_cache 1000 (Ranked old_read old_feed False) Write_asked {old_read})"
proof -
  have now: "go_now demo_env = 1000" by (simp add: demo_env_def)
  let ?f = "demo_feed demo_db empty_cache 1000"
  show "stale_step (?f Asked Write_asked {}) (?f Missed Write_asked {})"
    using feed_step.miss [of "?f Asked Write_asked {}" 0 anon_query "\<lambda>_. anon_query" anon_key] anon_facts
    by (simp add: demo_feed_def reader_at_def empty_cache_facts)
  show "stale_step (?f Missed Write_asked {}) (?f (Masking old_read [] old_feed False) Write_asked {old_read})"
    using feed_step.read [of "?f Missed Write_asked {}" 0 anon_query "\<lambda>_. anon_query" demo_env old_feed demo_db old_read] anon_facts
    by (simp add: demo_feed_def reader_at_def anon_read now old_read_def)
  have "[hd old_feed] = old_feed" by (simp add: old_feed_def)
  then show "stale_step (?f (Masking old_read [] old_feed False) Write_asked {old_read}) (?f (Masking old_read old_feed [] False) Write_asked {old_read})"
    using feed_step.mask [of "?f (Masking old_read [] old_feed False) Write_asked {old_read}" 0 old_read "[]" "hd old_feed" "[]" False demo_env "\<lambda>_. anon_query" "hd old_feed" False demo_db]
    by (simp add: demo_feed_def reader_at_def now old_feed_alone)
  show "stale_step (?f (Masking old_read old_feed [] False) Write_asked {old_read}) (?f (Ranked old_read old_feed False) Write_asked {old_read})"
    using feed_step.enrich [of "?f (Masking old_read old_feed [] False) Write_asked {old_read}" 0 old_read old_feed False demo_env plain_service]
    by (simp add: demo_feed_def reader_at_def now old_feed_alone)
qed

lemma stale_writes:
  "stale_step (demo_feed demo_db empty_cache 1000 p Write_asked rs) (demo_feed demo_db empty_cache 1001 p Write_asked rs)"
  "stale_step (demo_feed demo_db empty_cache 1001 p Write_asked rs) (demo_feed gone_db empty_cache 1001 p (Committed 1001) rs)"
  "stale_step (demo_feed gone_db empty_cache 1001 p (Committed 1001) rs) (demo_feed gone_db empty_cache 1001 p (Scanning 1001 1001 []) rs)"
  "stale_step (demo_feed gone_db empty_cache 1001 p x rs) (demo_feed gone_db empty_cache 1002 p x rs)"
  "stale_step (demo_feed gone_db empty_cache 1002 (Ranked r old_feed False) x rs) (demo_feed gone_db stale_cache 1002 (Fed old_feed) x rs)"
  "stale_step (demo_feed gone_db stale_cache 1002 p (Scanning 1001 1001 []) rs) (demo_feed gone_db stale_cache 1002 p (Deleting 1001 (Some 1001) []) rs)"
  "stale_step (demo_feed gone_db stale_cache 1002 p (Deleting 1001 (Some 1001) []) rs) (demo_feed gone_db stale_cache 1002 p (Cleared 1001 1001) rs)"
proof -
  show "stale_step (demo_feed demo_db empty_cache 1000 p Write_asked rs) (demo_feed demo_db empty_cache 1001 p Write_asked rs)"
    using feed_step.tick [of "demo_feed demo_db empty_cache 1000 p Write_asked rs" 1001] by (simp add: demo_feed_def)
  show "stale_step (demo_feed demo_db empty_cache 1001 p Write_asked rs) (demo_feed gone_db empty_cache 1001 p (Committed 1001) rs)"
    using feed_step.commit [of "demo_feed demo_db empty_cache 1001 p Write_asked rs" 0 demo_env "\<lambda>_. Remove ''m1'' ''alice''" gone_db]
    by (simp add: demo_feed_def writer_at_def stale_delete del: write_db.simps)
  show "stale_step (demo_feed gone_db empty_cache 1001 p (Committed 1001) rs) (demo_feed gone_db empty_cache 1001 p (Scanning 1001 1001 []) rs)"
    using feed_step.scan [of "demo_feed gone_db empty_cache 1001 p (Committed 1001) rs" 0 1001 1001 "[]" _ _ "[]"]
    by (simp add: demo_feed_def writer_at_def with_client_def empty_cache_def rd_next_def)
  have old: "scan_complete 1002 1001 [] stale_cache"
    by (simp add: scan_complete_def stale_cache_def empty_cache_def old_feed_json RedisCache_Set_def rd_set_def rd_next_def entries_def older_def)
  show "stale_step (demo_feed gone_db stale_cache 1002 p (Scanning 1001 1001 []) rs) (demo_feed gone_db stale_cache 1002 p (Deleting 1001 (Some 1001) []) rs)"
    using feed_step.scan_end [of "demo_feed gone_db stale_cache 1002 p (Scanning 1001 1001 []) rs" 0 1001 1001 "[]"] old
    by (simp add: demo_feed_def writer_at_def)
  show "stale_step (demo_feed gone_db stale_cache 1002 p (Deleting 1001 (Some 1001) []) rs) (demo_feed gone_db stale_cache 1002 p (Cleared 1001 1001) rs)"
    using feed_step.del_none [of "demo_feed gone_db stale_cache 1002 p (Deleting 1001 (Some 1001) []) rs" 0 1001 "Some 1001"]
    by (simp add: demo_feed_def writer_at_def after_del_def)
  show "stale_step (demo_feed gone_db empty_cache 1001 p x rs) (demo_feed gone_db empty_cache 1002 p x rs)"
    using feed_step.tick [of "demo_feed gone_db empty_cache 1001 p x rs" 1002] by (simp add: demo_feed_def)
  show "stale_step (demo_feed gone_db empty_cache 1002 (Ranked r old_feed False) x rs) (demo_feed gone_db stale_cache 1002 (Fed old_feed) x rs)"
    using feed_step.store [of "demo_feed gone_db empty_cache 1002 (Ranked r old_feed False) x rs" 0 r old_feed anon_query "\<lambda>_. anon_query" anon_key]
      anon_facts
    by (simp add: demo_feed_def reader_at_def stale_cache_def)
qed

lemma stale_reachable:
  "feed_reachable plain_service (\<lambda>_. anon_query) (\<lambda>_. Remove ''m1'' ''alice'')
     (demo_feed gone_db stale_cache 1002 (Fed old_feed) (Cleared 1001 1001) {old_read})"
proof -
  have "feed_start demo_db empty_cache 1000 = demo_feed demo_db empty_cache 1000 Asked Write_asked {}"
    by (simp add: feed_start_def demo_feed_def fun_eq_iff)
  moreover have "entries empty_cache = []" "0 < rc_ttl empty_cache" by (simp_all add: entries_def empty_cache_def)
  ultimately have "feed_reachable plain_service (\<lambda>_. anon_query) (\<lambda>_. Remove ''m1'' ''alice'')
      (demo_feed demo_db empty_cache 1000 Asked Write_asked {})"
    by (metis feed_reachable_start)
  note this [THEN feed_reachable_step, OF stale_reads(1), THEN feed_reachable_step, OF stale_reads(2),
      THEN feed_reachable_step, OF stale_reads(3), THEN feed_reachable_step, OF stale_reads(4)]
  note this [THEN feed_reachable_step, OF stale_writes(1), THEN feed_reachable_step, OF stale_writes(2),
      THEN feed_reachable_step, OF stale_writes(3), THEN feed_reachable_step, OF stale_writes(4),
      THEN feed_reachable_step, OF stale_writes(5), THEN feed_reachable_step, OF stale_writes(6), THEN feed_reachable_step, OF stale_writes(7)]
  then show ?thesis .
qed

text \<open>The deleted message is still served, from a read that overlapped the deletion.\<close>

lemma Feed_race_witness:
  "t_messages gone_db = [] \<and> fst (RedisCache_Get 1002 anon_key stale_cache) = Inr old_feed \<and> old_feed \<noteq> [] \<and>
   (\<exists>t. same_feed old_feed (fd_rows old_read) \<and> fd_at old_read < 1001 \<and> 1001 \<le> (t :: instant) \<and> 1002 < t + 10)"
proof -
  let ?w = "demo_feed gone_db stale_cache 1002 (Fed old_feed) (Cleared 1001 1001) {old_read}"
  have hit: "RedisCache_Get 1002 anon_key stale_cache = (Inr old_feed, stale_cache)"
    by (simp add: stale_cache_def empty_cache_def old_feed_json RedisCache_Set_def rd_set_def rd_next_def RedisCache_Get_def rd_get_def rd_live_def)
  have w: "fr_clock ?w = 1002" "fr_cache ?w = stale_cache" "fr_reads ?w = {old_read}" "fr_writer ?w 0 = Cleared 1001 1001"
    "rc_ttl stale_cache = 10" "fd_at old_read = 1000"
    by (simp_all add: demo_feed_def stale_cache_def empty_cache_def old_feed_json RedisCache_Set_def rd_set_def rd_next_def Let_def old_read_def demo_env_def)
  with hit have "RedisCache_Get (fr_clock ?w) anon_key (fr_cache ?w) = (Inr old_feed, stale_cache)" by simp
  from Feed_race [OF stale_reachable this] w(3) obtain t where t: "same_feed old_feed (fd_rows old_read)" "fr_clock ?w < t + rc_ttl (fr_cache ?w)"
    "\<And>x c i. fr_writer ?w x = Cleared c i \<Longrightarrow> c \<le> i \<and> i \<le> t" by auto
  from t(3) [OF w(4)] w t(1,2) have "same_feed old_feed (fd_rows old_read) \<and> fd_at old_read < 1001 \<and> 1001 \<le> t \<and> 1002 < t + 10" by simp
  then show ?thesis using hit by (simp add: gone_db_def) (auto simp: old_feed_def)
qed

text \<open>An outage of the database of a moment is cached too: the loop over the rows ends at once, and the empty feed is stored.\<close>

lemma outage_cached:
  "\<exists>a. MessageService_GetNearby plain_service demo_env anon_query
      \<lparr>a_db = demo_db\<lparr>t_links := [Unreachable]\<rparr>, a_cache = empty_cache, a_hub = NewHub\<rparr> = (Inr [], a) \<and>
    fst (RedisCache_Get (go_now demo_env) anon_key (a_cache a)) = Inr [] \<and> t_messages (a_db a) \<noteq> []"
proof -
  let ?d = "demo_db\<lparr>t_links := [Unreachable]\<rparr>"
  have "MessageRepo_GetNearby demo_env anon_query ?d = (Inr [], demo_db)"
    by (simp add: MessageRepo_GetNearby_def query_rows_def next_link_def nearby_query_def received_def hashtag_filter_def
        anon_query_def demo_query_def int4_ok_def Let_def demo_env_def demo_db_def empty_db_def)
  then have "fetch_nearby plain_service demo_env anon_query (Some anon_key) \<lparr>a_db = ?d, a_cache = empty_cache, a_hub = NewHub\<rparr> =
      (Inr [], \<lparr>a_db = demo_db, a_cache = snd (RedisCache_Set (go_now demo_env) anon_key [] empty_cache), a_hub = NewHub\<rparr>)"
    by (simp add: fetch_nearby_def on_db_eq old_feed_alone(3) rank_messages_def sort_slice_def)
  then show ?thesis
    using anon_facts
    by (simp add: MessageService_GetNearby_def query_key_def empty_cache_facts empty_cache_def RedisCache_Set_def rd_set_def rd_next_def
        RedisCache_Get_def rd_get_def rd_live_def demo_db_def)
qed

end
