(* ===== verification/Ws_Heartbeat.thy ===== *)
theory Ws_Heartbeat
  imports Ws_Hub
begin

text \<open>
  The clocks of \<open>backend/internal/ws/client.go\<close>. In \<open>Ws_Hub\<close> a read may fail at any time; this theory says when it does: the frames
  of a client arrive with their times, \<open>readPump\<close> keeps the deadline that its pong handler moves, and the ticker of \<open>writePump\<close> asks
  for a pong. Times are in nanoseconds.
\<close>

definition pongWait :: int where
  "pongWait = 60 * 1000000000"

definition pingPeriod :: int where
  "pingPeriod = (pongWait * 9) div 10"

definition maxMessageSize :: nat where
  "maxMessageSize = 512"

text \<open>What arrives: a pong, a message of some size, or the end of the connection.\<close>

datatype ws_frame = Pong | Data nat | Hangup

type_synonym arrivals = "(instant \<times> ws_frame) list"

text \<open>
  The loop of \<open>readPump\<close> with the current deadline; the result is the time at which it leaves the loop and unregisters the client. A
  message restarts nothing: only the pong handler moves the deadline. \<open>SetReadLimit\<close> makes a longer message an error.
\<close>

fun read_loop :: "instant \<Rightarrow> arrivals \<Rightarrow> instant" where
  "read_loop deadline [] = deadline"
| "read_loop deadline ((t, f) # es) =
     (if deadline \<le> t then deadline
      else (case f of
              Pong \<Rightarrow> read_loop (t + pongWait) es
            | Data n \<Rightarrow> if maxMessageSize < n then t else read_loop deadline es
            | Hangup \<Rightarrow> t))"

definition readPump :: "instant \<Rightarrow> arrivals \<Rightarrow> instant" where
  "readPump start es = read_loop (start + pongWait) es"

text \<open>
  The \<open>k\<close>-th tick of the ticker that \<open>writePump\<close> starts at \<open>tick\<close>, at which it writes a ping. \<open>readPump\<close> sets its first deadline at a time \<open>start\<close> of its
  own: the two goroutines start in either order.
\<close>

definition ping_at :: "instant \<Rightarrow> nat \<Rightarrow> instant" where
  "ping_at tick k = tick + int k * pingPeriod"

lemma periods: "pongWait = 60000000000" "pingPeriod = 54000000000"
  by (simp_all add: pongWait_def pingPeriod_def)

lemma ping_at_mono: "j \<le> k \<Longrightarrow> ping_at tick j \<le> ping_at tick k"
  by (simp add: ping_at_def periods)

section \<open>Silent clients\<close>

lemma read_loop_bound:
  assumes "deadline \<le> t0 + pongWait"
  shows "\<exists>t \<in> insert t0 {t. (t, Pong) \<in> set es}. read_loop deadline es \<le> t + pongWait"
  using assms
proof (induction es arbitrary: deadline t0)
  case (Cons e es)
  obtain t f where e: "e = (t, f)" by fastforce
  show ?case
  proof (cases "t < deadline")
    case True
    show ?thesis
    proof (cases f)
      case Pong
      from Cons.IH [of "t + pongWait" t] True show ?thesis by (auto simp: e Pong)
    next
      case (Data n)
      from Cons.IH [OF Cons.prems] True Cons.prems show ?thesis by (auto simp: e Data)
    qed (use True Cons.prems in \<open>auto simp: e\<close>)
  qed (use Cons.prems in \<open>auto simp: e\<close>)
qed auto

section \<open>Responsive clients\<close>

definition benign :: "ws_frame \<Rightarrow> bool" where
  "benign f \<longleftrightarrow> (case f of Pong \<Rightarrow> True | Data n \<Rightarrow> n \<le> maxMessageSize | Hangup \<Rightarrow> False)"

definition in_order :: "arrivals \<Rightarrow> bool" where
  "in_order es \<longleftrightarrow> sorted (map fst es) \<and> (\<forall>(t, f) \<in> set es. benign f)"

text \<open>The \<open>k\<close>-th ping is answered in time.\<close>

definition answered :: "instant \<Rightarrow> arrivals \<Rightarrow> nat \<Rightarrow> bool" where
  "answered tick es k \<longleftrightarrow>
     (\<exists>t. (t, Pong) \<in> set es \<and> ping_at tick k \<le> t \<and> t < ping_at tick k + (pongWait - pingPeriod))"

text \<open>Frames that are no errors never shorten the wait.\<close>

lemma read_loop_ge:
  assumes "in_order es" and "\<And>t f. (t, f) \<in> set es \<Longrightarrow> deadline \<le> t + pongWait"
  shows "deadline \<le> read_loop deadline es"
  using assms
proof (induction es arbitrary: deadline)
  case (Cons e es)
  obtain t f where e: "e = (t, f)" by fastforce
  have tail: "in_order es" "benign f" "\<And>t' f'. (t', f') \<in> set es \<Longrightarrow> t \<le> t'"
    using Cons.prems(1) by (auto simp: in_order_def e)
  have dl: "deadline \<le> t + pongWait" using Cons.prems(2) by (auto simp: e)
  have "t + pongWait \<le> read_loop (t + pongWait) es" by (rule Cons.IH [OF tail(1)]) (use tail(3) in auto)
  moreover have "deadline \<le> read_loop deadline es" by (rule Cons.IH [OF tail(1)]) (use Cons.prems(2) e in auto)
  ultimately show ?case using tail(2) dl by (auto simp: e benign_def split: ws_frame.splits)
qed simp

text \<open>
  \<open>readPump\<close> has answers to the pings after the \<open>j\<close>-th, and that to the next one comes before the present deadline.
\<close>

lemma read_loop_answered:
  assumes "in_order es" and "\<And>t f. (t, f) \<in> set es \<Longrightarrow> deadline \<le> t + pongWait"
    and "j = n \<Longrightarrow> ping_at tick n + pongWait \<le> deadline" and "j \<le> n" and "\<And>k. j < k \<Longrightarrow> k \<le> n \<Longrightarrow> answered tick es k"
    and "j < n \<Longrightarrow> \<exists>t. (t, Pong) \<in> set es \<and> ping_at tick (Suc j) \<le> t \<and> t < ping_at tick (Suc j) + (pongWait - pingPeriod) \<and> t < deadline"
  shows "ping_at tick n + pongWait \<le> read_loop deadline es"
  using assms
proof (induction es arbitrary: deadline j)
  case Nil
  then have "j = n" using Nil.prems(6) by (cases "j < n") auto
  with Nil.prems(3) show ?case by simp
next
  case (Cons e es)
  obtain t f where e: "e = (t, f)" by fastforce
  have tail: "in_order es" "benign f" "\<And>t' f'. (t', f') \<in> set es \<Longrightarrow> t \<le> t'"
    using Cons.prems(1) by (auto simp: in_order_def e)
  show ?case
  proof (cases "j = n")
    case True
    have "deadline \<le> read_loop deadline (e # es)" by (rule read_loop_ge [OF Cons.prems(1)]) (rule Cons.prems(2))
    with True Cons.prems(3) show ?thesis by simp
  next
    case False
    with Cons.prems(4,6) obtain a where a: "(a, Pong) \<in> set (e # es)" "ping_at tick (Suc j) \<le> a"
      "a < ping_at tick (Suc j) + (pongWait - pingPeriod)" "a < deadline" by auto
    then have soon: "t \<le> a" using tail(3) by (auto simp: e)
    then have alive: "t < deadline" using a(4) by simp
    have later: "answered tick es k" if "j < k" "k \<le> n" "f = Pong \<longrightarrow> t < ping_at tick k" for k
      using Cons.prems(5) [OF that(1,2)] that(3) by (auto simp: answered_def e)
    show ?thesis
    proof (cases "f = Pong \<and> ping_at tick (Suc j) \<le> t")
      case True
      have rest: "answered tick es k" if k: "Suc j < k" "k \<le> n" for k
      proof (rule later)
        show "f = Pong \<longrightarrow> t < ping_at tick k"
          using soon a(3) ping_at_mono [of "Suc (Suc j)" k tick] k(1) by (auto simp: ping_at_def periods algebra_simps)
      qed (use k in auto)
      have "ping_at tick n + pongWait \<le> read_loop (t + pongWait) es"
      proof (rule Cons.IH [OF tail(1), where j = "Suc j"])
        assume "Suc j < n"
        then obtain b where b: "(b, Pong) \<in> set es" "ping_at tick (Suc (Suc j)) \<le> b" "b < ping_at tick (Suc (Suc j)) + (pongWait - pingPeriod)"
          using rest [of "Suc (Suc j)"] by (auto simp: answered_def)
        with True show "\<exists>b. (b, Pong) \<in> set es \<and> ping_at tick (Suc (Suc j)) \<le> b \<and>
            b < ping_at tick (Suc (Suc j)) + (pongWait - pingPeriod) \<and> b < t + pongWait"
          by (intro exI [of _ b]) (auto simp: ping_at_def periods algebra_simps)
      qed (use True tail(3) Cons.prems(4) False rest in auto)
      with True alive show ?thesis by (simp add: e)
    next
      case early: False
      have rest: "answered tick es k" if "j < k" "k \<le> n" for k
        by (rule later [OF that]) (use early ping_at_mono [of "Suc j" k tick] that(1) in auto)
      have here: "(a, Pong) \<in> set es" using a(1,2) early by (auto simp: e)
      have dl: "deadline \<le> t + pongWait" using Cons.prems(2) by (auto simp: e)
      have "ping_at tick n + pongWait \<le> read_loop (t + pongWait) es"
        by (rule Cons.IH [OF tail(1) _ _ Cons.prems(4) rest]) (use tail(3) dl False here a in auto)
      moreover have "ping_at tick n + pongWait \<le> read_loop deadline es"
        by (rule Cons.IH [OF tail(1) _ _ Cons.prems(4) rest]) (use Cons.prems(2) e False here a in auto)
      ultimately show ?thesis using alive tail(2) by (auto simp: e benign_def split: ws_frame.splits)
    qed
  qed
qed

text \<open>C21: the heartbeat. A client is unregistered at most sixty seconds after its last pong, or after \<open>readPump\<close> started, whatever else it sends. One
  that answers each of the first \<open>n\<close> pings within six seconds, and the first one also before the sixty seconds of \<open>readPump\<close> are over (which follows if
  the ticker did not start later than \<open>readPump\<close>), and sends neither a message that is too long nor the end of the
  connection, is kept until sixty seconds after the \<open>n\<close>-th ping at least, and for \<open>n = 0\<close> until sixty seconds after \<open>readPump\<close> started.\<close>

theorem Heartbeat:
  "(\<exists>t \<in> insert start {t. (t, Pong) \<in> set es}. readPump start es \<le> t + 60 * 1000000000) \<and>
   (in_order es \<and> (\<forall>(t, f) \<in> set es. start \<le> t) \<and> (\<forall>k. 1 \<le> k \<and> k \<le> n \<longrightarrow>
      (\<exists>t. (t, Pong) \<in> set es \<and> ping_at tick k \<le> t \<and> t < ping_at tick k + 6 * 1000000000 \<and>
        (k = 1 \<longrightarrow> t < start + 60 * 1000000000))) \<longrightarrow>
    (if n = 0 then start else tick + int n * (54 * 1000000000)) + 60 * 1000000000 \<le> readPump start es)"
proof -
  have "(if n = 0 then start else tick + int n * (54 * 1000000000)) + 60 * 1000000000 \<le> readPump start es"
    if es: "in_order es" "\<forall>(t, f) \<in> set es. start \<le> t" and pongs: "\<And>k. 1 \<le> k \<Longrightarrow> k \<le> n \<Longrightarrow>
      \<exists>t. (t, Pong) \<in> set es \<and> ping_at tick k \<le> t \<and> t < ping_at tick k + 6 * 1000000000 \<and> (k = 1 \<longrightarrow> t < start + 60 * 1000000000)"
  proof (cases "n = 0")
    case True
    have "start + pongWait \<le> read_loop (start + pongWait) es" by (rule read_loop_ge [OF es(1)]) (use es(2) in auto)
    with True show ?thesis by (simp add: readPump_def periods)
  next
    case False
    have "answered tick es k" if "0 < k" "k \<le> n" for k using pongs [of k] that by (auto simp: answered_def periods)
    moreover from pongs [of 1] False have "\<exists>t. (t, Pong) \<in> set es \<and> ping_at tick (Suc 0) \<le> t \<and>
        t < ping_at tick (Suc 0) + (pongWait - pingPeriod) \<and> t < start + pongWait" by (auto simp: periods)
    ultimately have "ping_at tick n + pongWait \<le> read_loop (start + pongWait) es"
      using False es by (intro read_loop_answered [OF es(1), where j = 0]) auto
    with False show ?thesis by (simp add: readPump_def ping_at_def periods)
  qed
  then show ?thesis using read_loop_bound [of "start + pongWait" start es] by (auto simp: readPump_def periods)
qed

text \<open>A client whose ticker starts a second late, that answers the first ping after two seconds and sends a short message, stays for 115 seconds and, silent then, goes
  after 117.\<close>

lemma Heartbeat_witness:
  "readPump 0 [(5, Data 3), (57000000000, Pong)] = 117000000000 \<and> 115000000000 \<le> readPump 0 [(5, Data 3), (57000000000, Pong)]"
proof -
  have "tick + int 1 * (54 * 1000000000) + 60 * 1000000000 \<le> readPump start [(5, Data 3), (57000000000, Pong)]"
    if "start = 0" "tick = 1000000000" for start tick
    using Heartbeat [of start "[(5, Data 3), (57000000000, Pong)]" 1 tick] that
    by (simp add: in_order_def benign_def maxMessageSize_def ping_at_def periods)
  then show ?thesis by (simp add: readPump_def periods maxMessageSize_def)
qed

end
