(* ===== verification/Json_Decode.thy ===== *)
theory Json_Decode
  imports Api_Model
begin

text \<open>
  \<open>DecodeJSON\<close> of \<open>backend/internal/handler/helpers.go\<close>: how \<open>encoding/json\<close> stores a JSON value into a request struct. The
  reader that turns the bytes of a body into the first JSON value is an argument (\<open>None\<close>: a syntax error or an
  empty body); a number carries its value as a \<open>float64\<close> and, when its literal is an integer of 64 bits, as an \<open>int\<close>.
\<close>

section \<open>JSON values\<close>

datatype json =
    Json_null
  | Json_bool bool
  | Json_number "real option" "int option"
  | Json_string string
  | Json_array "json list"
  | Json_object "(string \<times> json) list"

section \<open>Storing into a struct\<close>

text \<open>Field names are compared exactly first, and then up to case; the folding takes the long s and the Kelvin sign to s and k.\<close>

fun fold_name :: "string \<Rightarrow> string" where
  "fold_name [] = []"
| "fold_name (a # s) =
     (if a = CHR 0xC5 \<and> prefix [CHR 0xBF] s then CHR ''s'' # fold_name (drop 1 s)
      else if a = CHR 0xE2 \<and> prefix [CHR 0x84, CHR 0xAA] s then CHR ''k'' # fold_name (drop 2 s)
      else lower_byte a # fold_name s)"

type_synonym 'r setter = "json \<Rightarrow> 'r \<Rightarrow> 'r option"

text \<open>\<open>null\<close> leaves a field as it is; a value of the wrong kind is an error.\<close>

fun set_string :: "(string \<Rightarrow> 'r \<Rightarrow> 'r) \<Rightarrow> 'r setter" where
  "set_string f (Json_string s) r = Some (f s r)"
| "set_string f Json_null r = Some r"
| "set_string f _ r = None"

fun set_float :: "(real \<Rightarrow> 'r \<Rightarrow> 'r) \<Rightarrow> 'r setter" where
  "set_float f (Json_number x i) r = map_option (\<lambda>v. f v r) x"
| "set_float f Json_null r = Some r"
| "set_float f _ r = None"

fun set_int :: "(int \<Rightarrow> 'r \<Rightarrow> 'r) \<Rightarrow> 'r setter" where
  "set_int f (Json_number x i) r = map_option (\<lambda>v. f v r) i"
| "set_int f Json_null r = Some r"
| "set_int f _ r = None"

definition field_for :: "(string \<times> 'r setter) list \<Rightarrow> string \<Rightarrow> 'r setter option" where
  "field_for fs key =
     (case map_of fs key of
        Some f \<Rightarrow> Some f
      | None \<Rightarrow> map_option snd (find (\<lambda>(n, f). fold_name n = fold_name key) fs))"

fun decode_members :: "(string \<times> 'r setter) list \<Rightarrow> (string \<times> json) list \<Rightarrow> 'r \<Rightarrow> 'r option" where
  "decode_members fs [] r = Some r"
| "decode_members fs ((key, v) # ms) r =
     (case field_for fs key of
        None \<Rightarrow> decode_members fs ms r
      | Some f \<Rightarrow> (case f v r of None \<Rightarrow> None | Some r' \<Rightarrow> decode_members fs ms r'))"

fun decode_struct :: "(string \<times> 'r setter) list \<Rightarrow> 'r \<Rightarrow> json \<Rightarrow> 'r option" where
  "decode_struct fs zero (Json_object ms) = decode_members fs ms zero"
| "decode_struct fs zero Json_null = Some zero"
| "decode_struct fs zero _ = None"

definition DecodeJSON :: "(string \<Rightarrow> json option) \<Rightarrow> (json \<Rightarrow> 'r option) \<Rightarrow> string \<Rightarrow> 'r option" where
  "DecodeJSON json_read decode body = (case json_read body of None \<Rightarrow> None | Some v \<Rightarrow> decode v)"

section \<open>The requests\<close>

definition decode_RegisterRequest :: "json \<Rightarrow> RegisterRequest option" where
  "decode_RegisterRequest = decode_struct
     [(''username'', set_string (\<lambda>s r. r\<lparr>reg_Username := s\<rparr>)), (''email'', set_string (\<lambda>s r. r\<lparr>reg_Email := s\<rparr>)),
      (''password'', set_string (\<lambda>s r. r\<lparr>reg_Password := s\<rparr>))]
     \<lparr>reg_Username = [], reg_Email = [], reg_Password = []\<rparr>"

definition decode_LoginRequest :: "json \<Rightarrow> LoginRequest option" where
  "decode_LoginRequest = decode_struct
     [(''email'', set_string (\<lambda>s r. r\<lparr>lgn_Email := s\<rparr>)), (''password'', set_string (\<lambda>s r. r\<lparr>lgn_Password := s\<rparr>))]
     \<lparr>lgn_Email = [], lgn_Password = []\<rparr>"

definition decode_CreateMessageRequest :: "json \<Rightarrow> CreateMessageRequest option" where
  "decode_CreateMessageRequest = decode_struct
     [(''content'', set_string (\<lambda>s r. r\<lparr>cmr_Content := s\<rparr>)), (''latitude'', set_float (\<lambda>x r. r\<lparr>cmr_Latitude := x\<rparr>)),
      (''longitude'', set_float (\<lambda>x r. r\<lparr>cmr_Longitude := x\<rparr>)), (''visibility'', set_string (\<lambda>s r. r\<lparr>cmr_Visibility := s\<rparr>)),
      (''message_type'', set_string (\<lambda>s r. r\<lparr>cmr_MessageType := s\<rparr>)),
      (''mystery_radius'', set_int (\<lambda>i r. r\<lparr>cmr_MysteryRadius := i\<rparr>)),
      (''scheduled_at'', set_string (\<lambda>s r. r\<lparr>cmr_ScheduledAt := s\<rparr>))]
     \<lparr>cmr_Content = [], cmr_Latitude = 0, cmr_Longitude = 0, cmr_Visibility = [], cmr_MessageType = [], cmr_MysteryRadius = 0,
      cmr_ScheduledAt = []\<rparr>"

definition decode_CreateCommentRequest :: "json \<Rightarrow> CreateCommentRequest option" where
  "decode_CreateCommentRequest = decode_struct [(''content'', set_string (\<lambda>s r. r\<lparr>ccr_Content := s\<rparr>))] \<lparr>ccr_Content = []\<rparr>"

definition decode_ReactionRequest :: "json \<Rightarrow> ReactionRequest option" where
  "decode_ReactionRequest = decode_struct [(''emoji'', set_string (\<lambda>s r. r\<lparr>rrq_Emoji := s\<rparr>))] \<lparr>rrq_Emoji = []\<rparr>"

definition decode_ReportRequest :: "json \<Rightarrow> ReportRequest option" where
  "decode_ReportRequest = decode_struct
     [(''reason'', set_string (\<lambda>s r. r\<lparr>rpt_Reason := s\<rparr>)), (''description'', set_string (\<lambda>s r. r\<lparr>rpt_Description := s\<rparr>))]
     \<lparr>rpt_Reason = [], rpt_Description = []\<rparr>"

text \<open>The anonymous struct of \<open>UnlockMystery\<close>.\<close>

record unlock_body =
  unl_Latitude :: real
  unl_Longitude :: real

definition decode_unlock_body :: "json \<Rightarrow> unlock_body option" where
  "decode_unlock_body = decode_struct
     [(''latitude'', set_float (\<lambda>x r. r\<lparr>unl_Latitude := x\<rparr>)), (''longitude'', set_float (\<lambda>x r. r\<lparr>unl_Longitude := x\<rparr>))]
     \<lparr>unl_Latitude = 0, unl_Longitude = 0\<rparr>"

section \<open>Round trip\<close>

text \<open>The object a client sends for a request.\<close>

definition encode_CreateMessageRequest :: "CreateMessageRequest \<Rightarrow> json" where
  "encode_CreateMessageRequest r = Json_object
     ([(''content'', Json_string (cmr_Content r)), (''latitude'', Json_number (Some (cmr_Latitude r)) None),
       (''longitude'', Json_number (Some (cmr_Longitude r)) None), (''visibility'', Json_string (cmr_Visibility r)),
       (''message_type'', Json_string (cmr_MessageType r))] @
      (if cmr_MysteryRadius r = 0 then []
       else [(''mystery_radius'', Json_number (Some (of_int (cmr_MysteryRadius r))) (Some (cmr_MysteryRadius r)))]) @
      (if cmr_ScheduledAt r = [] then [] else [(''scheduled_at'', Json_string (cmr_ScheduledAt r))]))"

lemma decode_encode_CreateMessageRequest:
  "decode_CreateMessageRequest (encode_CreateMessageRequest r) = Some r"
  by (cases r) (simp add: decode_CreateMessageRequest_def encode_CreateMessageRequest_def field_for_def)

end
