(* ===== verification/Json_Encode.thy ===== *)
theory Json_Encode
  imports Json_Decode Ws_Hub
begin

text \<open>
  How \<open>encoding/json\<close> writes a message by the tags of \<open>backend/internal/model/message.go\<close> and reads it back: this is what
  \<open>cache.RedisCache\<close> stores and loads, and what the hub sends. The text of a time is an argument (\<open>None\<close>: a year that RFC 3339 cannot
  write), and so is reading it; strings are valid UTF-8, as everything that comes out of the database.
\<close>

section \<open>Writing\<close>

text \<open>A float that is a whole number is written without a fraction, so that it also reads as an integer when it fits 64 bits.\<close>

definition encode_float :: "real \<Rightarrow> json" where
  "encode_float x = Json_number (Some x) (if of_int \<lfloor>x\<rfloor> = x \<and> - (2 ^ 63) \<le> \<lfloor>x\<rfloor> \<and> \<lfloor>x\<rfloor> < 2 ^ 63 then Some \<lfloor>x\<rfloor> else None)"

definition encode_int :: "int \<Rightarrow> json" where
  "encode_int i = Json_number (Some (of_int i)) (Some i)"

definition encode_ReactionSummary :: "ReactionSummary \<Rightarrow> json" where
  "encode_ReactionSummary s = Json_object
     [(''emoji'', Json_string (rsm_Emoji s)), (''count'', encode_int (rsm_Count s)), (''reacted'', Json_bool (rsm_Reacted s))]"

text \<open>\<open>omitempty\<close>: a nil pointer, a zero or an empty slice is left out.\<close>

definition omit_nil :: "string \<Rightarrow> json option \<Rightarrow> (string \<times> json) list" where
  "omit_nil key v = (case v of None \<Rightarrow> [] | Some j \<Rightarrow> [(key, j)])"

definition omit_zero :: "string \<Rightarrow> int \<Rightarrow> (string \<times> json) list" where
  "omit_zero key i = (if i = 0 then [] else [(key, encode_int i)])"

definition omit_empty :: "string \<Rightarrow> json list \<Rightarrow> (string \<times> json) list" where
  "omit_empty key js = (if js = [] then [] else [(key, Json_array js)])"

text \<open>Hashtags: \<open>extractHashtags\<close> returns a nil slice when there are none, which the database stores as \<open>NULL\<close>, which is scanned as
  a nil slice, which is written as \<open>null\<close>. An empty slice that is not nil would be written as \<open>[]\<close> and be read as the same list.\<close>

definition encode_hashtags :: "string list \<Rightarrow> json" where
  "encode_hashtags tags = (if tags = [] then Json_null else Json_array (map Json_string tags))"

text \<open>The times of a message that has been written, or the error of the first that cannot be.\<close>

definition encode_time :: "(instant \<Rightarrow> string option) \<Rightarrow> instant option \<Rightarrow> json option option" where
  "encode_time fmt t = (case t of None \<Rightarrow> Some None | Some x \<Rightarrow> map_option (\<lambda>s. Some (Json_string s)) (fmt x))"

definition message_members :: "Message \<Rightarrow> string \<Rightarrow> json option \<Rightarrow> json option \<Rightarrow> (string \<times> json) list" where
  "message_members m created expires scheduled =
     [(''id'', Json_string (msg_ID m)), (''user_id'', Json_string (msg_UserID m)), (''username'', Json_string (msg_Username m)),
      (''content'', Json_string (msg_Content m)), (''latitude'', encode_float (msg_Latitude m)),
      (''longitude'', encode_float (msg_Longitude m)), (''visibility'', Json_string (msg_Visibility m)),
      (''hashtags'', encode_hashtags (msg_Hashtags m)), (''likes_count'', encode_int (msg_LikesCount m)),
      (''comments_count'', encode_int (msg_CommentsCount m))] @
     omit_nil ''distance_meters'' (map_option encode_float (msg_Distance m)) @
     [(''created_at'', Json_string created), (''message_type'', Json_string (msg_MessageType m))] @
     omit_nil ''expires_at'' expires @ omit_zero ''mystery_radius'' (msg_MysteryRadius m) @ omit_nil ''scheduled_at'' scheduled @
     omit_zero ''unlocks_count'' (msg_UnlocksCount m) @ omit_empty ''reactions'' (map encode_ReactionSummary (msg_Reactions m))"

definition encode_Message :: "(instant \<Rightarrow> string option) \<Rightarrow> Message \<Rightarrow> json option" where
  "encode_Message fmt m =
     (case (fmt (msg_CreatedAt m), encode_time fmt (msg_ExpiresAt m), encode_time fmt (msg_ScheduledAt m)) of
        (Some c, Some e, Some s) \<Rightarrow> Some (Json_object (message_members m c e s))
      | _ \<Rightarrow> None)"

definition encode_messages :: "(instant \<Rightarrow> string option) \<Rightarrow> Message list \<Rightarrow> json option" where
  "encode_messages fmt ms = map_option Json_array (those (map (encode_Message fmt) ms))"

definition encode_ws_Event :: "(instant \<Rightarrow> string option) \<Rightarrow> ws_Event \<Rightarrow> json option" where
  "encode_ws_Event fmt e =
     map_option (\<lambda>p. Json_object [(''type'', Json_string (ev_Type e)), (''payload'', p)]) (encode_Message fmt (ev_Payload e))"

section \<open>Reading\<close>

fun set_bool :: "(bool \<Rightarrow> 'r \<Rightarrow> 'r) \<Rightarrow> 'r setter" where
  "set_bool f (Json_bool b) r = Some (f b r)"
| "set_bool f Json_null r = Some r"
| "set_bool f _ r = None"

fun set_time :: "(string \<Rightarrow> instant option) \<Rightarrow> (instant \<Rightarrow> 'r \<Rightarrow> 'r) \<Rightarrow> 'r setter" where
  "set_time parse f (Json_string s) r = map_option (\<lambda>t. f t r) (parse s)"
| "set_time parse f Json_null r = Some r"
| "set_time parse f _ r = None"

text \<open>A pointer: \<open>null\<close> makes it nil, anything else is stored in a new value.\<close>

definition set_pointer :: "(('v \<Rightarrow> 'v option \<Rightarrow> 'v option) \<Rightarrow> 'v option setter) \<Rightarrow> ('v option \<Rightarrow> 'r \<Rightarrow> 'r) \<Rightarrow> 'r setter" where
  "set_pointer setv f j r = (if j = Json_null then Some (f None r) else map_option (\<lambda>v. f v r) (setv (\<lambda>v _. Some v) j None))"

text \<open>A slice: \<open>null\<close> makes it nil, and every element of an array is stored in a new one, \<open>zero\<close> at first.\<close>

fun set_slice :: "(json \<Rightarrow> 'v option) \<Rightarrow> ('v list \<Rightarrow> 'r \<Rightarrow> 'r) \<Rightarrow> 'r setter" where
  "set_slice elem f (Json_array js) r = map_option (\<lambda>vs. f vs r) (those (map elem js))"
| "set_slice elem f Json_null r = Some (f [] r)"
| "set_slice elem f _ r = None"

definition decode_string :: "json \<Rightarrow> string option" where
  "decode_string j = set_string (\<lambda>s _. s) j []"

definition decode_ReactionSummary :: "json \<Rightarrow> ReactionSummary option" where
  "decode_ReactionSummary = decode_struct
     [(''emoji'', set_string (\<lambda>s r. r\<lparr>rsm_Emoji := s\<rparr>)), (''count'', set_int (\<lambda>i r. r\<lparr>rsm_Count := i\<rparr>)),
      (''reacted'', set_bool (\<lambda>b r. r\<lparr>rsm_Reacted := b\<rparr>))]
     \<lparr>rsm_Emoji = [], rsm_Count = 0, rsm_Reacted = False\<rparr>"

definition zero_Message :: Message where
  "zero_Message = \<lparr>msg_ID = [], msg_UserID = [], msg_Username = [], msg_Content = [], msg_Latitude = 0, msg_Longitude = 0, msg_Visibility = [],
     msg_Hashtags = [], msg_LikesCount = 0, msg_CommentsCount = 0, msg_Distance = None, msg_CreatedAt = 0, msg_MessageType = [],
     msg_ExpiresAt = None, msg_MysteryRadius = 0, msg_ScheduledAt = None, msg_UnlocksCount = 0, msg_Reactions = []\<rparr>"

definition message_fields :: "(string \<Rightarrow> instant option) \<Rightarrow> (string \<times> Message setter) list" where
  "message_fields parse =
     [(''id'', set_string (\<lambda>s r. r\<lparr>msg_ID := s\<rparr>)), (''user_id'', set_string (\<lambda>s r. r\<lparr>msg_UserID := s\<rparr>)),
      (''username'', set_string (\<lambda>s r. r\<lparr>msg_Username := s\<rparr>)), (''content'', set_string (\<lambda>s r. r\<lparr>msg_Content := s\<rparr>)),
      (''latitude'', set_float (\<lambda>x r. r\<lparr>msg_Latitude := x\<rparr>)), (''longitude'', set_float (\<lambda>x r. r\<lparr>msg_Longitude := x\<rparr>)),
      (''visibility'', set_string (\<lambda>s r. r\<lparr>msg_Visibility := s\<rparr>)), (''hashtags'', set_slice decode_string (\<lambda>v r. r\<lparr>msg_Hashtags := v\<rparr>)),
      (''likes_count'', set_int (\<lambda>i r. r\<lparr>msg_LikesCount := i\<rparr>)), (''comments_count'', set_int (\<lambda>i r. r\<lparr>msg_CommentsCount := i\<rparr>)),
      (''distance_meters'', set_pointer set_float (\<lambda>v r. r\<lparr>msg_Distance := v\<rparr>)),
      (''created_at'', set_time parse (\<lambda>t r. r\<lparr>msg_CreatedAt := t\<rparr>)), (''message_type'', set_string (\<lambda>s r. r\<lparr>msg_MessageType := s\<rparr>)),
      (''expires_at'', set_pointer (set_time parse) (\<lambda>v r. r\<lparr>msg_ExpiresAt := v\<rparr>)),
      (''mystery_radius'', set_int (\<lambda>i r. r\<lparr>msg_MysteryRadius := i\<rparr>)),
      (''scheduled_at'', set_pointer (set_time parse) (\<lambda>v r. r\<lparr>msg_ScheduledAt := v\<rparr>)),
      (''unlocks_count'', set_int (\<lambda>i r. r\<lparr>msg_UnlocksCount := i\<rparr>)),
      (''reactions'', set_slice decode_ReactionSummary (\<lambda>v r. r\<lparr>msg_Reactions := v\<rparr>))]"

definition decode_Message :: "(string \<Rightarrow> instant option) \<Rightarrow> json \<Rightarrow> Message option" where
  "decode_Message parse = decode_struct (message_fields parse) zero_Message"

definition decode_messages :: "(string \<Rightarrow> instant option) \<Rightarrow> json \<Rightarrow> Message list option" where
  "decode_messages parse j = set_slice (decode_Message parse) (\<lambda>v _. v) j []"

section \<open>Round trip\<close>

lemma decode_members_append:
  "decode_members fs (xs @ ys) r = (case decode_members fs xs r of None \<Rightarrow> None | Some r' \<Rightarrow> decode_members fs ys r')"
  by (induction fs xs r rule: decode_members.induct) (auto split: option.splits)

lemma those_map: "(\<And>x. x \<in> set xs \<Longrightarrow> f x = Some (g x)) \<Longrightarrow> those (map f xs) = Some (map g xs)"
  by (induction xs) auto

lemma field_for_known: "map_of fs key = Some f \<Longrightarrow> field_for fs key = Some f"
  by (simp add: field_for_def)

lemma reaction_roundtrip: "decode_ReactionSummary (encode_ReactionSummary s) = Some s"
  by (cases s) (simp add: decode_ReactionSummary_def encode_ReactionSummary_def encode_int_def field_for_known)

lemma slices_roundtrip:
  "those (map (decode_string \<circ> Json_string) ss) = Some ss"
  "those (map (decode_ReactionSummary \<circ> encode_ReactionSummary) rs) = Some rs"
  using those_map [of ss "decode_string \<circ> Json_string" id] those_map [of rs "decode_ReactionSummary \<circ> encode_ReactionSummary" id]
  by (simp_all add: decode_string_def reaction_roundtrip comp_def)

lemma hashtags_roundtrip: "set_slice decode_string f (encode_hashtags tags) r = Some (f tags r)"
  by (simp add: encode_hashtags_def slices_roundtrip)

text \<open>A member that is left out leaves the zero value, a member that is there is stored.\<close>

lemma decode_omit:
  assumes "map_of fs key = Some f"
  shows "decode_members fs (omit_nil key v) r = (case v of None \<Rightarrow> Some r | Some j \<Rightarrow> f j r)"
    "decode_members fs (omit_zero key i) r = (if i = 0 then Some r else f (encode_int i) r)"
    "decode_members fs (omit_empty key js) r = (if js = [] then Some r else f (Json_array js) r)"
  using assms by (auto simp: omit_nil_def omit_zero_def omit_empty_def field_for_known split: option.splits)

lemma decode_member:
  assumes "map_of fs key = Some f"
  shows "decode_members fs ((key, v) # ms) r = (case f v r of None \<Rightarrow> None | Some r' \<Rightarrow> decode_members fs ms r')"
  using assms by (simp add: field_for_known)

lemma message_field:
  shows "map_of (message_fields parse) ''id'' = Some (set_string (\<lambda>s r. r\<lparr>msg_ID := s\<rparr>))"
    "map_of (message_fields parse) ''user_id'' = Some (set_string (\<lambda>s r. r\<lparr>msg_UserID := s\<rparr>))"
    "map_of (message_fields parse) ''username'' = Some (set_string (\<lambda>s r. r\<lparr>msg_Username := s\<rparr>))"
    "map_of (message_fields parse) ''content'' = Some (set_string (\<lambda>s r. r\<lparr>msg_Content := s\<rparr>))"
    "map_of (message_fields parse) ''latitude'' = Some (set_float (\<lambda>x r. r\<lparr>msg_Latitude := x\<rparr>))"
    "map_of (message_fields parse) ''longitude'' = Some (set_float (\<lambda>x r. r\<lparr>msg_Longitude := x\<rparr>))"
    "map_of (message_fields parse) ''visibility'' = Some (set_string (\<lambda>s r. r\<lparr>msg_Visibility := s\<rparr>))"
    "map_of (message_fields parse) ''hashtags'' = Some (set_slice decode_string (\<lambda>v r. r\<lparr>msg_Hashtags := v\<rparr>))"
    "map_of (message_fields parse) ''likes_count'' = Some (set_int (\<lambda>i r. r\<lparr>msg_LikesCount := i\<rparr>))"
    "map_of (message_fields parse) ''comments_count'' = Some (set_int (\<lambda>i r. r\<lparr>msg_CommentsCount := i\<rparr>))"
    "map_of (message_fields parse) ''distance_meters'' = Some (set_pointer set_float (\<lambda>v r. r\<lparr>msg_Distance := v\<rparr>))"
    "map_of (message_fields parse) ''created_at'' = Some (set_time parse (\<lambda>t r. r\<lparr>msg_CreatedAt := t\<rparr>))"
    "map_of (message_fields parse) ''message_type'' = Some (set_string (\<lambda>s r. r\<lparr>msg_MessageType := s\<rparr>))"
    "map_of (message_fields parse) ''expires_at'' = Some (set_pointer (set_time parse) (\<lambda>v r. r\<lparr>msg_ExpiresAt := v\<rparr>))"
    "map_of (message_fields parse) ''mystery_radius'' = Some (set_int (\<lambda>i r. r\<lparr>msg_MysteryRadius := i\<rparr>))"
    "map_of (message_fields parse) ''scheduled_at'' = Some (set_pointer (set_time parse) (\<lambda>v r. r\<lparr>msg_ScheduledAt := v\<rparr>))"
    "map_of (message_fields parse) ''unlocks_count'' = Some (set_int (\<lambda>i r. r\<lparr>msg_UnlocksCount := i\<rparr>))"
    "map_of (message_fields parse) ''reactions'' = Some (set_slice decode_ReactionSummary (\<lambda>v r. r\<lparr>msg_Reactions := v\<rparr>))"
  by (simp_all add: message_fields_def)

text \<open>The optional members, into a message that has the zero value there.\<close>

lemma decode_optional:
  "msg_Distance r = None \<Longrightarrow> decode_members (message_fields parse) (omit_nil ''distance_meters'' (map_option encode_float x)) r = Some (r\<lparr>msg_Distance := x\<rparr>)"
  "msg_MysteryRadius r = 0 \<Longrightarrow> decode_members (message_fields parse) (omit_zero ''mystery_radius'' i) r = Some (r\<lparr>msg_MysteryRadius := i\<rparr>)"
  "msg_UnlocksCount r = 0 \<Longrightarrow> decode_members (message_fields parse) (omit_zero ''unlocks_count'' i) r = Some (r\<lparr>msg_UnlocksCount := i\<rparr>)"
  "msg_Reactions r = [] \<Longrightarrow>
   decode_members (message_fields parse) (omit_empty ''reactions'' (map encode_ReactionSummary rs)) r = Some (r\<lparr>msg_Reactions := rs\<rparr>)"
  by (cases x; simp add: decode_omit(1) [OF message_field(11)] set_pointer_def encode_float_def)
    (simp_all add: decode_omit(2) [OF message_field(15)] decode_omit(2) [OF message_field(17)] decode_omit(3) [OF message_field(18)]
      encode_int_def slices_roundtrip)

lemma decode_times:
  assumes "\<And>t s. fmt t = Some s \<Longrightarrow> parse s = Some t" and "encode_time fmt t = Some v"
  shows "msg_ExpiresAt r = None \<Longrightarrow> decode_members (message_fields parse) (omit_nil ''expires_at'' v) r = Some (r\<lparr>msg_ExpiresAt := t\<rparr>)"
    "msg_ScheduledAt r = None \<Longrightarrow> decode_members (message_fields parse) (omit_nil ''scheduled_at'' v) r = Some (r\<lparr>msg_ScheduledAt := t\<rparr>)"
  using assms by (cases t; auto simp: decode_omit(1) [OF message_field(14)] decode_omit(1) [OF message_field(16)]
      encode_time_def set_pointer_def)+

lemma Message_roundtrip:
  assumes "\<And>t s. fmt t = Some s \<Longrightarrow> parse s = Some t" and "encode_Message fmt m = Some j"
  shows "decode_Message parse j = Some m"
proof -
  from assms(2) obtain c e s where c: "fmt (msg_CreatedAt m) = Some c" and e: "encode_time fmt (msg_ExpiresAt m) = Some e"
    and s: "encode_time fmt (msg_ScheduledAt m) = Some s" and j: "j = Json_object (message_members m c e s)"
    by (auto simp: encode_Message_def split: option.splits prod.splits)
  note times = decode_times(1) [OF assms(1) e] decode_times(2) [OF assms(1) s] assms(1) [OF c]
  show ?thesis
    unfolding j decode_Message_def decode_struct.simps message_members_def
    by (simp add: decode_members_append decode_optional field_for_known message_field times hashtags_roundtrip
        encode_float_def encode_int_def zero_Message_def)
qed

lemma those_map_Some:
  "those (map f xs) = Some ys \<Longrightarrow> (\<And>x y. x \<in> set xs \<Longrightarrow> f x = Some y \<Longrightarrow> g y = Some x) \<Longrightarrow> those (map g ys) = Some xs"
  by (induction xs arbitrary: ys) (fastforce split: option.splits)+

lemma those_map_None: "those (map f xs) = None \<Longrightarrow> (\<And>x. x \<in> set xs \<Longrightarrow> f x = None \<Longrightarrow> P) \<Longrightarrow> P"
  by (induction xs) (auto split: option.splits)

lemma unwritable:
  "encode_Message fmt m = None \<Longrightarrow>
   \<exists>t \<in> insert (msg_CreatedAt m) (set_option (msg_ExpiresAt m) \<union> set_option (msg_ScheduledAt m)). fmt t = None"
  by (auto simp: encode_Message_def encode_time_def split: option.splits)

text \<open>C35: what the cache reads back is what it stored: a list of messages that \<open>json.Marshal\<close> writes under the tags of \<open>model.Message\<close>
  is read by \<open>json.Unmarshal\<close> as the same list, the members that \<open>omitempty\<close> leaves out included, whenever the text of a time reads back
  as that time; and writing fails only for a message with a time that has no such text.\<close>

theorem Messages_json_roundtrip:
  assumes "\<And>t s. fmt t = Some s \<Longrightarrow> parse s = Some t"
  shows "case encode_messages fmt ms of
      Some j \<Rightarrow> decode_messages parse j = Some ms
    | None \<Rightarrow> \<exists>m \<in> set ms. \<exists>t \<in> insert (msg_CreatedAt m) (set_option (msg_ExpiresAt m) \<union> set_option (msg_ScheduledAt m)). fmt t = None"
proof (cases "those (map (encode_Message fmt) ms)")
  case None
  then obtain m where "m \<in> set ms" "encode_Message fmt m = None" by (rule those_map_None)
  then show ?thesis using None unwritable by (force simp: encode_messages_def)
next
  case (Some js)
  then show ?thesis using those_map_Some [OF Some Message_roundtrip [OF assms]]
    by (simp add: encode_messages_def decode_messages_def)
qed

text \<open>A message with a mystery radius and a reaction, without distance, expiry or schedule.\<close>

definition json_message :: Message where
  "json_message = zero_Message\<lparr>msg_ID := ''m1'', msg_Hashtags := [''go'', ''geo''], msg_LikesCount := 2, msg_CreatedAt := 5,
     msg_MysteryRadius := 50, msg_Reactions := [\<lparr>rsm_Emoji = ''x'', rsm_Count = 1, rsm_Reacted = True\<rparr>]\<rparr>"

definition stamp_fmt :: "instant \<Rightarrow> string option" where
  "stamp_fmt t = (if t = 5 then Some ''2024'' else None)"

definition stamp_parse :: "string \<Rightarrow> instant option" where
  "stamp_parse s = (if s = ''2024'' then Some 5 else None)"

lemma stamp_law: "stamp_fmt t = Some s \<Longrightarrow> stamp_parse s = Some t"
  by (auto simp: stamp_fmt_def stamp_parse_def split: if_splits)

theorem Messages_json_roundtrip_witness:
  "\<exists>j. encode_messages stamp_fmt [json_message, zero_Message\<lparr>msg_CreatedAt := 5\<rparr>] = Some j \<and>
    decode_messages stamp_parse j = Some [json_message, zero_Message\<lparr>msg_CreatedAt := 5\<rparr>]"
  using Messages_json_roundtrip [where fmt = stamp_fmt and parse = stamp_parse and ms = "[json_message, zero_Message\<lparr>msg_CreatedAt := 5\<rparr>]", OF stamp_law]
  by (simp add: encode_messages_def encode_Message_def encode_time_def json_message_def zero_Message_def stamp_fmt_def)

end
