(* ===== verification/User_Repo.thy ===== *)
theory User_Repo
  imports Message_Repo
begin

text \<open>\<open>backend/internal/repository/user_repo.go\<close>.\<close>

section \<open>Create, GetByEmail, GetByID\<close>

definition create_user_stmt :: "env \<Rightarrow> user \<Rightarrow> (string \<times> instant) list stmt" where
  "create_user_stmt env u d =
     (case gen_uuid env d of (i, d1) \<Rightarrow>
        (case insert_user \<lparr>ur_id = i, ur_username = usr_Username u, ur_email = usr_Email u,
                 ur_password_hash = usr_PasswordHash u, ur_avatar_url = None, ur_is_anonymous = False,
                 ur_created_at = db_now env\<rparr> d1 of
           Inl e \<Rightarrow> (Inl e, d) | Inr d2 \<Rightarrow> (Inr [(i, db_now env)], d2)))"

text \<open>\<open>Create\<close> writes the new id and creation time into the struct it is given.\<close>

definition UserRepo_Create :: "env \<Rightarrow> user \<Rightarrow> user action" where
  "UserRepo_Create env u d =
     (case first_row (exec (create_user_stmt env u) d) of
        (Inl e, d1) \<Rightarrow> (Inl e, d1)
      | (Inr (i, t), d1) \<Rightarrow> (Inr (u\<lparr>usr_ID := i, usr_CreatedAt := t\<rparr>), d1))"

definition scan_user :: "user_row \<Rightarrow> user" where
  "scan_user r = \<lparr>usr_ID = ur_id r, usr_Username = ur_username r, usr_Email = ur_email r,
     usr_PasswordHash = ur_password_hash r, usr_AvatarURL = ur_avatar_url r,
     usr_IsAnonymous = ur_is_anonymous r, usr_CreatedAt = ur_created_at r\<rparr>"

definition UserRepo_GetByEmail :: "env \<Rightarrow> string \<Rightarrow> user action" where
  "UserRepo_GetByEmail env email d =
     first_row (query (\<lambda>d. if \<not> pg_text_ok email then Inl InvalidByteSequence
        else Inr (map scan_user (filter (\<lambda>r. ur_email r = email) (t_users d)))) d)"

text \<open>\<open>GetByID\<close> does not select the password hash.\<close>

definition UserRepo_GetByID :: "env \<Rightarrow> string \<Rightarrow> user action" where
  "UserRepo_GetByID env i d =
     first_row (query (\<lambda>d. case uuid_param env i of Inl e \<Rightarrow> Inl e | Inr uid \<Rightarrow>
        Inr (map (\<lambda>r. (scan_user r)\<lparr>usr_PasswordHash := []\<rparr>) (filter (\<lambda>r. ur_id r = uid) (t_users d)))) d)"

section \<open>SearchByUsername\<close>

text \<open>\<open>LIKE\<close>: a percent sign stands for any text, an underscore for one character, a backslash
  takes the next character as it is. Usernames are ASCII, so a character of the subject is a byte.\<close>

fun pg_like :: "string \<Rightarrow> string \<Rightarrow> bool" where
  "pg_like [] s \<longleftrightarrow> s = []"
| "pg_like (c # p) s \<longleftrightarrow>
     (if c = CHR ''%'' then pg_like p s \<or> (case s of [] \<Rightarrow> False | x # xs \<Rightarrow> pg_like (c # p) xs)
      else if c = CHR ''_'' then (case s of [] \<Rightarrow> False | x # xs \<Rightarrow> pg_like p xs)
      else if c = CHR 0x5C then
        (case p of [] \<Rightarrow> False
         | e # p' \<Rightarrow> (case s of [] \<Rightarrow> False | x # xs \<Rightarrow> x = e \<and> pg_like p' xs))
      else (case s of [] \<Rightarrow> False | x # xs \<Rightarrow> x = c \<and> pg_like p xs))"

definition pg_ilike :: "env \<Rightarrow> string \<Rightarrow> string \<Rightarrow> bool" where
  "pg_ilike env s pat \<longleftrightarrow> pg_like (pg_lower env pat) (pg_lower env s)"

definition UserRepo_SearchByUsername ::
  "env \<Rightarrow> string \<Rightarrow> int \<Rightarrow> int \<Rightarrow> (UserSummary list \<times> int) action" where
  "UserRepo_SearchByUsername env q limit offset d =
     (let pat = ''%'' @ q @ ''%'' in
      case query (\<lambda>d. if \<not> pg_text_ok pat then Inl InvalidByteSequence
              else Inr (int (count_where (\<lambda>r. pg_ilike env (ur_username r) pat) (t_users d)))) d of
        (Inl e, d1) \<Rightarrow> (Inl e, d1)
      | (Inr cnt, d1) \<Rightarrow>
          (case query_rows env (\<lambda>d. Inr (map (\<lambda>r. \<lparr>usm_ID = ur_id r, usm_Username = ur_username r\<rparr>)
                    (take (nat limit) (drop (nat offset) (sort_key (\<lambda>r. pg_collate env (ur_username r))
                      (filter (\<lambda>r. pg_ilike env (ur_username r) pat) (t_users d))))))) d1 of
             (Inl e, d2) \<Rightarrow> (Inl e, d2)
           | (Inr us, d2) \<Rightarrow> (Inr (us, cnt), d2)))"

section \<open>Facts\<close>

interpretation create_user_stmt: pg_statement "create_user_stmt env u" for env u
proof
  fix d x d'
  assume "create_user_stmt env u d = (Inr x, d')"
  then obtain r d1 where ins: "insert_user r d1 = Inr d'" and d1: "d1 = d\<lparr>t_uuids := Suc (t_uuids d)\<rparr>"
    by (auto simp: create_user_stmt_def gen_uuid_def split: sum.splits)
  from ins d1 show "t_links d' = t_links d" by (auto simp: insert_user_def split: if_splits)
  assume "db_ok d"
  then show "db_ok d'" using insert_user_ok [OF ins] by (simp add: d1)
qed

lemma UserRepo_Create_inv [db_inv]: "db_ok d \<Longrightarrow> db_ok (snd (UserRepo_Create env u d))"
  using create_user_stmt.exec_keeps [of d env u, folded first_row_snd [of "exec (create_user_stmt env u) d"]]
  by (auto simp del: first_row_snd simp: UserRepo_Create_def split: prod.splits sum.splits)

lemma UserRepo_reads_inv [db_inv]:
  assumes "db_ok d"
  shows "db_ok (snd (UserRepo_GetByEmail env email d))" "db_ok (snd (UserRepo_GetByID env i d))"
  using assms by (simp_all add: UserRepo_GetByEmail_def UserRepo_GetByID_def query_keeps)

text \<open>Email addresses are unique, so a lookup finds the one row with the address.\<close>

lemma GetByEmail_found:
  assumes "db_ok d" and "t_links d = []" and "r \<in> set (t_users d)" and "pg_text_ok (ur_email r)"
  shows "UserRepo_GetByEmail env (ur_email r) d = (Inr (scan_user r), d)"
proof -
  have "distinct (map ur_email (t_users d))" using assms(1) by (simp add: db_ok_def wf_users_def)
  from filter_unique_key [OF this assms(3)] assms(2,4) show ?thesis
    by (simp add: UserRepo_GetByEmail_def query_up first_row_def)
qed

text \<open>The equation for a pattern character, by the kind of the character.\<close>

declare pg_like.simps(2) [simp del]

definition like_literal :: "char \<Rightarrow> bool" where
  "like_literal c \<longleftrightarrow> c \<noteq> CHR ''%'' \<and> c \<noteq> CHR ''_'' \<and> c \<noteq> CHR 0x5C"

lemma pg_like_literal:
  "like_literal c \<Longrightarrow> pg_like (c # p) [] = False"
  "like_literal c \<Longrightarrow> pg_like (c # p) (x # xs) \<longleftrightarrow> x = c \<and> pg_like p xs"
  by (auto simp: like_literal_def pg_like.simps(2))

lemma pg_like_percent: "pg_like (CHR ''%'' # p) s \<longleftrightarrow> (\<exists>n \<le> length s. pg_like p (drop n s))"
proof (induction s)
  case (Cons x xs)
  have "(\<exists>n \<le> length (x # xs). pg_like p (drop n (x # xs))) \<longleftrightarrow>
      pg_like p (x # xs) \<or> (\<exists>n \<le> length xs. pg_like p (drop n xs))"
    by (metis drop0 drop_Suc_Cons le0 length_Cons not0_implies_Suc Suc_le_mono)
  with Cons show ?case by (simp add: pg_like.simps(2))
qed (simp add: pg_like.simps(2))

text \<open>The pattern is not escaped: a query of one percent sign matches every username.\<close>

lemma pg_like_all: "pg_like ''%'' s"
  by (auto simp: pg_like_percent)

lemma pg_like_literal_prefix:
  "list_all like_literal q \<Longrightarrow> pg_like (q @ ''%'') s \<longleftrightarrow> prefix q s"
proof (induction q arbitrary: s)
  case (Cons c q)
  then show ?case by (cases s) (auto simp: pg_like_literal)
qed (simp add: pg_like_all)

text \<open>A query without wildcards matches the usernames that contain it.\<close>

lemma pg_like_contains:
  assumes "list_all like_literal q"
  shows "pg_like (''%'' @ q @ ''%'') s \<longleftrightarrow> sublist q s"
proof
  assume "pg_like (''%'' @ q @ ''%'') s"
  then obtain n where "prefix q (drop n s)"
    using assms by (auto simp: pg_like_percent pg_like_literal_prefix)
  then show "sublist q s"
    by (meson prefix_imp_sublist sublist_drop sublist_order.order.trans)
next
  assume "sublist q s"
  then obtain pre post where s: "s = pre @ q @ post" by (auto simp: sublist_def)
  then have "pg_like (q @ ''%'') (drop (length pre) s)" using assms by (simp add: pg_like_literal_prefix)
  moreover have "length pre \<le> length s" using s by simp
  ultimately show "pg_like (''%'' @ q @ ''%'') s" by (auto simp: pg_like_percent)
qed

end
