(* ===== verification/Search_Service.thy ===== *)
theory Search_Service
  imports User_Repo
begin

text \<open>\<open>backend/internal/service/search_service.go\<close>: search by hashtag or username, in pages.\<close>

section \<open>Operations\<close>

definition mask_search :: "Message \<Rightarrow> Message" where
  "mask_search m = (if msg_MessageType m = ''mystery'' then m\<lparr>msg_Content := ''???''\<rparr> else m)"

definition SearchService_searchHashtags :: "env \<Rightarrow> SearchQuery \<Rightarrow> SearchResult action" where
  "SearchService_searchHashtags env q d =
     (case MessageRepo_SearchByHashtag env (sq_Query q) (sq_Limit q) (sq_Offset q) d of
        (Inl e, d1) \<Rightarrow> (Inl e, d1)
      | (Inr (ms, cnt), d1) \<Rightarrow>
          (Inr \<lparr>srs_Messages = map mask_search ms, srs_Users = [], srs_Hashtags = [], srs_Total = cnt\<rparr>, d1))"

definition SearchService_searchUsers :: "env \<Rightarrow> SearchQuery \<Rightarrow> SearchResult action" where
  "SearchService_searchUsers env q d =
     (case UserRepo_SearchByUsername env (sq_Query q) (sq_Limit q) (sq_Offset q) d of
        (Inl e, d1) \<Rightarrow> (Inl e, d1)
      | (Inr (us, cnt), d1) \<Rightarrow>
          (Inr \<lparr>srs_Messages = [], srs_Users = us, srs_Hashtags = [], srs_Total = cnt\<rparr>, d1))"

definition clamp_search :: "SearchQuery \<Rightarrow> SearchQuery" where
  "clamp_search q =
     (let q1 = (if sq_Limit q \<le> 0 \<or> sq_Limit q > 50 then q\<lparr>sq_Limit := 20\<rparr> else q)
      in if sq_Offset q1 < 0 then q1\<lparr>sq_Offset := 0\<rparr> else q1)"

definition SearchService_Search :: "env \<Rightarrow> SearchQuery \<Rightarrow> SearchResult action" where
  "SearchService_Search env q0 d =
     (let q = clamp_search q0 in
      if sq_Type q = ''user'' then SearchService_searchUsers env q d else SearchService_searchHashtags env q d)"

definition SearchService_GetPopularHashtags :: "env \<Rightarrow> int \<Rightarrow> HashtagResult list action" where
  "SearchService_GetPopularHashtags env limit d =
     MessageRepo_GetPopularHashtags env (if limit \<le> 0 \<or> limit > 50 then 10 else limit) d"

section \<open>Every method keeps the invariant\<close>

lemma SearchByHashtag_inv [db_inv]: "db_ok d \<Longrightarrow> db_ok (snd (MessageRepo_SearchByHashtag env h l n d))"
  by (auto simp: MessageRepo_SearchByHashtag_def Let_def split: prod.splits sum.splits dest: query_keepsD query_rows_keepsD)

lemma SearchByUsername_inv [db_inv]: "db_ok d \<Longrightarrow> db_ok (snd (UserRepo_SearchByUsername env h l n d))"
  by (auto simp: UserRepo_SearchByUsername_def Let_def split: prod.splits sum.splits dest: query_keepsD query_rows_keepsD)

lemma searchHashtags_inv [db_inv]: "db_ok d \<Longrightarrow> db_ok (snd (SearchService_searchHashtags env q d))"
  using SearchByHashtag_inv [of d env "sq_Query q" "sq_Limit q" "sq_Offset q"]
  by (auto simp: SearchService_searchHashtags_def split: prod.splits sum.splits)

lemma searchUsers_inv [db_inv]: "db_ok d \<Longrightarrow> db_ok (snd (SearchService_searchUsers env q d))"
  using SearchByUsername_inv [of d env "sq_Query q" "sq_Limit q" "sq_Offset q"]
  by (auto simp: SearchService_searchUsers_def split: prod.splits sum.splits)

lemma search_service_inv [db_inv]:
  assumes "db_ok d"
  shows "db_ok (snd (SearchService_Search env q d))" "db_ok (snd (SearchService_GetPopularHashtags env n d))"
  using assms by (simp_all add: SearchService_Search_def SearchService_GetPopularHashtags_def Let_def db_inv)

section \<open>Pages\<close>

text \<open>The pages of a list, one after the other, are the list.\<close>

definition page_of :: "nat \<Rightarrow> nat \<Rightarrow> 'a list \<Rightarrow> 'a list" where
  "page_of n i xs = take n (drop (i * n) xs)"

lemma concat_pages: "concat (map (\<lambda>i. page_of n i xs) [0..<k]) = take (k * n) xs"
proof (induction k)
  case (Suc k)
  have "take (k * n + n) xs = take (k * n) xs @ take n (drop (k * n) xs)" by (rule take_add)
  with Suc show ?case by (simp add: page_of_def add.commute)
qed simp

definition hashtag_hits :: "env \<Rightarrow> string \<Rightarrow> db \<Rightarrow> Message list" where
  "hashtag_hits env tag d = map (\<lambda>x. mask_search (scan_message x)) (sort_key (\<lambda>(m, u). - mr_created_at m)
     (join_users d (filter (tag_matches env tag) (t_messages d))))"

definition search_tag :: "env \<Rightarrow> string \<Rightarrow> string" where
  "search_tag env q = strings_ToLower (uni_lower env) (strings_TrimPrefix q ''#'')"

lemma search_page:
  assumes "t_links d = []" and "pg_text_ok (search_tag env q)" and "typ1 \<noteq> ''user''" and "0 < n" and "n \<le> 50"
  shows "SearchService_Search env \<lparr>sq_Query = q, sq_Type = typ1, sq_Limit = int n, sq_Offset = int (i * n)\<rparr> d =
    (Inr \<lparr>srs_Messages = page_of n i (hashtag_hits env (search_tag env q) d), srs_Users = [], srs_Hashtags = [],
       srs_Total = int (count_where (tag_matches env (search_tag env q)) (t_messages d))\<rparr>, d)"
  using assms unfolding search_tag_def
  by (simp add: SearchService_Search_def clamp_search_def SearchService_searchHashtags_def
      MessageRepo_SearchByHashtag_def query_up query_rows_up Let_def page_of_def hashtag_hits_def
      take_map [symmetric] drop_map [symmetric] o_def not_less of_nat_mult [symmetric] del: of_nat_mult)

lemma mask_search_simps [simp]:
  "msg_ID (mask_search m) = msg_ID m" "msg_MessageType (mask_search m) = msg_MessageType m"
  "msg_MessageType m = ''mystery'' \<Longrightarrow> msg_Content (mask_search m) = ''???''"
  by (simp_all add: mask_search_def)

lemma hashtag_hits_mset:
  assumes "db_ok d" and field: "\<And>x. f (mask_search (scan_message x)) = g (fst x)"
  shows "mset (map f (hashtag_hits env tag d)) = mset (map g (filter (tag_matches env tag) (t_messages d)))"
proof -
  let ?ms = "filter (tag_matches env tag) (t_messages d)"
  have "map (\<lambda>x. g (fst x)) (join_users d ?ms) = map g ?ms"
    using join_users_fst [OF assms(1), of ?ms] by (metis (no_types, lifting) comp_apply filter_is_subset map_eq_conv map_map)
  then show ?thesis
    by (simp add: hashtag_hits_def o_def field mset_map [symmetric] del: mset_map)
      (metis (no_types, lifting) mset_map mset_sort)
qed

lemma hit_fields: "msg_ID (mask_search (scan_message x)) = mr_id (fst x)" "msg_CreatedAt (mask_search (scan_message x)) = mr_created_at (fst x)"
  by (cases x, simp add: mask_search_def)+

lemmas hashtag_hits_ids = hashtag_hits_mset [where f = msg_ID and g = mr_id, OF _ hit_fields(1)]

lemma sorted_wrt_strict:
  "sorted_wrt (\<lambda>a b. f a \<ge> f b) xs \<Longrightarrow> distinct (map f xs) \<Longrightarrow> sorted_wrt (\<lambda>a b. f a > f b) xs" for f :: "'a \<Rightarrow> 'b :: linorder"
  by (induction xs) (auto simp: order_less_le image_iff)

text \<open>C37: paging through the search results. On a connection that answers and a database that does not
  change, a hashtag search with a page size of one to fifty answers every page; all pages carry the number of live messages with that tag
  as the total; enough pages one after the other list each of these messages exactly once, newest first;
  and no page shows the content of a mystery message. The messages have different times: SQL leaves the order of equal ones open, and may
  choose another for every page.\<close>

theorem Search_pages:
  assumes "db_ok d" and "t_links d = []" and "pg_text_ok (search_tag env q)" and "0 < n" and "n \<le> 50"
    and "distinct (map mr_created_at (filter (tag_matches env (search_tag env q)) (t_messages d)))"
  shows "\<exists>pages. (\<forall>i. SearchService_Search env \<lparr>sq_Query = q, sq_Type = ''hashtag'', sq_Limit = int n, sq_Offset = int (i * n)\<rparr> d =
      (Inr \<lparr>srs_Messages = pages i, srs_Users = [], srs_Hashtags = [],
        srs_Total = int (count_where (tag_matches env (search_tag env q)) (t_messages d))\<rparr>, d) \<and>
      length (pages i) \<le> n \<and> (\<forall>m \<in> set (pages i). msg_MessageType m = ''mystery'' \<longrightarrow> msg_Content m = ''???'')) \<and>
    (\<forall>k. count_where (tag_matches env (search_tag env q)) (t_messages d) \<le> k * n \<longrightarrow>
      mset (map msg_ID (concat (map pages [0..<k]))) =
        mset (map mr_id (filter (tag_matches env (search_tag env q)) (t_messages d))) \<and>
      sorted_wrt (\<lambda>a b. msg_CreatedAt a > msg_CreatedAt b) (concat (map pages [0..<k])))"
proof -
  let ?hits = "hashtag_hits env (search_tag env q) d"
  let ?pages = "\<lambda>i. page_of n i ?hits"
  have len: "length ?hits = count_where (tag_matches env (search_tag env q)) (t_messages d)"
    using arg_cong [OF hashtag_hits_ids [OF assms(1), of env "search_tag env q"], of size] by (simp add: count_where_def mset_filter [symmetric] del: mset_filter)
  have all: "concat (map ?pages [0..<k]) = ?hits"
    if "count_where (tag_matches env (search_tag env q)) (t_messages d) \<le> k * n" for k
    using that len by (simp add: concat_pages)
  have "sorted_wrt (\<lambda>a b. msg_CreatedAt a \<ge> msg_CreatedAt b) ?hits"
    unfolding hashtag_hits_def sorted_wrt_map
    by (rule_tac sorted_wrt_mono_rel [OF _ sorted_sort_key [unfolded sorted_map]]) (auto simp: hit_fields split: prod.splits)
  moreover have "distinct (map msg_CreatedAt ?hits)"
    using assms(6) hashtag_hits_mset [where f = msg_CreatedAt and g = mr_created_at, OF assms(1) hit_fields(2)] mset_eq_imp_distinct_iff by metis
  ultimately have "sorted_wrt (\<lambda>a b. msg_CreatedAt a > msg_CreatedAt b) ?hits" by (rule sorted_wrt_strict)
  moreover have "\<forall>m \<in> set (?pages i). msg_MessageType m = ''mystery'' \<longrightarrow> msg_Content m = ''???''" for i
    by (auto simp: page_of_def hashtag_hits_def mask_search_def dest!: in_set_takeD in_set_dropD)
  moreover have "length (?pages i) \<le> n" for i by (simp add: page_of_def)
  ultimately show ?thesis
    using all hashtag_hits_ids [OF assms(1)] search_page [OF assms(2,3) _ assms(4,5), of "''hashtag''"]
    by (intro exI [of _ ?pages]) simp
qed

definition tagged_db :: db where
  "tagged_db = demo_db\<lparr>t_messages := map (\<lambda>(i, t). (demo_message i ''alice'')\<lparr>mr_hashtags := [''paris''], mr_message_type := ''mystery'',
     mr_created_at := t\<rparr>) [(''m1'', 10), (''m2'', 20), (''m3'', 30)]\<rparr>"

lemma tagged_db_ok: "db_ok tagged_db" "t_links tagged_db = []" "pg_text_ok (search_tag demo_env ''#Paris'')"
  "count_where (tag_matches demo_env (search_tag demo_env ''#Paris'')) (t_messages tagged_db) = 3"
  "distinct (map mr_created_at (filter (tag_matches demo_env (search_tag demo_env ''#Paris'')) (t_messages tagged_db)))"
  by code_simp+

text \<open>Three mystery messages in pages of two.\<close>

lemma Search_pages_witness:
  "\<exists>pages. mset (map msg_ID (pages 0 @ pages (1::nat))) = {#''m1'', ''m2'', ''m3''#} \<and>
     (\<forall>i. \<exists>r. SearchService_Search demo_env \<lparr>sq_Query = ''#Paris'', sq_Type = ''hashtag'', sq_Limit = int 2, sq_Offset = int (i * 2)\<rparr>
        tagged_db = (Inr r, tagged_db) \<and> srs_Messages r = pages i \<and> srs_Total r = 3)"
proof -
  have two: "(0::nat) < 2" "(2::nat) \<le> 50" by simp_all
  have ids: "map mr_id (filter (tag_matches demo_env (search_tag demo_env ''#Paris'')) (t_messages tagged_db)) = [''m1'', ''m2'', ''m3'']"
    by code_simp
  from Search_pages [OF tagged_db_ok(1-3) two tagged_db_ok(5)] obtain pages where
    p: "\<forall>i. SearchService_Search demo_env \<lparr>sq_Query = ''#Paris'', sq_Type = ''hashtag'', sq_Limit = int 2, sq_Offset = int (i * 2)\<rparr> tagged_db =
      (Inr \<lparr>srs_Messages = pages i, srs_Users = [], srs_Hashtags = [], srs_Total = int 3\<rparr>, tagged_db)"
    and all: "\<forall>k. 3 \<le> k * 2 \<longrightarrow> mset (map msg_ID (concat (map pages [0..<k]))) = mset [''m1'', ''m2'', ''m3'']"
    unfolding tagged_db_ok(4) ids by blast
  from all [rule_format, of 2] have "mset (map msg_ID (pages 0 @ pages (1::nat))) = {#''m1'', ''m2'', ''m3''#}"
    by (simp add: numeral_2_eq_2)
  with p show ?thesis by (intro exI [of _ pages]) auto
qed

end
