(* ===== verification/Auth.thy ===== *)
theory Auth
  imports User_Repo
begin

text \<open>
  \<open>backend/internal/service/auth_service.go\<close> and \<open>backend/internal/middleware/auth.go\<close>.

  The libraries \<open>golang.org/x/crypto/bcrypt\<close> and \<open>golang-jwt/jwt\<close> are arguments: the record \<open>auth_lib\<close>. What they
  document is the predicate \<open>auth_laws\<close>. An instant is in nanoseconds since the epoch.
\<close>

section \<open>The libraries\<close>

datatype jwt_value = JString string | JNumber real | JOther

type_synonym jwt_claims = "string \<Rightarrow> jwt_value option"

record jwt_token =
  tok_hmac :: bool
  tok_claims :: "jwt_claims option"
  tok_valid :: bool

text \<open>
  \<open>jwt_sign\<close> is \<open>NewWithClaims(SigningMethodHS256, claims).SignedString(key)\<close>; \<open>jwt_parse\<close> is \<open>jwt.Parse\<close> with its default options, given the key function
  and the current time; \<open>jwt_unverified\<close> is \<open>ParseUnverified\<close>, what a text says of itself; \<open>jwt_verifies s key\<close> says that the signature in \<open>s\<close> is
  right for \<open>key\<close>; \<open>jwt_seconds\<close> is the conversion of a number to the seconds of a \<open>time.Time\<close>; the claims of a token are \<open>None\<close> when they are not \<open>MapClaims\<close>.
\<close>

record auth_lib =
  bcrypt_Generate :: "string \<Rightarrow> go_error + string"
  bcrypt_Compare :: "string \<Rightarrow> string \<Rightarrow> bool"
  jwt_sign :: "jwt_claims \<Rightarrow> string \<Rightarrow> go_error + string"
  jwt_parse :: "(jwt_token \<Rightarrow> go_error + string) \<Rightarrow> instant \<Rightarrow> string \<Rightarrow> go_error + jwt_token"
  jwt_unverified :: "string \<Rightarrow> jwt_token option"
  jwt_verifies :: "string \<Rightarrow> string \<Rightarrow> bool"
  jwt_seconds :: "real \<Rightarrow> int"

definition second_ns :: int where
  "second_ns = 1000000000"

text \<open>
  What version 5 of the library documents of the claims \<open>exp\<close> and \<open>nbf\<close>: both are optional; a number is a time in seconds, and zero is
  no time; anything but a number is an error (\<open>None\<close> here). The default validator asks for a time before \<open>exp\<close> and not before \<open>nbf\<close>, without leeway, and does not
  look at \<open>iat\<close>.
\<close>

definition numeric_date :: "(real \<Rightarrow> int) \<Rightarrow> jwt_value option \<Rightarrow> instant option option" where
  "numeric_date secs v =
     (case v of
        None \<Rightarrow> Some None
      | Some (JNumber x) \<Rightarrow> Some (if x = 0 then None else Some (secs x * second_ns))
      | Some _ \<Rightarrow> None)"

definition claims_valid :: "(real \<Rightarrow> int) \<Rightarrow> jwt_claims \<Rightarrow> instant \<Rightarrow> bool" where
  "claims_valid secs c now \<longleftrightarrow>
     (case numeric_date secs (c ''exp'') of None \<Rightarrow> False | Some None \<Rightarrow> True | Some (Some t) \<Rightarrow> now < t) \<and>
     (case numeric_date secs (c ''nbf'') of None \<Rightarrow> False | Some None \<Rightarrow> True | Some (Some t) \<Rightarrow> t \<le> now)"

text \<open>
  The laws. A hash compares with the password it was made from. A time below 2 to the 53 is cut to whole seconds (beyond, nothing is assumed). \<open>Parse\<close> succeeds for exactly the texts that parse unverified, whose key function gives a
  key under which the signature is right, and whose claims are valid now, and marks the token valid. Signing an ASCII subject and whole numbers of seconds
  that a \<open>float64\<close> holds exactly succeeds, and the text reads back under the signing key as an HMAC token with these claims.
\<close>

definition auth_laws :: "auth_lib \<Rightarrow> bool" where
  "auth_laws lib \<longleftrightarrow>
     (\<forall>p h. bcrypt_Generate lib p = Inr h \<longrightarrow> bcrypt_Compare lib h p) \<and>
     (\<forall>x. \<bar>x\<bar> < 2 ^ 53 \<longrightarrow> jwt_seconds lib x = \<lfloor>x\<rfloor>) \<and>
     (\<forall>kf now s t. jwt_parse lib kf now s = Inr t \<longleftrightarrow>
        (\<exists>t0 c key. jwt_unverified lib s = Some t0 \<and> tok_claims t0 = Some c \<and> kf t0 = Inr key \<and> jwt_verifies lib s key \<and>
           claims_valid (jwt_seconds lib) c now \<and> t = t0\<lparr>tok_valid := True\<rparr>)) \<and>
     (\<forall>u i e key. list_all is_ascii u \<and> 0 \<le> i \<and> i < 2 ^ 53 \<and> 0 \<le> e \<and> e < 2 ^ 53 \<longrightarrow>
        (let c = [''sub'' \<mapsto> JString u, ''iat'' \<mapsto> JNumber (of_int i), ''exp'' \<mapsto> JNumber (of_int e)] in
         \<exists>s. jwt_sign lib c key = Inr s \<and> jwt_verifies lib s key \<and>
           jwt_unverified lib s = Some \<lparr>tok_hmac = True, tok_claims = Some c, tok_valid = False\<rparr>))"

section \<open>AuthService\<close>

record AuthService =
  as_jwtSecret :: string
  as_jwtExpiry :: int

definition NewAuthService :: "string \<Rightarrow> int \<Rightarrow> AuthService" where
  "NewAuthService secret expiry = \<lparr>as_jwtSecret = secret, as_jwtExpiry = expiry\<rparr>"

definition unix :: "instant \<Rightarrow> int" where
  "unix t = t div second_ns"

definition token_claims :: "AuthService \<Rightarrow> instant \<Rightarrow> string \<Rightarrow> jwt_claims" where
  "token_claims svc now userID =
     [''sub'' \<mapsto> JString userID, ''iat'' \<mapsto> JNumber (of_int (unix now)), ''exp'' \<mapsto> JNumber (of_int (unix (now + as_jwtExpiry svc)))]"

definition AuthService_generateToken :: "auth_lib \<Rightarrow> AuthService \<Rightarrow> instant \<Rightarrow> string \<Rightarrow> go_error + string" where
  "AuthService_generateToken lib svc now userID = jwt_sign lib (token_claims svc now userID) (as_jwtSecret svc)"

definition new_user :: "RegisterRequest \<Rightarrow> string \<Rightarrow> user" where
  "new_user req hash = \<lparr>usr_ID = [], usr_Username = reg_Username req, usr_Email = reg_Email req,
     usr_PasswordHash = hash, usr_AvatarURL = None, usr_IsAnonymous = False, usr_CreatedAt = 0\<rparr>"

definition AuthService_Register :: "auth_lib \<Rightarrow> AuthService \<Rightarrow> env \<Rightarrow> RegisterRequest \<Rightarrow> AuthResponse action" where
  "AuthService_Register lib svc env req d =
     (case bcrypt_Generate lib (reg_Password req) of
        Inl e \<Rightarrow> (Inl e, d)
      | Inr hash \<Rightarrow>
          (case UserRepo_Create env (new_user req hash) d of
             (Inl e, d1) \<Rightarrow> (Inl e, d1)
           | (Inr u, d1) \<Rightarrow>
               (case AuthService_generateToken lib svc (go_now env) (usr_ID u) of
                  Inl e \<Rightarrow> (Inl e, d1)
                | Inr token \<Rightarrow> (Inr \<lparr>aur_Token = token, aur_User = u\<rparr>, d1))))"

definition AuthService_Login :: "auth_lib \<Rightarrow> AuthService \<Rightarrow> env \<Rightarrow> LoginRequest \<Rightarrow> AuthResponse action" where
  "AuthService_Login lib svc env req d =
     (case UserRepo_GetByEmail env (lgn_Email req) d of
        (Inl e, d1) \<Rightarrow> (Inl (ErrNew ''identifiants invalides''), d1)
      | (Inr u, d1) \<Rightarrow>
          (if \<not> bcrypt_Compare lib (usr_PasswordHash u) (lgn_Password req)
           then (Inl (ErrNew ''identifiants invalides''), d1)
           else (case AuthService_generateToken lib svc (go_now env) (usr_ID u) of
                   Inl e \<Rightarrow> (Inl e, d1)
                 | Inr token \<Rightarrow> (Inr \<lparr>aur_Token = token, aur_User = u\<rparr>, d1))))"

text \<open>The key function refuses every signing method but HMAC.\<close>

definition token_key :: "AuthService \<Rightarrow> jwt_token \<Rightarrow> go_error + string" where
  "token_key svc t = (if \<not> tok_hmac t then Inl (ErrNew ''methode de signature invalide'') else Inr (as_jwtSecret svc))"

definition AuthService_ValidateToken :: "auth_lib \<Rightarrow> AuthService \<Rightarrow> instant \<Rightarrow> string \<Rightarrow> go_error + string" where
  "AuthService_ValidateToken lib svc now tokenStr =
     (case jwt_parse lib (token_key svc) now tokenStr of
        Inl e \<Rightarrow> Inl e
      | Inr t \<Rightarrow>
          (case tok_claims t of
             None \<Rightarrow> Inl (ErrNew ''token invalide'')
           | Some claims \<Rightarrow>
               if \<not> tok_valid t then Inl (ErrNew ''token invalide'')
               else (case claims ''sub'' of
                       Some (JString userID) \<Rightarrow> Inr userID
                     | _ \<Rightarrow> Inl (ErrNew ''token invalide: sub manquant''))))"

definition AuthService_GetUser :: "env \<Rightarrow> string \<Rightarrow> user action" where
  "AuthService_GetUser env i d = UserRepo_GetByID env i d"

section \<open>The middleware\<close>

text \<open>The value under \<open>UserIDKey\<close> in the context of a request.\<close>

type_synonym context_user = "string option"

text \<open>The 401 of \<open>authError\<close>: code and message.\<close>

datatype auth_error = AuthError string string

definition middleware_Auth :: "auth_lib \<Rightarrow> AuthService \<Rightarrow> instant \<Rightarrow> string \<Rightarrow> auth_error + context_user" where
  "middleware_Auth lib svc now header =
     (if header = [] then Inl (AuthError ''AUTH_REQUIRED'' ''Token requis'')
      else (let token = strings_TrimPrefix header ''Bearer '' in
            if token = header then Inl (AuthError ''AUTH_INVALID'' ''Format: Bearer <token>'')
            else (case AuthService_ValidateToken lib svc now token of
                    Inl e \<Rightarrow> Inl (AuthError ''AUTH_INVALID'' ''Token invalide'')
                  | Inr userID \<Rightarrow> Inr (Some userID))))"

definition OptionalAuth :: "auth_lib \<Rightarrow> AuthService \<Rightarrow> instant \<Rightarrow> string \<Rightarrow> context_user" where
  "OptionalAuth lib svc now header =
     (let token = strings_TrimPrefix header ''Bearer '' in
      if header \<noteq> [] \<and> token \<noteq> header
      then (case AuthService_ValidateToken lib svc now token of Inl e \<Rightarrow> None | Inr userID \<Rightarrow> Some userID)
      else None)"

definition GetUserID :: "context_user \<Rightarrow> string" where
  "GetUserID ctx = (case ctx of Some v \<Rightarrow> v | None \<Rightarrow> [])"

section \<open>A concrete library\<close>

text \<open>A token is its issue time, its expiry, the length of its subject, each ended by a full stop, the subject and the key; a hash is the marked password.\<close>

definition demo_text :: "nat \<Rightarrow> nat \<Rightarrow> string \<Rightarrow> string \<Rightarrow> string" where
  "demo_text i e u key = dec_of_nat i @ CHR ''.'' # dec_of_nat e @ CHR ''.'' # dec_of_nat (length u) @ CHR ''.'' # u @ key"

definition demo_split :: "string \<Rightarrow> nat \<times> string" where
  "demo_split s = (let a = takeWhile (\<lambda>c. c \<noteq> CHR ''.'') s in (nat_of_dec a, drop (Suc (length a)) s))"

definition demo_read :: "string \<Rightarrow> jwt_token \<times> string" where
  "demo_read s =
     (case demo_split s of (i, s1) \<Rightarrow> case demo_split s1 of (e, s2) \<Rightarrow> case demo_split s2 of (n, s3) \<Rightarrow>
        (\<lparr>tok_hmac = True, tok_claims = Some [''sub'' \<mapsto> JString (take n s3), ''iat'' \<mapsto> JNumber (of_int (int i)),
            ''exp'' \<mapsto> JNumber (of_int (int e))], tok_valid = False\<rparr>, drop n s3))"

definition demo_lib :: auth_lib where
  "demo_lib = \<lparr>bcrypt_Generate = (\<lambda>p. Inr (''h:'' @ p)), bcrypt_Compare = (\<lambda>h p. h = ''h:'' @ p),
     jwt_sign = (\<lambda>c key. case (c ''sub'', c ''iat'', c ''exp'') of
        (Some (JString u), Some (JNumber i), Some (JNumber e)) \<Rightarrow> Inr (demo_text (nat \<lfloor>i\<rfloor>) (nat \<lfloor>e\<rfloor>) u key)
      | _ \<Rightarrow> Inl (ErrLibrary ''claims'')),
     jwt_parse = (\<lambda>kf now s. case demo_read s of (t, k) \<Rightarrow>
        (case (kf t, tok_claims t) of
           (Inr key, Some c) \<Rightarrow> if key = k \<and> claims_valid floor c now then Inr (t\<lparr>tok_valid := True\<rparr>) else Inl (ErrLibrary ''token'')
         | _ \<Rightarrow> Inl (ErrLibrary ''key''))),
     jwt_unverified = (\<lambda>s. Some (fst (demo_read s))), jwt_verifies = (\<lambda>s key. snd (demo_read s) = key), jwt_seconds = floor\<rparr>"

lemma takeWhile_sep: "c \<notin> set a \<Longrightarrow> takeWhile (\<lambda>x. x \<noteq> c) (a @ c # b) = a"
  by (induction a) auto

lemma dec_no_dot: "CHR ''.'' \<notin> set (dec_of_nat n)"
  using dec_of_nat_digits [of n] by (auto simp: list_all_iff is_digit_def)

lemma demo_split_text: "demo_split (dec_of_nat n @ CHR ''.'' # s) = (n, s)"
  using takeWhile_sep [OF dec_no_dot, of n s] by (simp add: demo_split_def Let_def)

lemma demo_read_text:
  "demo_read (demo_text i e u key) =
     (\<lparr>tok_hmac = True, tok_claims = Some [''sub'' \<mapsto> JString u, ''iat'' \<mapsto> JNumber (of_int (int i)), ''exp'' \<mapsto> JNumber (of_int (int e))],
        tok_valid = False\<rparr>, key)"
  by (simp add: demo_read_def demo_text_def demo_split_text)

lemma demo_lib_laws: "auth_laws demo_lib"
  unfolding auth_laws_def
proof (intro conjI allI impI)
  show "bcrypt_Compare demo_lib h p" if "bcrypt_Generate demo_lib p = Inr h" for p h using that by (auto simp: demo_lib_def)
  show "jwt_seconds demo_lib x = \<lfloor>x\<rfloor>" for x by (simp add: demo_lib_def)
  show "jwt_parse demo_lib kf now s = Inr t \<longleftrightarrow>
      (\<exists>t0 c key. jwt_unverified demo_lib s = Some t0 \<and> tok_claims t0 = Some c \<and> kf t0 = Inr key \<and> jwt_verifies demo_lib s key \<and>
         claims_valid (jwt_seconds demo_lib) c now \<and> t = t0\<lparr>tok_valid := True\<rparr>)" for kf now s t
    by (cases "demo_read s") (auto simp: demo_lib_def split: sum.splits option.splits if_splits)
  show "let c = [''sub'' \<mapsto> JString u, ''iat'' \<mapsto> JNumber (of_int i), ''exp'' \<mapsto> JNumber (of_int e)] in
      \<exists>s. jwt_sign demo_lib c key = Inr s \<and> jwt_verifies demo_lib s key \<and>
        jwt_unverified demo_lib s = Some \<lparr>tok_hmac = True, tok_claims = Some c, tok_valid = False\<rparr>"
    if "list_all is_ascii u \<and> 0 \<le> i \<and> i < 2 ^ 53 \<and> 0 \<le> e \<and> e < 2 ^ 53" for u i e key
    using that by (simp add: demo_lib_def demo_read_text)
qed

section \<open>Tokens\<close>

lemma auth_lawsD:
  assumes "auth_laws lib"
  shows "bcrypt_Generate lib p = Inr h \<Longrightarrow> bcrypt_Compare lib h p"
    and "jwt_parse lib kf now s = Inr t \<longleftrightarrow>
        (\<exists>t0 c key. jwt_unverified lib s = Some t0 \<and> tok_claims t0 = Some c \<and> kf t0 = Inr key \<and> jwt_verifies lib s key \<and>
           claims_valid (jwt_seconds lib) c now \<and> t = t0\<lparr>tok_valid := True\<rparr>)"
    and "list_all is_ascii u \<Longrightarrow> 0 \<le> i \<Longrightarrow> i < 2 ^ 53 \<Longrightarrow> 0 \<le> e \<Longrightarrow> e < 2 ^ 53 \<Longrightarrow>
        \<exists>s. jwt_sign lib [''sub'' \<mapsto> JString u, ''iat'' \<mapsto> JNumber (of_int i), ''exp'' \<mapsto> JNumber (of_int e)] key = Inr s \<and> jwt_verifies lib s key \<and>
          jwt_unverified lib s = Some \<lparr>tok_hmac = True, tok_claims = Some [''sub'' \<mapsto> JString u, ''iat'' \<mapsto> JNumber (of_int i), ''exp'' \<mapsto> JNumber (of_int e)],
            tok_valid = False\<rparr>"
    and "\<bar>x\<bar> < 2 ^ 53 \<Longrightarrow> jwt_seconds lib x = \<lfloor>x\<rfloor>"
proof -
  note laws = assms [unfolded auth_laws_def Let_def]
  show "bcrypt_Generate lib p = Inr h \<Longrightarrow> bcrypt_Compare lib h p" using laws by blast
  show "jwt_parse lib kf now s = Inr t \<longleftrightarrow>
      (\<exists>t0 c key. jwt_unverified lib s = Some t0 \<and> tok_claims t0 = Some c \<and> kf t0 = Inr key \<and> jwt_verifies lib s key \<and>
         claims_valid (jwt_seconds lib) c now \<and> t = t0\<lparr>tok_valid := True\<rparr>)" using laws by blast
qed (use assms [unfolded auth_laws_def Let_def] in blast)+

text \<open>What makes a text a token of a user: its form, method, signature, times and subject.\<close>

definition genuine :: "auth_lib \<Rightarrow> AuthService \<Rightarrow> instant \<Rightarrow> string \<Rightarrow> string \<Rightarrow> bool" where
  "genuine lib svc now tok userID \<longleftrightarrow>
     (\<exists>t c. jwt_unverified lib tok = Some t \<and> tok_hmac t \<and> jwt_verifies lib tok (as_jwtSecret svc) \<and>
        tok_claims t = Some c \<and> claims_valid (jwt_seconds lib) c now \<and> c ''sub'' = Some (JString userID))"

lemma ValidateToken_iff:
  assumes "auth_laws lib"
  shows "AuthService_ValidateToken lib svc now s = Inr u \<longleftrightarrow> genuine lib svc now s u"
proof -
  have "AuthService_ValidateToken lib svc now s = Inr u \<longleftrightarrow>
      (\<exists>t c. jwt_parse lib (token_key svc) now s = Inr t \<and> tok_claims t = Some c \<and> tok_valid t \<and> c ''sub'' = Some (JString u))"
    by (auto simp: AuthService_ValidateToken_def split: sum.splits option.splits jwt_value.splits)
  also have "\<dots> \<longleftrightarrow> genuine lib svc now s u"
  proof
    show "genuine lib svc now s u" if "\<exists>t c. jwt_parse lib (token_key svc) now s = Inr t \<and> tok_claims t = Some c \<and> tok_valid t \<and> c ''sub'' = Some (JString u)"
      using that unfolding auth_lawsD(2) [OF assms] genuine_def token_key_def by (auto split: if_splits)
  next
    assume "genuine lib svc now s u"
    then obtain t c where t: "jwt_unverified lib s = Some t" "tok_hmac t" "jwt_verifies lib s (as_jwtSecret svc)"
      "tok_claims t = Some c" "claims_valid (jwt_seconds lib) c now" "c ''sub'' = Some (JString u)" unfolding genuine_def by blast
    then have "jwt_parse lib (token_key svc) now s = Inr (t\<lparr>tok_valid := True\<rparr>)"
      unfolding auth_lawsD(2) [OF assms] by (auto simp: token_key_def)
    with t(4,6) show "\<exists>t c. jwt_parse lib (token_key svc) now s = Inr t \<and> tok_claims t = Some c \<and> tok_valid t \<and> c ''sub'' = Some (JString u)"
      by (intro exI [of _ "t\<lparr>tok_valid := True\<rparr>"] exI [of _ c]) simp
  qed
  finally show ?thesis .
qed

text \<open>The bounds within which the times of a token are issued: from 1970 on, and exact as a \<open>float64\<close>.\<close>

definition issue_ok :: "AuthService \<Rightarrow> instant \<Rightarrow> bool" where
  "issue_ok svc now \<longleftrightarrow> 0 \<le> unix now \<and> unix now < 2 ^ 53 \<and> 0 < unix (now + as_jwtExpiry svc) \<and> unix (now + as_jwtExpiry svc) < 2 ^ 53"

lemma issued_token:
  assumes "auth_laws lib" and "list_all is_ascii userID" and "issue_ok svc now"
  shows "\<exists>s. AuthService_generateToken lib svc now userID = Inr s \<and>
    (\<forall>later u. AuthService_ValidateToken lib svc later s = Inr u \<longleftrightarrow> u = userID \<and> later < unix (now + as_jwtExpiry svc) * second_ns)"
proof -
  from auth_lawsD(3) [OF assms(1,2), of "unix now" "unix (now + as_jwtExpiry svc)" "as_jwtSecret svc"] assms(3) obtain s where
    s: "AuthService_generateToken lib svc now userID = Inr s" "jwt_verifies lib s (as_jwtSecret svc)"
      "jwt_unverified lib s = Some \<lparr>tok_hmac = True, tok_claims = Some (token_claims svc now userID), tok_valid = False\<rparr>"
    by (auto simp: issue_ok_def AuthService_generateToken_def token_claims_def)
  have "jwt_seconds lib (of_int (unix (now + as_jwtExpiry svc))) = unix (now + as_jwtExpiry svc)"
    using auth_lawsD(4) [OF assms(1), of "of_int (unix (now + as_jwtExpiry svc))"] assms(3) by (simp add: issue_ok_def)
  then have "claims_valid (jwt_seconds lib) (token_claims svc now userID) later \<longleftrightarrow> later < unix (now + as_jwtExpiry svc) * second_ns" for later
    using assms(3) by (simp add: claims_valid_def numeric_date_def token_claims_def issue_ok_def)
  then have "genuine lib svc later s u \<longleftrightarrow> u = userID \<and> later < unix (now + as_jwtExpiry svc) * second_ns" for later u
    using s(2,3) by (auto simp: genuine_def token_claims_def)
  with s(1) ValidateToken_iff [OF assms(1)] show ?thesis by blast
qed

text \<open>C26: the service issues a token for every user identifier in ASCII, and at any time the token is accepted exactly if the expiry (cut to whole
  seconds) has not come, and then identifies that user and no other.\<close>

theorem Token_roundtrip:
  assumes "auth_laws lib" and "list_all is_ascii userID" and "issue_ok svc now"
  shows "\<exists>s. AuthService_generateToken lib svc now userID = Inr s \<and>
    (\<forall>later u. AuthService_ValidateToken lib svc later s = Inr u \<longleftrightarrow> u = userID \<and> later < unix (now + as_jwtExpiry svc) * second_ns)"
  using assms by (rule issued_token)

definition demo_svc :: AuthService where
  "demo_svc = NewAuthService ''secret'' (9 * second_ns)"

lemma demo_svc_facts: "issue_ok demo_svc 0" "issue_ok demo_svc 1000" "unix (0 + as_jwtExpiry demo_svc) * second_ns = 9000000000"
  by (simp_all add: issue_ok_def unix_def demo_svc_def NewAuthService_def second_ns_def)

text \<open>Tokens of the concrete library that every later example uses.\<close>

lemma demo_accepts:
  assumes "now < 9000000000"
  shows "AuthService_ValidateToken demo_lib demo_svc now (demo_text 0 9 u ''secret'') = Inr u"
  unfolding ValidateToken_iff [OF demo_lib_laws] using assms by (simp add: genuine_def demo_lib_def demo_read_text demo_svc_def NewAuthService_def
      claims_valid_def numeric_date_def second_ns_def)

lemma Token_roundtrip_witness:
  "\<exists>s. AuthService_generateToken demo_lib demo_svc 0 ''alice'' = Inr s \<and>
   AuthService_ValidateToken demo_lib demo_svc 5 s = Inr ''alice'' \<and>
   AuthService_ValidateToken demo_lib demo_svc 9000000000 s \<noteq> Inr ''alice''"
proof -
  have "list_all is_ascii ''alice''" by code_simp
  from Token_roundtrip [OF demo_lib_laws this demo_svc_facts(1), unfolded demo_svc_facts(3)] show ?thesis by auto
qed

text \<open>C25: what \<open>Auth\<close> lets through. A request passes exactly with a header that is \<open>Bearer\<close>, a space and a token, where the
  token is signed with an HMAC method under the service's secret, is within the times it states and has the
  identifier as its subject that the handlers then see; every other request is answered 401, with \<open>AUTH_REQUIRED\<close> exactly when there is no
  header. \<open>OptionalAuth\<close> gives the handlers the same user when \<open>Auth\<close> would pass and no user otherwise.\<close>

theorem Auth_exact:
  assumes "auth_laws lib"
  shows "(middleware_Auth lib svc now header = Inr ctx \<longleftrightarrow>
      (\<exists>tok userID t claims. header = ''Bearer '' @ tok \<and> jwt_unverified lib tok = Some t \<and> tok_hmac t \<and>
        jwt_verifies lib tok (as_jwtSecret svc) \<and> tok_claims t = Some claims \<and> claims_valid (jwt_seconds lib) claims now \<and>
        claims ''sub'' = Some (JString userID) \<and> ctx = Some userID)) \<and>
    (\<forall>code message. middleware_Auth lib svc now header = Inl (AuthError code message) \<longrightarrow>
      code = (if header = [] then ''AUTH_REQUIRED'' else ''AUTH_INVALID'')) \<and>
    OptionalAuth lib svc now header = (case middleware_Auth lib svc now header of Inl _ \<Rightarrow> None | Inr ctx \<Rightarrow> ctx)"
proof (cases "prefix ''Bearer '' header")
  case False
  then have "strings_TrimPrefix header ''Bearer '' = header" by (simp add: TrimPrefix_eq_iff)
  with False show ?thesis by (auto simp: middleware_Auth_def OptionalAuth_def Let_def)
next
  case True
  then obtain tok where h: "header = ''Bearer '' @ tok" by (auto simp: prefix_def)
  have trim: "strings_TrimPrefix header ''Bearer '' = tok" unfolding h by (rule TrimPrefix_append)
  have "header \<noteq> []" "tok \<noteq> header" using h by auto
  then have run: "middleware_Auth lib svc now header =
      (case AuthService_ValidateToken lib svc now tok of
         Inl e \<Rightarrow> Inl (AuthError ''AUTH_INVALID'' ''Token invalide'') | Inr u \<Rightarrow> Inr (Some u))"
    "OptionalAuth lib svc now header =
      (case AuthService_ValidateToken lib svc now tok of Inl e \<Rightarrow> None | Inr u \<Rightarrow> Some u)"
    unfolding middleware_Auth_def OptionalAuth_def Let_def trim by simp_all
  have "middleware_Auth lib svc now header = Inr ctx \<longleftrightarrow> (\<exists>u. genuine lib svc now tok u \<and> ctx = Some u)"
    unfolding run ValidateToken_iff [OF assms, symmetric] by (auto split: sum.splits)
  moreover have "header = ''Bearer '' @ tok' \<longleftrightarrow> tok' = tok" for tok' unfolding h same_append_eq by blast
  ultimately have "middleware_Auth lib svc now header = Inr ctx \<longleftrightarrow>
      (\<exists>tok userID. header = ''Bearer '' @ tok \<and> genuine lib svc now tok userID \<and> ctx = Some userID)"
    by blast
  moreover have "code = ''AUTH_INVALID''" if "middleware_Auth lib svc now header = Inl (AuthError code message)" for code message
    using that unfolding run by (auto split: sum.splits)
  moreover have "OptionalAuth lib svc now header = (case middleware_Auth lib svc now header of Inl _ \<Rightarrow> None | Inr ctx \<Rightarrow> ctx)"
    unfolding run by (auto split: sum.splits)
  ultimately show ?thesis using \<open>header \<noteq> []\<close> unfolding genuine_def by (simp only: if_False ex_simps simp_thms) blast
qed

lemma Auth_exact_witness:
  "middleware_Auth demo_lib demo_svc 5 ''Bearer 0.9.5.alicesecret'' = Inr (Some ''alice'') \<and>
   OptionalAuth demo_lib demo_svc 5 ''Bearer 0.9.5.alicesecret'' = Some ''alice''"
proof -
  let ?c = "[''sub'' \<mapsto> JString ''alice'', ''iat'' \<mapsto> JNumber 0, ''exp'' \<mapsto> JNumber 9]"
  let ?t = "\<lparr>tok_hmac = True, tok_claims = Some ?c, tok_valid = False\<rparr>"
  have "''0.9.5.alicesecret'' = demo_text 0 9 ''alice'' ''secret''" by code_simp
  then have tok: "jwt_unverified demo_lib ''0.9.5.alicesecret'' = Some ?t" "jwt_verifies demo_lib ''0.9.5.alicesecret'' (as_jwtSecret demo_svc)"
    by (simp_all add: demo_lib_def demo_read_text demo_svc_def NewAuthService_def)
  have now: "claims_valid (jwt_seconds demo_lib) ?c 5" by (simp add: demo_lib_def claims_valid_def numeric_date_def second_ns_def)
  note both = Auth_exact [OF demo_lib_laws, of demo_svc 5 "''Bearer 0.9.5.alicesecret''" "Some ''alice''"]
  have "middleware_Auth demo_lib demo_svc 5 ''Bearer 0.9.5.alicesecret'' = Inr (Some ''alice'')"
    by (rule both [THEN conjunct1, THEN iffD2])
      (intro exI [of _ "''0.9.5.alicesecret''"] exI [of _ "''alice''"] exI [of _ ?t] exI [of _ ?c] conjI tok now, simp_all)
  with both show ?thesis by simp
qed

section \<open>Accounts\<close>

lemma UserRepo_Create_Inr:
  assumes "t_links d = []" and "UserRepo_Create env u d = (Inr u', d')"
  shows "\<exists>r. r \<in> set (t_users d') \<and> t_links d' = [] \<and> pg_text_ok (ur_email r) \<and> u' = u\<lparr>usr_ID := ur_id r, usr_CreatedAt := ur_created_at r\<rparr> \<and>
    ur_username r = usr_Username u \<and> ur_email r = usr_Email u \<and> ur_password_hash r = usr_PasswordHash u \<and>
    ur_avatar_url r = None \<and> \<not> ur_is_anonymous r \<and> ur_id r = uuid_v4 env (t_uuids d)"
proof -
  let ?r = "\<lparr>ur_id = uuid_v4 env (t_uuids d), ur_username = usr_Username u, ur_email = usr_Email u,
      ur_password_hash = usr_PasswordHash u, ur_avatar_url = None, ur_is_anonymous = False, ur_created_at = db_now env\<rparr>"
  from assms have ins: "insert_user ?r (d\<lparr>t_uuids := Suc (t_uuids d)\<rparr>) = Inr d'"
    and u': "u' = u\<lparr>usr_ID := ur_id ?r, usr_CreatedAt := ur_created_at ?r\<rparr>"
    by (auto simp: UserRepo_Create_def exec_up create_user_stmt_def gen_uuid_def first_row_def split: sum.splits)
  from ins have "?r \<in> set (t_users d')" "pg_text_ok (ur_email ?r)" "t_links d' = []"
    using assms(1) by (auto simp: insert_user_def split: if_splits)
  with u' show ?thesis by (intro exI [of _ ?r]) simp
qed

text \<open>\<open>Login\<close> finds a user by the address only.\<close>

lemma GetByEmail_Inr: "UserRepo_GetByEmail env email d = (Inr u, d') \<Longrightarrow> \<exists>r \<in> set (t_users d). ur_email r = email"
proof -
  assume "UserRepo_GetByEmail env email d = (Inr u, d')"
  then obtain xs d1 where "query (\<lambda>d. if \<not> pg_text_ok email then Inl InvalidByteSequence
      else Inr (map scan_user (filter (\<lambda>r. ur_email r = email) (t_users d)))) d = (Inr (u # xs), d1)"
    by (auto simp: UserRepo_GetByEmail_def first_row_def split: prod.splits sum.splits list.splits)
  then have "map scan_user (filter (\<lambda>r. ur_email r = email) (t_users d)) = u # xs"
    by (auto simp: query_def exec_def next_link_def split: list.splits prod.splits if_splits)
  then have "filter (\<lambda>r. ur_email r = email) (t_users d) \<noteq> []" by auto
  then show ?thesis by (simp add: filter_empty_conv)
qed

text \<open>C27: an account works. When \<open>Register\<close> succeeds on a connection that answers, its answer is the new user with the name and the address of the request and a
  token that is accepted until it expires, for that user only. From then on (in any later request) \<open>Login\<close> with the same address
  and password succeeds and answers with the user and such a token; with a password that bcrypt does not accept for the stored hash, and
  with any password for an address that nobody has, it gives one and the same error.\<close>

theorem Register_then_Login:
  assumes "auth_laws lib" and "db_ok d" and "t_links d = []"
    and "AuthService_Register lib svc env req d = (Inr resp, d')"
    and "list_all is_ascii (usr_ID (aur_User resp))" and "issue_ok svc (go_now env)" and "issue_ok svc (go_now env')"
  shows "usr_Username (aur_User resp) = reg_Username req \<and> usr_Email (aur_User resp) = reg_Email req \<and>
    (\<forall>later u. AuthService_ValidateToken lib svc later (aur_Token resp) = Inr u \<longleftrightarrow>
       u = usr_ID (aur_User resp) \<and> later < unix (go_now env + as_jwtExpiry svc) * second_ns) \<and>
    (\<exists>tok. AuthService_Login lib svc env' \<lparr>lgn_Email = reg_Email req, lgn_Password = reg_Password req\<rparr> d' =
         (Inr \<lparr>aur_Token = tok, aur_User = aur_User resp\<rparr>, d') \<and>
       (\<forall>later u. AuthService_ValidateToken lib svc later tok = Inr u \<longleftrightarrow>
          u = usr_ID (aur_User resp) \<and> later < unix (go_now env' + as_jwtExpiry svc) * second_ns)) \<and>
    (\<forall>email pw. (if email = reg_Email req then \<not> bcrypt_Compare lib (usr_PasswordHash (aur_User resp)) pw
         else \<forall>r \<in> set (t_users d'). ur_email r \<noteq> email) \<longrightarrow>
       fst (AuthService_Login lib svc env' \<lparr>lgn_Email = email, lgn_Password = pw\<rparr> d') = Inl (ErrNew ''identifiants invalides''))"
proof -
  from assms(4) obtain h u where h: "bcrypt_Generate lib (reg_Password req) = Inr h"
    and u: "UserRepo_Create env (new_user req h) d = (Inr u, d')" "aur_User resp = u"
    and tok: "AuthService_generateToken lib svc (go_now env) (usr_ID u) = Inr (aur_Token resp)"
    by (auto simp: AuthService_Register_def split: sum.splits prod.splits)
  from UserRepo_Create_Inr [OF assms(3) u(1)] obtain r where r: "r \<in> set (t_users d')" "t_links d' = []"
    "pg_text_ok (ur_email r)" "ur_email r = reg_Email req" "ur_username r = reg_Username req" "ur_password_hash r = h" and scan: "scan_user r = u"
    by (auto simp: new_user_def scan_user_def)
  have "db_ok d'" using UserRepo_Create_inv [OF assms(2), of env "new_user req h"] u(1) by simp
  from GetByEmail_found [OF this r(2,1,3)] r(4) scan
  have found: "UserRepo_GetByEmail env' (reg_Email req) d' = (Inr u, d')" by simp
  have hash: "usr_PasswordHash u = h" and names: "usr_Username u = reg_Username req" "usr_Email u = reg_Email req"
    using r(4-6) scan by (auto simp: scan_user_def)
  have ok: "bcrypt_Compare lib h (reg_Password req)" using auth_lawsD(1) [OF assms(1) h] .
  note issued = issued_token [OF assms(1) assms(5) [unfolded u(2)]]
  from issued [OF assms(6)] tok have first: "AuthService_ValidateToken lib svc later (aur_Token resp) = Inr x \<longleftrightarrow>
      x = usr_ID u \<and> later < unix (go_now env + as_jwtExpiry svc) * second_ns" for later x by auto
  from issued [OF assms(7)] obtain s where s: "AuthService_generateToken lib svc (go_now env') (usr_ID u) = Inr s"
    "\<And>later x. AuthService_ValidateToken lib svc later s = Inr x \<longleftrightarrow> x = usr_ID u \<and> later < unix (go_now env' + as_jwtExpiry svc) * second_ns"
    by blast
  have "AuthService_Login lib svc env' \<lparr>lgn_Email = reg_Email req, lgn_Password = reg_Password req\<rparr> d' = (Inr \<lparr>aur_Token = s, aur_User = u\<rparr>, d')"
    using found hash ok s(1) by (simp add: AuthService_Login_def)
  moreover have "fst (AuthService_Login lib svc env' \<lparr>lgn_Email = email, lgn_Password = pw\<rparr> d') = Inl (ErrNew ''identifiants invalides'')"
    if "if email = reg_Email req then \<not> bcrypt_Compare lib (usr_PasswordHash u) pw else \<forall>r \<in> set (t_users d'). ur_email r \<noteq> email" for email pw
    using that found GetByEmail_Inr [of env' email d']
    by (cases "UserRepo_GetByEmail env' email d'") (auto simp: AuthService_Login_def split: sum.splits if_splits)
  ultimately show ?thesis using first s(2) names unfolding u(2) by blast
qed

definition demo_register :: RegisterRequest where
  "demo_register = \<lparr>reg_Username = ''carol'', reg_Email = ''carol@x.org'', reg_Password = ''secret123''\<rparr>"

lemma demo_registered:
  "\<exists>resp d'. AuthService_Register demo_lib demo_svc demo_env demo_register demo_db = (Inr resp, d') \<and> usr_ID (aur_User resp) = ''uuid-0'' \<and>
     usr_PasswordHash (aur_User resp) = ''h:secret123'' \<and> map ur_email (t_users d') = [''alice'', ''bobby'', ''carol@x.org'']"
proof -
  have "digit_char 0 = CHR ''0''" by code_simp
  then show ?thesis
    by (simp add: AuthService_Register_def demo_lib_def demo_register_def UserRepo_Create_def exec_up create_user_stmt_def
        gen_uuid_def first_row_def new_user_def insert_user_def demo_db_def empty_db_def demo_env_def demo_user_def
        pg_text_ok_def char_length_def username_format_def is_word_def has_user_def AuthService_generateToken_def
        token_claims_def dec_of_nat.simps is_upper_def is_lower_def is_digit_def)
qed

lemma Register_then_Login_witness:
  "\<exists>resp d' resp2. AuthService_Register demo_lib demo_svc demo_env demo_register demo_db = (Inr resp, d') \<and>
     AuthService_Login demo_lib demo_svc demo_env \<lparr>lgn_Email = ''carol@x.org'', lgn_Password = ''secret123''\<rparr> d' = (Inr resp2, d') \<and>
     AuthService_ValidateToken demo_lib demo_svc 5 (aur_Token resp2) = Inr ''uuid-0'' \<and>
     fst (AuthService_Login demo_lib demo_svc demo_env \<lparr>lgn_Email = ''carol@x.org'', lgn_Password = ''wrong''\<rparr> d') =
       Inl (ErrNew ''identifiants invalides'') \<and>
     fst (AuthService_Login demo_lib demo_svc demo_env \<lparr>lgn_Email = ''nobody'', lgn_Password = ''wrong''\<rparr> d') =
       Inl (ErrNew ''identifiants invalides'')"
proof -
  obtain resp d' where run: "AuthService_Register demo_lib demo_svc demo_env demo_register demo_db = (Inr resp, d')"
    and facts: "usr_ID (aur_User resp) = ''uuid-0'' \<and> usr_PasswordHash (aur_User resp) = ''h:secret123'' \<and>
      map ur_email (t_users d') = [''alice'', ''bobby'', ''carol@x.org'']"
    using demo_registered by (elim exE conjE) (rule that, assumption, intro conjI)
  note i = conjunct1 [OF facts] and h = conjunct1 [OF conjunct2 [OF facts]] and emails = conjunct2 [OF conjunct2 [OF facts]]
  have reg: "reg_Email demo_register = ''carol@x.org''" "reg_Password demo_register = ''secret123''" by (simp_all add: demo_register_def)
  have links: "t_links demo_db = []" by code_simp
  have now: "issue_ok demo_svc (go_now demo_env)" using demo_svc_facts(2) by (simp add: demo_env_def)
  have ascii: "list_all is_ascii (usr_ID (aur_User resp))" unfolding i by code_simp
  note both = Register_then_Login [OF demo_lib_laws demo_db_ok links run ascii now now, unfolded reg h]
  have soon: "5 < unix (go_now demo_env + as_jwtExpiry demo_svc) * second_ns"
    by (simp add: demo_env_def unix_def demo_svc_def NewAuthService_def second_ns_def)
  from both soon i obtain tok where right: "AuthService_Login demo_lib demo_svc demo_env \<lparr>lgn_Email = ''carol@x.org'', lgn_Password = ''secret123''\<rparr> d' =
      (Inr \<lparr>aur_Token = tok, aur_User = aur_User resp\<rparr>, d')" "AuthService_ValidateToken demo_lib demo_svc 5 tok = Inr ''uuid-0''" by auto
  have "\<not> bcrypt_Compare demo_lib ''h:secret123'' ''wrong''" by (simp add: demo_lib_def)
  moreover have "\<forall>r \<in> set (t_users d'). ur_email r \<noteq> ''nobody''"
  proof
    fix r assume "r \<in> set (t_users d')"
    then have "ur_email r \<in> set (map ur_email (t_users d'))" by simp
    then show "ur_email r \<noteq> ''nobody''" unfolding emails by auto
  qed
  ultimately have "fst (AuthService_Login demo_lib demo_svc demo_env \<lparr>lgn_Email = ''carol@x.org'', lgn_Password = ''wrong''\<rparr> d') = Inl (ErrNew ''identifiants invalides'')"
    "fst (AuthService_Login demo_lib demo_svc demo_env \<lparr>lgn_Email = ''nobody'', lgn_Password = ''wrong''\<rparr> d') = Inl (ErrNew ''identifiants invalides'')"
    using both by auto
  with run right show ?thesis
    by (intro exI [of _ resp] exI [of _ d'] exI [of _ "\<lparr>aur_Token = tok, aur_User = aur_User resp\<rparr>"]) simp
qed

end
