(* ===== verification/Handlers.thy ===== *)
theory Handlers
  imports Message_Service Interaction_Service Search_Service Auth Json_Decode
begin

text \<open>
  \<open>backend/internal/handler\<close>: one definition per HTTP handler. A handler takes the collaborators it was built with, the
  environment and the request, and threads the state of the process; its result is the response it wrote, or a panic.
  The body of a response is the value handed to the JSON encoder, less the fields tagged \<open>json:"-"\<close>, or the mark that the encoder refused
  it; the text the encoder writes is the subject of \<open>Json_Encode\<close>.
\<close>

section \<open>Requests and responses\<close>

text \<open>
  \<open>rq_query\<close> is \<open>r.URL.Query().Get\<close>, \<open>rq_params\<close> is \<open>chi.URLParam\<close>, \<open>rq_user\<close> the value of \<open>UserIDKey\<close> in the context.
\<close>

record http_request =
  rq_method :: string
  rq_path :: "string list"
  rq_query :: "string \<Rightarrow> string"
  rq_authorization :: string
  rq_remoteAddr :: string
  rq_body :: string
  rq_params :: "string \<Rightarrow> string"
  rq_user :: context_user

record APIError =
  aer_Code :: string
  aer_Message :: string
  aer_Fields :: fields

text \<open>\<open>model.User\<close> as it is encoded: the password hash is tagged \<open>json:"-"\<close>.\<close>

record user_json =
  uj_ID :: string
  uj_Username :: string
  uj_Email :: string
  uj_AvatarURL :: "string option"
  uj_IsAnonymous :: bool
  uj_CreatedAt :: instant

definition encode_user :: "user \<Rightarrow> user_json" where
  "encode_user u = \<lparr>uj_ID = usr_ID u, uj_Username = usr_Username u, uj_Email = usr_Email u, uj_AvatarURL = usr_AvatarURL u,
     uj_IsAnonymous = usr_IsAnonymous u, uj_CreatedAt = usr_CreatedAt u\<rparr>"

text \<open>The data of a successful response; the anonymous maps have a constructor each.\<close>

datatype data =
    D_Nearby "Message list" nat "go_float \<times> go_float" int
  | D_Message Message
  | D_Text string
  | D_Messages "Message list" nat
  | D_Unlock Message bool
  | D_Heatmap "HeatmapPoint list" nat
  | D_Leaderboard "LeaderboardEntry list" nat
  | D_Events "Event list" nat
  | D_Like LikeResponse
  | D_Comments "Interaction list" nat
  | D_Comment Interaction
  | D_Reaction ReactionResponse
  | D_Auth string user_json
  | D_User user_json
  | D_Profile UserStreak "Badge list"
  | D_Search SearchResult
  | D_Hashtags "HashtagResult list" nat
  | D_Health string string

text \<open>The data that \<open>encoding/json\<close> can write: no float but a finite one, and no time outside the years 0 to 9999.\<close>

fun json_data :: "data \<Rightarrow> bool" where
  "json_data (D_Nearby ms n center radius) \<longleftrightarrow> is_finite (fst center) \<and> is_finite (snd center) \<and> list_all json_times ms"
| "json_data (D_Message m) \<longleftrightarrow> json_times m"
| "json_data (D_Messages ms n) \<longleftrightarrow> list_all json_times ms"
| "json_data (D_Unlock m unlocked) \<longleftrightarrow> json_times m"
| "json_data (D_Events es n) \<longleftrightarrow> list_all (\<lambda>e. json_time (evt_FirstMessageAt e) \<and> json_time (evt_LastMessageAt e)) es"
| "json_data (D_Comments cs n) \<longleftrightarrow> list_all (\<lambda>c. json_time (int_CreatedAt c)) cs"
| "json_data (D_Comment c) \<longleftrightarrow> json_time (int_CreatedAt c)"
| "json_data (D_Auth token u) \<longleftrightarrow> json_time (uj_CreatedAt u)"
| "json_data (D_User u) \<longleftrightarrow> json_time (uj_CreatedAt u)"
| "json_data (D_Profile s bs) \<longleftrightarrow> list_all (\<lambda>b. json_time (bdg_EarnedAt b)) bs"
| "json_data (D_Search s) \<longleftrightarrow> list_all json_times (srs_Messages s)"
| "json_data _ \<longleftrightarrow> True"

text \<open>
  \<open>Encode\<close> writes nothing when it fails: \<open>Unencoded x\<close> is the empty body after data \<open>x\<close> that it refused.
\<close>

datatype http_body = Success data | Unencoded data | Failure APIError | PlainText string

record http_response =
  hr_status :: nat
  hr_body :: http_body

datatype outcome = Wrote http_response | Panicked string

type_synonym handler = "http_request \<Rightarrow> app \<Rightarrow> outcome \<times> app"

section \<open>helpers.go\<close>

text \<open>The status is written before the encoder runs, whose error is dropped.\<close>

definition WriteJSON :: "nat \<Rightarrow> data \<Rightarrow> http_response" where
  "WriteJSON status x = \<lparr>hr_status = status, hr_body = (if json_data x then Success x else Unencoded x)\<rparr>"

definition WriteError :: "nat \<Rightarrow> string \<Rightarrow> string \<Rightarrow> http_response" where
  "WriteError status code message =
     \<lparr>hr_status = status, hr_body = Failure \<lparr>aer_Code = code, aer_Message = message, aer_Fields = []\<rparr>\<rparr>"

definition WriteValidationError :: "fields \<Rightarrow> http_response" where
  "WriteValidationError fs =
     \<lparr>hr_status = 400, hr_body = Failure \<lparr>aer_Code = ''VALIDATION_ERROR'', aer_Message = ''Donnees invalides'', aer_Fields = fs\<rparr>\<rparr>"

text \<open>A handler that calls a service method once: what it writes for an error and for a result. A panic of the method unwinds the handler.\<close>

definition respond :: "'a service \<Rightarrow> (go_error \<Rightarrow> http_response) \<Rightarrow> ('a \<Rightarrow> http_response) \<Rightarrow> app \<Rightarrow> outcome \<times> app" where
  "respond call on_err on_ok a =
     (case call a of
        (Inr x, a1) \<Rightarrow> (Wrote (on_ok x), a1)
      | (Inl (Panic s), a1) \<Rightarrow> (Panicked s, a1)
      | (Inl e, a1) \<Rightarrow> (Wrote (on_err e), a1))"

text \<open>The prologue of the handlers with a body: decode it, then validate it.\<close>

definition with_request ::
  "(string \<Rightarrow> json option) \<Rightarrow> (json \<Rightarrow> 'r option) \<Rightarrow> ('r \<Rightarrow> fields) \<Rightarrow> ('r \<Rightarrow> app \<Rightarrow> outcome \<times> app) \<Rightarrow> handler" where
  "with_request json_read decode validate next r a =
     (case DecodeJSON json_read decode (rq_body r) of
        None \<Rightarrow> (Wrote (WriteError 400 ''INVALID_JSON'' ''JSON invalide''), a)
      | Some req \<Rightarrow> if validate req \<noteq> [] then (Wrote (WriteValidationError (validate req)), a) else next req a)"

text \<open>\<open>strconv.ParseFloat\<close> reads \<open>NaN\<close> and \<open>Inf\<close> too.\<close>

definition parseFloat :: "env \<Rightarrow> http_request \<Rightarrow> string \<Rightarrow> real \<Rightarrow> go_float" where
  "parseFloat env r key fallback = (case strconv_ParseFloat env (rq_query r key) of None \<Rightarrow> Finite fallback | Some v \<Rightarrow> v)"

definition parseInt :: "http_request \<Rightarrow> string \<Rightarrow> int \<Rightarrow> int" where
  "parseInt r key fallback =
     (case strconv_Atoi (rq_query r key) of None \<Rightarrow> fallback | Some v \<Rightarrow> if v \<le> 0 then fallback else v)"

text \<open>
  The collaborators: the libraries, the services, the JSON reader and encoder, the text of a library error, and what the
  WebSocket upgrader makes of a handshake.
\<close>

datatype upgrade = Upgraded | Bad_handshake | No_hijack

record backend =
  bk_lib :: auth_lib
  bk_auth :: AuthService
  bk_msg :: MessageService
  bk_json :: "string \<Rightarrow> json option"
  bk_marshal :: "ws_Event \<Rightarrow> string option"
  bk_error_text :: "go_error \<Rightarrow> string"
  bk_upgrade :: "http_request \<Rightarrow> upgrade"

definition error_text :: "backend \<Rightarrow> go_error \<Rightarrow> string" where
  "error_text bk e =
     (case e of ErrNew s \<Rightarrow> s | ErrNotFound \<Rightarrow> ''resource not found'' | _ \<Rightarrow> bk_error_text bk e)"

section \<open>auth_handler.go\<close>

definition AuthHandler_Register :: "backend \<Rightarrow> env \<Rightarrow> handler" where
  "AuthHandler_Register bk env =
     with_request (bk_json bk) decode_RegisterRequest RegisterRequest_Validate
       (\<lambda>req. respond (on_db (AuthService_Register (bk_lib bk) (bk_auth bk) env req))
          (\<lambda>e. WriteError 409 ''REGISTER_FAILED'' (error_text bk e))
          (\<lambda>resp. WriteJSON 201 (D_Auth (aur_Token resp) (encode_user (aur_User resp)))))"

definition AuthHandler_Login :: "backend \<Rightarrow> env \<Rightarrow> handler" where
  "AuthHandler_Login bk env =
     with_request (bk_json bk) decode_LoginRequest LoginRequest_Validate
       (\<lambda>req. respond (on_db (AuthService_Login (bk_lib bk) (bk_auth bk) env req))
          (\<lambda>e. WriteError 401 ''LOGIN_FAILED'' (error_text bk e))
          (\<lambda>resp. WriteJSON 200 (D_Auth (aur_Token resp) (encode_user (aur_User resp)))))"

definition AuthHandler_Me :: "env \<Rightarrow> handler" where
  "AuthHandler_Me env r =
     respond (on_db (AuthService_GetUser env (GetUserID (rq_user r))))
       (\<lambda>e. WriteError 404 ''USER_NOT_FOUND'' ''Utilisateur introuvable'') (\<lambda>u. WriteJSON 200 (D_User (encode_user u)))"

section \<open>message_handler.go\<close>

definition MessageHandler_GetNearby :: "backend \<Rightarrow> env \<Rightarrow> handler" where
  "MessageHandler_GetNearby bk env r =
     (let radius = (let v = parseInt r ''radius'' 1000 in if v > 1000 then 1000 else v);
          limit = (let v = parseInt r ''limit'' 50 in if v > 50 then 50 else v);
          q = \<lparr>nq_Latitude = parseFloat env r ''lat'' 48.8566, nq_Longitude = parseFloat env r ''lng'' 2.3522,
               nq_Radius = radius, nq_Limit = limit, nq_Sort = rq_query r ''sort'', nq_Hashtag = rq_query r ''hashtag'',
               nq_UserID = GetUserID (rq_user r)\<rparr>
      in respond (MessageService_GetNearby (bk_msg bk) env q) (\<lambda>e. WriteError 500 ''FETCH_ERROR'' ''Erreur serveur'')
           (\<lambda>ms. WriteJSON 200 (D_Nearby ms (length ms) (nq_Latitude q, nq_Longitude q) (nq_Radius q))))"

definition MessageHandler_Create :: "backend \<Rightarrow> env \<Rightarrow> handler" where
  "MessageHandler_Create bk env r =
     (let userID = GetUserID (rq_user r) in
      with_request (bk_json bk) decode_CreateMessageRequest CreateMessageRequest_Validate
        (\<lambda>req. respond (MessageService_Create (bk_msg bk) (bk_marshal bk) env userID req)
           (\<lambda>e. WriteError 500 ''CREATE_ERROR'' ''Erreur lors de la creation'') (\<lambda>m. WriteJSON 201 (D_Message m))) r)"

definition MessageHandler_Delete :: "env \<Rightarrow> handler" where
  "MessageHandler_Delete env r =
     respond (MessageService_Delete env (rq_params r ''id'') (GetUserID (rq_user r)))
       (\<lambda>e. if e = ErrNotFound then WriteError 404 ''NOT_FOUND'' ''Message introuvable ou non autorise''
             else WriteError 500 ''DELETE_ERROR'' ''Erreur serveur'')
       (\<lambda>_. WriteJSON 200 (D_Text ''Message supprime''))"

definition MessageHandler_GetByUser :: "env \<Rightarrow> handler" where
  "MessageHandler_GetByUser env r =
     respond (MessageService_GetByUser env (rq_params r ''id''))
       (\<lambda>e. WriteError 500 ''FETCH_ERROR'' ''Erreur serveur'') (\<lambda>ms. WriteJSON 200 (D_Messages ms (length ms)))"

definition MessageHandler_UnlockMystery :: "backend \<Rightarrow> env \<Rightarrow> handler" where
  "MessageHandler_UnlockMystery bk env r a =
     (case DecodeJSON (bk_json bk) decode_unlock_body (rq_body r) of
        None \<Rightarrow> (Wrote (WriteError 400 ''INVALID_JSON'' ''JSON invalide''), a)
      | Some body \<Rightarrow>
          respond (MessageService_UnlockMystery (bk_msg bk) env (rq_params r ''id'') (GetUserID (rq_user r))
              (unl_Latitude body) (unl_Longitude body))
            (\<lambda>e. if e = ErrNotFound then WriteError 404 ''NOT_FOUND'' ''Message introuvable''
                  else WriteError 500 ''UNLOCK_ERROR'' ''Erreur serveur'')
            (\<lambda>(m, unlocked). WriteJSON 200 (D_Unlock m unlocked)) a)"

definition MessageHandler_GetHeatmap :: "env \<Rightarrow> handler" where
  "MessageHandler_GetHeatmap env r =
     (let radius = (let v = parseInt r ''radius'' 1000 in if v > 5000 then 5000 else v) in
      respond (MessageService_GetHeatmap env (parseFloat env r ''lat'' 48.8566) (parseFloat env r ''lng'' 2.3522) radius)
        (\<lambda>e. WriteError 500 ''HEATMAP_ERROR'' ''Erreur serveur'') (\<lambda>ps. WriteJSON 200 (D_Heatmap ps (length ps))))"

definition MessageHandler_GetLeaderboard :: "env \<Rightarrow> handler" where
  "MessageHandler_GetLeaderboard env r =
     respond (MessageService_GetLeaderboard env (parseFloat env r ''lat'' 48.8566) (parseFloat env r ''lng'' 2.3522)
         (parseInt r ''radius'' 5000) (parseInt r ''limit'' 20))
       (\<lambda>e. WriteError 500 ''LEADERBOARD_ERROR'' ''Erreur serveur'') (\<lambda>es. WriteJSON 200 (D_Leaderboard es (length es)))"

definition MessageHandler_DetectEvents :: "env \<Rightarrow> handler" where
  "MessageHandler_DetectEvents env r =
     (let radius = (let v = parseInt r ''radius'' 5000 in if v > 10000 then 10000 else v) in
      respond (MessageService_DetectEvents env (parseFloat env r ''lat'' 48.8566) (parseFloat env r ''lng'' 2.3522) radius)
        (\<lambda>e. WriteError 500 ''EVENTS_ERROR'' ''Erreur serveur'') (\<lambda>es. WriteJSON 200 (D_Events es (length es))))"

section \<open>interaction_handler.go\<close>

definition InteractionHandler_ToggleLike :: "env \<Rightarrow> handler" where
  "InteractionHandler_ToggleLike env r =
     respond (on_db (InteractionService_ToggleLike env (rq_params r ''id'') (GetUserID (rq_user r))))
       (\<lambda>e. WriteError 500 ''LIKE_ERROR'' ''Erreur serveur'') (\<lambda>resp. WriteJSON 200 (D_Like resp))"

definition InteractionHandler_GetComments :: "env \<Rightarrow> handler" where
  "InteractionHandler_GetComments env r =
     respond (on_db (InteractionService_GetComments env (rq_params r ''id'')))
       (\<lambda>e. WriteError 500 ''FETCH_ERROR'' ''Erreur serveur'') (\<lambda>cs. WriteJSON 200 (D_Comments cs (length cs)))"

definition InteractionHandler_AddComment :: "backend \<Rightarrow> env \<Rightarrow> handler" where
  "InteractionHandler_AddComment bk env r =
     with_request (bk_json bk) decode_CreateCommentRequest CreateCommentRequest_Validate
       (\<lambda>req. respond (on_db (InteractionService_AddComment env (rq_params r ''id'') (GetUserID (rq_user r)) (ccr_Content req)))
          (\<lambda>e. WriteError 500 ''COMMENT_ERROR'' ''Erreur serveur'') (\<lambda>c. WriteJSON 201 (D_Comment c))) r"

definition InteractionHandler_DeleteComment :: "env \<Rightarrow> handler" where
  "InteractionHandler_DeleteComment env r =
     respond (on_db (InteractionService_DeleteComment env (rq_params r ''commentId'') (GetUserID (rq_user r))))
       (\<lambda>e. if e = ErrNotFound then WriteError 404 ''NOT_FOUND'' ''Commentaire introuvable ou non autorise''
             else WriteError 500 ''DELETE_ERROR'' ''Erreur serveur'')
       (\<lambda>_. WriteJSON 200 (D_Text ''Commentaire supprime''))"

definition InteractionHandler_ToggleReaction :: "backend \<Rightarrow> env \<Rightarrow> handler" where
  "InteractionHandler_ToggleReaction bk env r =
     with_request (bk_json bk) decode_ReactionRequest ReactionRequest_Validate
       (\<lambda>req. respond (on_db (InteractionService_ToggleReaction env (rq_params r ''id'') (GetUserID (rq_user r)) (rrq_Emoji req)))
          (\<lambda>e. WriteError 500 ''REACTION_ERROR'' ''Erreur serveur'') (\<lambda>resp. WriteJSON 200 (D_Reaction resp))) r"

definition InteractionHandler_ReportMessage :: "backend \<Rightarrow> env \<Rightarrow> handler" where
  "InteractionHandler_ReportMessage bk env r =
     with_request (bk_json bk) decode_ReportRequest ReportRequest_Validate
       (\<lambda>req. respond (on_db (InteractionService_ReportMessage env (rq_params r ''id'') (GetUserID (rq_user r))
            (rpt_Reason req) (rpt_Description req)))
          (\<lambda>e. WriteError 500 ''REPORT_ERROR'' ''Erreur serveur'') (\<lambda>_. WriteJSON 201 (D_Text ''Signalement enregistre''))) r"

section \<open>gamification_handler.go, search_handler.go, health.go\<close>

definition GamificationHandler_GetMyProfile :: "env \<Rightarrow> handler" where
  "GamificationHandler_GetMyProfile env r =
     respond (on_db (GamificationService_GetProfile env (GetUserID (rq_user r))))
       (\<lambda>e. WriteError 500 ''PROFILE_ERROR'' ''Erreur serveur'') (\<lambda>(s, bs). WriteJSON 200 (D_Profile s bs))"

definition GamificationHandler_GetUserProfile :: "env \<Rightarrow> handler" where
  "GamificationHandler_GetUserProfile env r =
     respond (on_db (GamificationService_GetProfile env (rq_params r ''id'')))
       (\<lambda>e. WriteError 500 ''PROFILE_ERROR'' ''Erreur serveur'') (\<lambda>(s, bs). WriteJSON 200 (D_Profile s bs))"

definition SearchHandler_Search :: "env \<Rightarrow> handler" where
  "SearchHandler_Search env r a =
     (let q = rq_query r ''q'' in
      if q = [] then (Wrote (WriteError 400 ''MISSING_QUERY'' ''Le parametre q est requis''), a)
      else (let searchType = (if rq_query r ''type'' = [] then ''hashtag'' else rq_query r ''type'') in
            if searchType \<noteq> ''hashtag'' \<and> searchType \<noteq> ''user''
            then (Wrote (WriteError 400 ''INVALID_TYPE'' ''type doit etre hashtag ou user''), a)
            else (let limit = (let v = parseInt r ''limit'' 20 in if v > 50 then 50 else v);
                      offset = parseInt r ''offset'' 0
                  in respond (on_db (SearchService_Search env
                         \<lparr>sq_Query = q, sq_Type = searchType, sq_Limit = limit, sq_Offset = offset\<rparr>))
                       (\<lambda>e. WriteError 500 ''SEARCH_ERROR'' ''Erreur de recherche'') (\<lambda>s. WriteJSON 200 (D_Search s)) a)))"

definition SearchHandler_PopularHashtags :: "env \<Rightarrow> handler" where
  "SearchHandler_PopularHashtags env r =
     (let limit = (let v = parseInt r ''limit'' 10 in if v > 50 then 50 else v) in
      respond (on_db (SearchService_GetPopularHashtags env limit))
        (\<lambda>e. WriteError 500 ''HASHTAG_ERROR'' ''Erreur serveur'') (\<lambda>hs. WriteJSON 200 (D_Hashtags hs (length hs))))"

text \<open>A ping is a round trip on the connection.\<close>

definition pool_Ping :: "unit action" where
  "pool_Ping d = query (\<lambda>_. Inr ()) d"

definition HealthCheck :: "handler" where
  "HealthCheck r =
     respond (on_db pool_Ping) (\<lambda>e. WriteError 503 ''DB_DOWN'' ''Base de donnees inaccessible'')
       (\<lambda>_. WriteJSON 200 (D_Health ''ok'' ''connected''))"

section \<open>Every handler keeps the invariant of the process\<close>

lemma respond_inv:
  assumes "app_ok (snd (call a))"
  shows "app_ok (snd (respond call e k a))"
  using assms by (auto simp: respond_def split: prod.splits sum.splits go_error.splits)

lemma with_request_inv:
  assumes "app_ok a" and "\<And>req. app_ok (snd (next req a))"
  shows "app_ok (snd (with_request j dec val next r a))"
  using assms by (auto simp: with_request_def split: option.splits)

lemma AuthService_inv [db_inv]:
  assumes "db_ok d"
  shows "db_ok (snd (AuthService_Register lib svc env reg d))" "db_ok (snd (AuthService_Login lib svc env lgn d))"
    "db_ok (snd (AuthService_GetUser env i d))"
  using UserRepo_Create_inv [OF assms] UserRepo_reads_inv [OF assms] assms
  by (auto simp: AuthService_Register_def AuthService_Login_def AuthService_GetUser_def split: prod.splits sum.splits)
    (metis snd_conv)+

lemma pool_Ping_inv [db_inv]: "db_ok d \<Longrightarrow> db_ok (snd (pool_Ping d))"
  by (simp add: pool_Ping_def query_keeps)

lemma public_handlers_inv:
  assumes "app_ok a"
  shows "app_ok (snd (AuthHandler_Register bk env r a))" "app_ok (snd (AuthHandler_Login bk env r a))"
    "app_ok (snd (MessageHandler_GetNearby bk env r a))" "app_ok (snd (MessageHandler_GetHeatmap env r a))"
    "app_ok (snd (MessageHandler_GetLeaderboard env r a))" "app_ok (snd (MessageHandler_DetectEvents env r a))"
    "app_ok (snd (MessageHandler_GetByUser env r a))" "app_ok (snd (InteractionHandler_GetComments env r a))"
    "app_ok (snd (GamificationHandler_GetUserProfile env r a))" "app_ok (snd (SearchHandler_Search env r a))"
    "app_ok (snd (SearchHandler_PopularHashtags env r a))" "app_ok (snd (HealthCheck r a))"
  using assms
  by (auto simp: AuthHandler_Register_def AuthHandler_Login_def MessageHandler_GetNearby_def MessageHandler_GetHeatmap_def
      MessageHandler_GetLeaderboard_def MessageHandler_DetectEvents_def MessageHandler_GetByUser_def
      InteractionHandler_GetComments_def GamificationHandler_GetUserProfile_def SearchHandler_Search_def
      SearchHandler_PopularHashtags_def HealthCheck_def Let_def
      intro!: with_request_inv respond_inv on_db_ok MessageService_GetNearby_inv MessageService_reads_inv db_inv)

lemma private_handlers_inv:
  assumes "app_ok a"
  shows "app_ok (snd (AuthHandler_Me env r a))" "app_ok (snd (GamificationHandler_GetMyProfile env r a))"
    "app_ok (snd (MessageHandler_Create bk env r a))" "app_ok (snd (MessageHandler_Delete env r a))"
    "app_ok (snd (MessageHandler_UnlockMystery bk env r a))" "app_ok (snd (InteractionHandler_ToggleLike env r a))"
    "app_ok (snd (InteractionHandler_ToggleReaction bk env r a))" "app_ok (snd (InteractionHandler_AddComment bk env r a))"
    "app_ok (snd (InteractionHandler_ReportMessage bk env r a))" "app_ok (snd (InteractionHandler_DeleteComment env r a))"
  using assms
  by (auto simp: AuthHandler_Me_def GamificationHandler_GetMyProfile_def MessageHandler_Create_def MessageHandler_Delete_def
      MessageHandler_UnlockMystery_def InteractionHandler_ToggleLike_def InteractionHandler_ToggleReaction_def
      InteractionHandler_AddComment_def InteractionHandler_ReportMessage_def InteractionHandler_DeleteComment_def Let_def
      split: option.splits
      intro!: with_request_inv respond_inv on_db_ok MessageService_Create_inv MessageService_Delete_inv
        MessageService_UnlockMystery_inv db_inv)

section \<open>The envelope\<close>

text \<open>A response has a status of success exactly if a handler answered with data, which the body carries if it can be encoded.\<close>

definition answers_with :: "data \<Rightarrow> http_response \<Rightarrow> bool" where
  "answers_with x resp \<longleftrightarrow> hr_body resp = (if json_data x then Success x else Unencoded x)"

definition envelope_ok :: "outcome \<Rightarrow> bool" where
  "envelope_ok out = (case out of
     Wrote resp \<Rightarrow> (hr_status resp \<in> {200, 201} \<longleftrightarrow> (\<exists>x. answers_with x resp)) \<and>
       (hr_status resp \<notin> {200, 201} \<longleftrightarrow> (\<exists>e. hr_body resp = Failure e) \<or> (\<exists>s. hr_body resp = PlainText s))
   | Panicked s \<Rightarrow> True)"

lemma write_ok:
  "status \<in> {200, 201} \<Longrightarrow> envelope_ok (Wrote (WriteJSON status x))"
  "status \<notin> {200, 201} \<Longrightarrow> envelope_ok (Wrote (WriteError status code msg))"
  "envelope_ok (Wrote (WriteValidationError fs))"
  by (auto simp: envelope_ok_def answers_with_def WriteJSON_def WriteError_def WriteValidationError_def split: if_splits)

text \<open>A centre that cannot be encoded, such as \<open>NaN\<close>: the status is 200 and the body is empty.\<close>

lemma GetNearby_no_body:
  assumes "fst (MessageHandler_GetNearby bk env r a) = Wrote resp" and "hr_status resp = 200"
    and "\<not> is_finite (parseFloat env r ''lat'' 48.8566) \<or> \<not> is_finite (parseFloat env r ''lng'' 2.3522)"
  shows "\<exists>x. hr_body resp = Unencoded x"
  using assms by (auto simp: MessageHandler_GetNearby_def respond_def Let_def WriteJSON_def WriteError_def
      split: prod.splits sum.splits go_error.splits)

lemma envelope_panicked: "envelope_ok (Panicked s)"
  by (simp add: envelope_ok_def)

lemma respond_envelope:
  assumes "\<And>err. envelope_ok (Wrote (e err))" and "\<And>x. envelope_ok (Wrote (k x))"
  shows "envelope_ok (fst (respond call e k a))"
  using assms by (auto simp: respond_def envelope_panicked split: prod.splits sum.splits go_error.splits)

lemma with_request_envelope:
  assumes "\<And>req. envelope_ok (fst (next req a))"
  shows "envelope_ok (fst (with_request j dec val next r a))"
  using assms by (auto simp: with_request_def write_ok split: option.splits)

end
