(* ===== verification/Rate_Limit.thy ===== *)
theory Rate_Limit
  imports GN_Prelude Api_Model
begin

text \<open>
  \<open>backend/internal/middleware/ratelimit.go\<close>: the token bucket per remote address and the cool-down per
  user. The mutex makes each request and each round of a cleanup goroutine one step; the clock is read under the
  mutex, so the steps carry non-decreasing instants (nanoseconds of the process's monotonic clock).
\<close>

section \<open>RateLimit\<close>

record visitor =
  tokens :: real
  lastSeen :: instant

type_synonym visitors = "string \<Rightarrow> visitor option"

definition seconds :: "int \<Rightarrow> real" where
  "seconds ns = of_int ns / 1000000000"

definition minute_ns :: int where
  "minute_ns = 60 * 1000000000"

definition refill :: "real \<Rightarrow> int \<Rightarrow> instant \<Rightarrow> visitor \<Rightarrow> visitor" where
  "refill rate maxBurst now v =
     (let elapsed = seconds (now - lastSeen v);
          t = tokens v + elapsed * rate
      in v\<lparr>tokens := (if t > of_int maxBurst then of_int maxBurst else t), lastSeen := now\<rparr>)"

text \<open>The answer is whether the request goes on to the next handler; otherwise it is answered 429.\<close>

definition RateLimit :: "real \<Rightarrow> int \<Rightarrow> string \<Rightarrow> instant \<Rightarrow> visitors \<Rightarrow> bool \<times> visitors" where
  "RateLimit rate maxBurst ip now visitors =
     (let v = (case visitors ip of None \<Rightarrow> \<lparr>tokens = of_int maxBurst, lastSeen = now\<rparr> | Some v \<Rightarrow> v);
          v1 = refill rate maxBurst now v
      in if tokens v1 < 1 then (False, visitors(ip \<mapsto> v1))
         else (True, visitors(ip \<mapsto> v1\<lparr>tokens := tokens v1 - 1\<rparr>)))"

definition RateLimit_cleanup :: "instant \<Rightarrow> visitors \<Rightarrow> visitors" where
  "RateLimit_cleanup now visitors =
     (\<lambda>ip. case visitors ip of
        None \<Rightarrow> None
      | Some v \<Rightarrow> if now - lastSeen v > minute_ns then None else Some v)"

text \<open>A history of the middleware: requests and cleanup rounds.\<close>

datatype rl_event = Request string instant | Sweep instant

fun rl_time :: "rl_event \<Rightarrow> instant" where
  "rl_time (Request ip t) = t"
| "rl_time (Sweep t) = t"

fun is_sweep :: "rl_event \<Rightarrow> bool" where
  "is_sweep (Sweep t) = True"
| "is_sweep (Request ip t) = False"

text \<open>The requests that go on, in order.\<close>

fun rl_admitted :: "real \<Rightarrow> int \<Rightarrow> rl_event list \<Rightarrow> visitors \<Rightarrow> (string \<times> instant) list" where
  "rl_admitted rate maxBurst [] vs = []"
| "rl_admitted rate maxBurst (Sweep t # es) vs = rl_admitted rate maxBurst es (RateLimit_cleanup t vs)"
| "rl_admitted rate maxBurst (Request ip t # es) vs =
     (if fst (RateLimit rate maxBurst ip t vs) then [(ip, t)] else []) @
     rl_admitted rate maxBurst es (snd (RateLimit rate maxBurst ip t vs))"

section \<open>The bucket\<close>

text \<open>What a request at \<open>t\<close> finds in the bucket of an address.\<close>

definition avail :: "real \<Rightarrow> int \<Rightarrow> visitors \<Rightarrow> string \<Rightarrow> instant \<Rightarrow> real" where
  "avail rate maxBurst vs ip t =
     (case vs ip of None \<Rightarrow> of_int maxBurst
      | Some v \<Rightarrow> min (of_int maxBurst) (tokens v + seconds (t - lastSeen v) * rate))"

definition visitors_ok :: "int \<Rightarrow> instant \<Rightarrow> visitors \<Rightarrow> bool" where
  "visitors_ok maxBurst now vs \<longleftrightarrow>
     (\<forall>ip v. vs ip = Some v \<longrightarrow> 0 \<le> tokens v \<and> tokens v \<le> of_int maxBurst \<and> lastSeen v \<le> now)"

lemma seconds_mono: "a \<le> b \<Longrightarrow> seconds a \<le> seconds b"
  by (simp add: seconds_def divide_right_mono)

lemma seconds_diff: "seconds (a - b) = seconds a - seconds b"
  by (simp add: seconds_def diff_divide_distrib)

lemma seconds_zero [simp]: "seconds 0 = 0"
  by (simp add: seconds_def)

lemma seconds_nonneg: "0 \<le> t \<Longrightarrow> 0 \<le> seconds t"
  by (simp add: seconds_def)

lemma avail_le: "avail rate B vs ip t \<le> of_int B"
  by (simp add: avail_def split: option.splits)

lemma avail_grow:
  assumes "0 \<le> rate" and "s \<le> t"
  shows "avail rate B vs ip t \<le> avail rate B vs ip s + seconds (t - s) * rate"
    and "avail rate B vs ip s \<le> avail rate B vs ip t"
proof -
  have pos: "0 \<le> seconds (t - s) * rate" using assms by (simp add: seconds_nonneg)
  have split: "seconds (t - x) * rate = seconds (s - x) * rate + seconds (t - s) * rate" for x
    by (simp add: seconds_diff algebra_simps)
  show "avail rate B vs ip t \<le> avail rate B vs ip s + seconds (t - s) * rate"
    "avail rate B vs ip s \<le> avail rate B vs ip t"
    using pos split [of "lastSeen (the (vs ip))"] by (cases "vs ip"; simp add: avail_def min_def)+
qed

text \<open>A request is admitted exactly when the bucket holds a token, and takes it; other buckets are not touched.\<close>

lemma RateLimit_eq:
  "RateLimit rate B ip now vs =
     (let a = avail rate B vs ip now
      in (1 \<le> a, vs(ip \<mapsto> \<lparr>tokens = (if 1 \<le> a then a - 1 else a), lastSeen = now\<rparr>)))"
proof (cases "vs ip")
  case None
  then show ?thesis by (auto simp: RateLimit_def refill_def avail_def Let_def)
next
  case (Some v)
  obtain tk ls where "v = \<lparr>tokens = tk, lastSeen = ls\<rparr>" by (cases v)
  with Some show ?thesis by (auto simp: RateLimit_def refill_def avail_def Let_def min_def)
qed

lemma avail_nonneg:
  assumes "visitors_ok B now vs" and "0 \<le> rate" and "0 \<le> B" and "now \<le> t"
  shows "0 \<le> avail rate B vs ip t"
proof (cases "vs ip")
  case None
  with assms(3) show ?thesis by (simp add: avail_def)
next
  case (Some v)
  with assms have "0 \<le> tokens v" "0 \<le> seconds (t - lastSeen v) * rate"
    by (force simp: visitors_ok_def intro!: mult_nonneg_nonneg seconds_nonneg)+
  with Some assms(3) show ?thesis by (simp add: avail_def)
qed

lemma RateLimit_ok:
  assumes "visitors_ok B now vs" and "0 \<le> rate" and "0 \<le> B" and "now \<le> t"
  shows "visitors_ok B t (snd (RateLimit rate B ip t vs))"
proof -
  have "0 \<le> avail rate B vs ip t" by (rule avail_nonneg [OF assms])
  with assms avail_le [of rate B vs ip t] show ?thesis
    by (force simp: RateLimit_eq Let_def visitors_ok_def)
qed

lemma cleanup_ok: "visitors_ok B now vs \<Longrightarrow> now \<le> t \<Longrightarrow> visitors_ok B t (RateLimit_cleanup t vs)"
  by (force simp: RateLimit_cleanup_def visitors_ok_def split: option.splits if_splits)

text \<open>Forgetting an idle address does not change what its bucket holds: a minute refills it.\<close>

lemma cleanup_avail:
  assumes "visitors_ok B now vs" and "0 \<le> rate" and "of_int B \<le> 60 * rate" and "now \<le> s" and "s \<le> t"
  shows "avail rate B (RateLimit_cleanup s vs) ip t = avail rate B vs ip t"
proof (cases "vs ip")
  case (Some v)
  show ?thesis
  proof (cases "s - lastSeen v > minute_ns")
    case True
    with assms(5) have "seconds minute_ns \<le> seconds (t - lastSeen v)" by (intro seconds_mono) simp
    then have "60 * rate \<le> seconds (t - lastSeen v) * rate"
      using assms(2) by (intro mult_right_mono) (simp_all add: seconds_def minute_ns_def)
    moreover have "0 \<le> tokens v" using assms(1) Some by (auto simp: visitors_ok_def)
    ultimately show ?thesis using assms(3) True Some by (simp add: avail_def RateLimit_cleanup_def min_def)
  qed (simp add: avail_def RateLimit_cleanup_def Some)
qed (simp add: avail_def RateLimit_cleanup_def)

lemma visitors_ok_mono: "visitors_ok B now vs \<Longrightarrow> now \<le> t \<Longrightarrow> visitors_ok B t vs"
  by (force simp: visitors_ok_def)

lemma admitted_times: "(ip, u) \<in> set (rl_admitted rate B es vs) \<Longrightarrow> \<exists>e \<in> set es. rl_time e = u"
  by (induction rate B es vs rule: rl_admitted.induct) (auto split: if_splits)

lemma avail_after:
  "avail rate B (snd (RateLimit rate B ip u vs)) ip' u =
   (if ip' = ip then (let a = avail rate B vs ip u in if 1 \<le> a then a - 1 else a) else avail rate B vs ip' u)"
proof (cases "ip' = ip")
  case True
  have "avail rate B vs ip u \<le> of_int B" by (rule avail_le)
  with True show ?thesis by (auto simp: RateLimit_eq Let_def avail_def)
qed (simp add: RateLimit_eq Let_def avail_def)

lemma budget_nonneg:
  assumes "visitors_ok B s vs" and "0 \<le> rate" and "0 \<le> B" and "s \<le> t"
  shows "0 \<le> avail rate B vs ip s + seconds (t - s) * rate"
  using avail_nonneg [OF assms(1-3) order_refl] assms(2,4) by (simp add: seconds_nonneg)

text \<open>From a state at time \<open>s\<close> on, an address gets what its bucket holds and what flows in.\<close>

lemma admitted_bound:
  assumes "visitors_ok B s vs" and "0 \<le> rate" and "0 \<le> B" and "of_int B \<le> 60 * rate"
    and "sorted (map rl_time es)" and "\<forall>e \<in> set es. s \<le> rl_time e" and "s \<le> t"
  shows "real (count_where (\<lambda>(a, u). a = ip \<and> u \<le> t) (rl_admitted rate B es vs))
    \<le> avail rate B vs ip s + seconds (t - s) * rate"
  using assms(1,5-7)
proof (induction es arbitrary: s vs)
  case Nil
  then show ?case using budget_nonneg [OF Nil.prems(1) assms(2,3) Nil.prems(4)] by simp
next
  case (Cons e es)
  define u where "u = rl_time e"
  have su: "s \<le> u" and rest: "\<forall>x \<in> set es. u \<le> rl_time x" and sorted: "sorted (map rl_time es)"
    using Cons.prems by (auto simp: u_def)
  have oku: "visitors_ok B u vs" using Cons.prems(1) su by (rule visitors_ok_mono)
  show ?case
  proof (cases "u \<le> t")
    case False
    have "count_where (\<lambda>(a, w). a = ip \<and> w \<le> t) (rl_admitted rate B (e # es) vs) = 0"
      using False rest by (force simp: count_where_zero u_def dest!: admitted_times)
    then show ?thesis using budget_nonneg [OF Cons.prems(1) assms(2,3) Cons.prems(4)] by simp
  next
    case True
    have grow: "avail rate B vs ip u + seconds (t - u) * rate \<le> avail rate B vs ip s + seconds (t - s) * rate"
      using avail_grow(1) [OF assms(2) su, of B vs ip] by (simp add: seconds_diff algebra_simps)
    show ?thesis
    proof (cases e)
      case (Sweep x)
      with u_def have e: "e = Sweep u" by simp
      have ok1: "visitors_ok B u (RateLimit_cleanup u vs)" by (rule cleanup_ok [OF oku order_refl])
      have "real (count_where (\<lambda>(a, w). a = ip \<and> w \<le> t) (rl_admitted rate B es (RateLimit_cleanup u vs)))
          \<le> avail rate B (RateLimit_cleanup u vs) ip u + seconds (t - u) * rate"
        by (rule Cons.IH [OF ok1 sorted rest True])
      also have "avail rate B (RateLimit_cleanup u vs) ip u = avail rate B vs ip u"
        by (rule cleanup_avail [OF oku assms(2,4) order_refl order_refl])
      finally show ?thesis using grow e by simp
    next
      case (Request ip' x)
      with u_def have e: "e = Request ip' u" by simp
      let ?vs = "snd (RateLimit rate B ip' u vs)"
      have ok1: "visitors_ok B u ?vs" by (rule RateLimit_ok [OF oku assms(2,3) order_refl])
      have "real (count_where (\<lambda>(a, w). a = ip \<and> w \<le> t) (rl_admitted rate B es ?vs))
          \<le> avail rate B ?vs ip u + seconds (t - u) * rate"
        by (rule Cons.IH [OF ok1 sorted rest True])
      then show ?thesis
        using grow True unfolding e avail_after Let_def
        by (auto simp: RateLimit_eq Let_def split: if_splits)
    qed
  qed
qed

lemma admitted_late:
  assumes "visitors_ok B now vs" and "0 \<le> rate" and "0 \<le> B" and "of_int B \<le> 60 * rate"
    and "sorted (map rl_time es)" and "\<forall>e \<in> set es. now \<le> rl_time e \<and> s \<le> rl_time e" and "s \<le> t"
  shows "real (count_where (\<lambda>(a, u). a = ip \<and> s \<le> u \<and> u \<le> t) (rl_admitted rate B es vs))
    \<le> of_int B + seconds (t - s) * rate"
proof (cases "max now s \<le> t")
  case True
  have "visitors_ok B (max now s) vs" using assms(1) by (rule visitors_ok_mono) simp
  moreover have "\<forall>e \<in> set es. max now s \<le> rl_time e" using assms(6) by auto
  ultimately have "real (count_where (\<lambda>(a, u). a = ip \<and> u \<le> t) (rl_admitted rate B es vs))
      \<le> avail rate B vs ip (max now s) + seconds (t - max now s) * rate"
    using assms(2-5) True by (intro admitted_bound) auto
  moreover have "seconds (t - max now s) * rate \<le> seconds (t - s) * rate"
    using assms(2) by (intro mult_right_mono seconds_mono) auto
  moreover have "count_where (\<lambda>(a, u). a = ip \<and> s \<le> u \<and> u \<le> t) (rl_admitted rate B es vs) =
      count_where (\<lambda>(a, u). a = ip \<and> u \<le> t) (rl_admitted rate B es vs)"
    using assms(6) by (intro count_where_cong) (fastforce dest: admitted_times)
  ultimately show ?thesis using avail_le [of rate B vs ip "max now s"] by simp
next
  case False
  with assms(6) have "count_where (\<lambda>(a, u). a = ip \<and> s \<le> u \<and> u \<le> t) (rl_admitted rate B es vs) = 0"
    by (force simp: count_where_zero dest!: admitted_times)
  moreover have "0 \<le> seconds (t - s) * rate" using assms(2,7) by (simp add: seconds_nonneg)
  ultimately show ?thesis using assms(3) by simp
qed

lemma admitted_window:
  assumes "visitors_ok B now vs" and "0 \<le> rate" and "0 \<le> B" and "of_int B \<le> 60 * rate"
    and "sorted (map rl_time es)" and "\<forall>e \<in> set es. now \<le> rl_time e" and "s \<le> t"
  shows "real (count_where (\<lambda>(a, u). a = ip \<and> s \<le> u \<and> u \<le> t) (rl_admitted rate B es vs))
    \<le> of_int B + seconds (t - s) * rate"
  using assms(1,5,6)
proof (induction es arbitrary: now vs)
  case Nil
  then show ?case using admitted_late [OF Nil(1) assms(2-4) _ _ assms(7), of "[]"] by simp
next
  case (Cons e es)
  obtain u where u: "rl_time e = u" by simp
  have nu: "now \<le> u" and rest: "\<forall>x \<in> set es. u \<le> rl_time x" and sorted: "sorted (map rl_time es)"
    using Cons.prems u by auto
  show ?case
  proof (cases "s \<le> u")
    case True
    have "\<forall>x \<in> set (e # es). now \<le> rl_time x \<and> s \<le> rl_time x" using Cons.prems True rest u by fastforce
    then show ?thesis by (rule admitted_late [OF Cons.prems(1) assms(2-4) Cons.prems(2) _ assms(7)])
  next
    case False
    show ?thesis
    proof (cases e)
      case (Sweep x)
      with u Cons.IH [OF cleanup_ok [OF Cons.prems(1) nu] sorted rest] show ?thesis by simp
    next
      case (Request ip' x)
      with u Cons.IH [OF RateLimit_ok [OF Cons.prems(1) assms(2,3) nu] sorted rest, of ip'] False show ?thesis
        by simp
    qed
  qed
qed

text \<open>C22: the rate limit. In any history of requests and cleanup rounds on a clock that does not go back, the number of
  requests of one address that are let through in any window of time is at most the burst plus the
  rate times the length of the window, provided a minute refills the bucket (so that the cleanup gives nothing away), as with
  the server's 10 per second and burst of 20.\<close>

theorem RateLimit_bound:
  assumes "0 \<le> rate" and "0 \<le> maxBurst" and "of_int maxBurst \<le> 60 * rate"
    and "sorted (map rl_time es)" and "s \<le> t"
  shows "real (count_where (\<lambda>(a, u). a = ip \<and> s \<le> u \<and> u \<le> t) (rl_admitted rate maxBurst es (\<lambda>_. None)))
    \<le> of_int maxBurst + seconds (t - s) * rate"
proof (cases es)
  case Nil
  then show ?thesis using assms by (simp add: seconds_nonneg)
next
  case (Cons e es')
  have "visitors_ok maxBurst (rl_time e) (\<lambda>_. None)" by (simp add: visitors_ok_def)
  moreover have "\<forall>x \<in> set es. rl_time e \<le> rl_time x" using assms(4) Cons by auto
  ultimately show ?thesis using assms by (intro admitted_window) auto
qed

lemma RateLimit_bound_witness:
  "real (count_where (\<lambda>(a, u). a = ''1.2.3.4'' \<and> 0 \<le> u \<and> u \<le> 1000000000)
     (rl_admitted 10 20 (replicate 100 (Request ''1.2.3.4'' 5)) (\<lambda>_. None))) \<le> 30"
  using RateLimit_bound [of 10 20 "replicate 100 (Request ''1.2.3.4'' 5)" 0 1000000000 "''1.2.3.4''"]
  by (simp add: seconds_def sorted_replicate)

section \<open>The cleanup goroutine\<close>

lemma avail_upd:
  "avail rate B (vs(ip \<mapsto> v)) ip' t =
   (if ip' = ip then min (of_int B) (tokens v + seconds (t - lastSeen v) * rate) else avail rate B vs ip' t)"
  by (simp add: avail_def)

lemma admitted_without_sweeps:
  assumes "0 \<le> rate" and "0 \<le> B" and "of_int B \<le> 60 * rate" and "sorted (map rl_time es)"
    and "\<forall>e \<in> set es. now \<le> rl_time e" and "visitors_ok B now vs" and "visitors_ok B now vs'"
    and "\<And>ip t. now \<le> t \<Longrightarrow> avail rate B vs ip t = avail rate B vs' ip t"
  shows "rl_admitted rate B es vs = rl_admitted rate B (filter (\<lambda>e. \<not> is_sweep e) es) vs'"
  using assms(4-8)
proof (induction es arbitrary: now vs vs')
  case (Cons e es)
  obtain u where u: "rl_time e = u" by simp
  have nu: "now \<le> u" and rest: "\<forall>x \<in> set es. u \<le> rl_time x" and sorted: "sorted (map rl_time es)"
    using Cons.prems u by auto
  show ?case
  proof (cases e)
    case (Sweep x)
    then have e: "e = Sweep u" using u by simp
    have "avail rate B (RateLimit_cleanup u vs) ip t = avail rate B vs' ip t" if "u \<le> t" for ip t
      using cleanup_avail [OF Cons.prems(3) assms(1,3) nu that] Cons.prems(5) nu that by simp
    from Cons.IH [OF sorted rest cleanup_ok [OF Cons.prems(3) nu] visitors_ok_mono [OF Cons.prems(4) nu] this]
    show ?thesis by (simp add: e)
  next
    case (Request ip x)
    then have e: "e = Request ip u" using u by simp
    have a: "avail rate B vs ip u = avail rate B vs' ip u" using Cons.prems(5) nu by simp
    have "avail rate B (snd (RateLimit rate B ip u vs)) ip' t = avail rate B (snd (RateLimit rate B ip u vs')) ip' t"
      if "u \<le> t" for ip' t
      using Cons.prems(5) [of t ip'] nu that by (simp add: RateLimit_eq a Let_def avail_upd)
    from Cons.IH [OF sorted rest RateLimit_ok [OF Cons.prems(3) assms(1,2) nu] RateLimit_ok [OF Cons.prems(4) assms(1,2) nu] this]
    moreover have "fst (RateLimit rate B ip u vs) = fst (RateLimit rate B ip u vs')" by (simp add: RateLimit_eq a Let_def)
    ultimately show ?thesis by (simp only: e filter.simps is_sweep.simps not_False_eq_True if_True rl_admitted.simps)
  qed
qed simp

text \<open>C23: the cleanup goroutine is only an optimisation: with a bucket that a minute refills, the same requests are let
  through as without it.\<close>

theorem RateLimit_cleanup_transparent:
  assumes "0 \<le> rate" and "0 \<le> maxBurst" and "of_int maxBurst \<le> 60 * rate" and "sorted (map rl_time es)"
  shows "rl_admitted rate maxBurst es (\<lambda>_. None) =
    rl_admitted rate maxBurst (filter (\<lambda>e. \<not> is_sweep e) es) (\<lambda>_. None)"
proof (cases es)
  case (Cons e es')
  have "visitors_ok maxBurst (rl_time e) (\<lambda>_. None)" by (simp add: visitors_ok_def)
  moreover have "\<forall>x \<in> set es. rl_time e \<le> rl_time x" using assms(4) Cons by auto
  ultimately show ?thesis using assms by (intro admitted_without_sweeps) auto
qed simp

lemma RateLimit_cleanup_transparent_witness:
  "rl_admitted 10 20 [Request ''a'' 0, Sweep 70000000000, Request ''a'' 80000000000] (\<lambda>_. None) =
   rl_admitted 10 20 [Request ''a'' 0, Request ''a'' 80000000000] (\<lambda>_. None)"
  using RateLimit_cleanup_transparent [of 10 20 "[Request ''a'' 0, Sweep 70000000000, Request ''a'' 80000000000]"] by simp

section \<open>AntiSpam\<close>

type_synonym last_actions = "string \<Rightarrow> instant option"

text \<open>A request without a user passes; the answer \<open>False\<close> is the 429.\<close>

definition AntiSpam :: "int \<Rightarrow> string \<Rightarrow> instant \<Rightarrow> last_actions \<Rightarrow> bool \<times> last_actions" where
  "AntiSpam cooldown userID now lastAction =
     (if userID = [] then (True, lastAction)
      else (case lastAction userID of
              None \<Rightarrow> (True, lastAction(userID \<mapsto> now))
            | Some t \<Rightarrow> if now - t < cooldown then (False, lastAction)
                        else (True, lastAction(userID \<mapsto> now))))"

definition AntiSpam_cleanup :: "int \<Rightarrow> instant \<Rightarrow> last_actions \<Rightarrow> last_actions" where
  "AntiSpam_cleanup cooldown now lastAction =
     (\<lambda>u. case lastAction u of None \<Rightarrow> None | Some t \<Rightarrow> if now - t > cooldown * 2 then None else Some t)"

fun as_accepted :: "int \<Rightarrow> rl_event list \<Rightarrow> last_actions \<Rightarrow> (string \<times> instant) list" where
  "as_accepted cooldown [] la = []"
| "as_accepted cooldown (Sweep t # es) la = as_accepted cooldown es (AntiSpam_cleanup cooldown t la)"
| "as_accepted cooldown (Request u t # es) la =
     (if fst (AntiSpam cooldown u t la) then [(u, t)] else []) @ as_accepted cooldown es (snd (AntiSpam cooldown u t la))"

definition actions_of :: "string \<Rightarrow> (string \<times> instant) list \<Rightarrow> instant list" where
  "actions_of u xs = map snd (filter (\<lambda>(a, t). a = u) xs)"

lemma actions_of_simps [simp]:
  "actions_of u [] = []" "actions_of u ((a, t) # xs) = (if a = u then t # actions_of u xs else actions_of u xs)"
  "actions_of u (xs @ ys) = actions_of u xs @ actions_of u ys"
  by (simp_all add: actions_of_def)

lemma as_times: "t \<in> set (actions_of u (as_accepted c es la)) \<Longrightarrow> \<exists>e \<in> set es. rl_time e = t"
  by (induction c es la rule: as_accepted.induct) (auto split: if_splits)

text \<open>The next accepted action of a user is at least a cool-down after the last one, cleanup rounds in between or not:
  an entry is forgotten only when it is older than two cool-downs.\<close>

lemma as_next:
  assumes "0 \<le> c" and "sorted (map rl_time es)" and "la u = Some t0" and "u \<noteq> []"
    and "t \<in> set (actions_of u (as_accepted c es la))"
  shows "t0 + c \<le> t"
  using assms
proof (induction c es la rule: as_accepted.induct)
  case (2 c s es la)
  show ?case
  proof (cases "s - t0 > c * 2")
    case True
    from 2(6) obtain e where "e \<in> set es" "rl_time e = t" using as_times by fastforce
    with 2(2,3) True show ?thesis by fastforce
  next
    case False
    with 2 show ?thesis by (simp add: AntiSpam_cleanup_def)
  qed
next
  case (3 c v s es la)
  show ?case
  proof (cases "v = u \<and> c \<le> s - t0")
    case True
    from 3(6) obtain e where "e \<in> set (Request v s # es)" "rl_time e = t" using as_times by blast
    with 3(3) True show ?thesis by fastforce
  next
    case False
    then have "snd (AntiSpam c v s la) u = Some t0" "v = u \<Longrightarrow> \<not> fst (AntiSpam c v s la)"
      using 3(4,5) by (auto simp: AntiSpam_def split: option.splits)
    with 3 show ?thesis by (auto split: if_splits)
  qed
qed simp

text \<open>C24: the cool-down. In any history of requests and cleanup rounds on a clock that does not go back, two accepted
  actions of the same user are at least the cool-down apart; and an action is turned away only while the
  user's last accepted action, still remembered, is less than the cool-down ago.\<close>

theorem AntiSpam_cooldown:
  assumes "0 \<le> cooldown" and "sorted (map rl_time es)" and "userID \<noteq> []"
  shows "sorted_wrt (\<lambda>a b. a + cooldown \<le> b) (actions_of userID (as_accepted cooldown es la)) \<and>
    (\<not> fst (AntiSpam cooldown userID now la) \<longrightarrow> (\<exists>t. la userID = Some t \<and> now - t < cooldown))"
proof
  show "sorted_wrt (\<lambda>a b. a + cooldown \<le> b) (actions_of userID (as_accepted cooldown es la))"
    using assms
  proof (induction cooldown es la rule: as_accepted.induct)
    case (3 c v s es la)
    then have IH: "sorted_wrt (\<lambda>a b. a + c \<le> b) (actions_of userID (as_accepted c es (snd (AntiSpam c v s la))))"
      by simp
    show ?case
    proof (cases "fst (AntiSpam c v s la) \<and> v = userID")
      case True
      then have "snd (AntiSpam c v s la) userID = Some s"
        using 3(4) by (auto simp: AntiSpam_def split: option.splits if_splits)
      with as_next [of c es "snd (AntiSpam c v s la)" userID s] 3(2-4) IH True show ?thesis by simp
    next
      case False
      with IH show ?thesis by auto
    qed
  qed simp_all
  show "\<not> fst (AntiSpam cooldown userID now la) \<longrightarrow> (\<exists>t. la userID = Some t \<and> now - t < cooldown)"
    by (auto simp: AntiSpam_def split: option.splits if_splits)
qed

lemma AntiSpam_cooldown_witness:
  "sorted_wrt (\<lambda>a b. a + 5 \<le> b) (actions_of ''u'' (as_accepted 5 [Request ''u'' 0, Request ''u'' 3, Sweep 4, Request ''u'' 6] (\<lambda>_. None)))
   \<and> actions_of ''u'' (as_accepted 5 [Request ''u'' 0, Request ''u'' 3, Sweep 4, Request ''u'' 6] (\<lambda>_. None)) = [0, 6]"
  using AntiSpam_cooldown [of 5 "[Request ''u'' 0, Request ''u'' 3, Sweep 4, Request ''u'' 6]" "''u''" "\<lambda>_. None" 0]
  by (simp add: AntiSpam_def AntiSpam_cleanup_def)

end
