(* ===== verification/Server.thy ===== *)
theory Server
  imports Handlers Rate_Limit Config
begin

text \<open>
  \<open>backend/cmd/server/main.go\<close>: the routing table, the middleware stack and the process as a whole. The router \<open>chi\<close> is known
  by its documented patterns: a literal segment, or a placeholder for one segment. The remote address of a request is the one
  \<open>RealIP\<close> left; a CORS preflight request is answered before the limiter and the routes, changes nothing and is left out. The request timeout
  cancels the context, so that the remaining statements fail, which the fates in \<open>t_links\<close> cover. The two middlewares
  that \<open>main\<close> names and the repository does not contain are left out.
\<close>

section \<open>The WebSocket endpoint\<close>

text \<open>The user that \<open>/ws\<close> finds in the query; an invalid token counts as none.\<close>

definition ws_user :: "backend \<Rightarrow> env \<Rightarrow> http_request \<Rightarrow> string" where
  "ws_user bk env r =
     (let token = rq_query r ''token'' in
      if token = [] then []
      else (case AuthService_ValidateToken (bk_lib bk) (bk_auth bk) (go_now env) token of Inl e \<Rightarrow> [] | Inr uid \<Rightarrow> uid))"

text \<open>
  The answer of \<open>upgrader.Upgrade\<close>: the protocol switches, or the upgrader has written a plain 400 or 500. The hub never learns the
  user. \<open>Register\<close> comes after the answer and waits for the hub's lock: it is a step of its own below.
\<close>

definition ws_handler :: "backend \<Rightarrow> env \<Rightarrow> handler" where
  "ws_handler bk env r a =
     (let userID = ws_user bk env r in
      (Wrote (case bk_upgrade bk r of
         Upgraded \<Rightarrow> \<lparr>hr_status = 101, hr_body = PlainText []\<rparr>
       | Bad_handshake \<Rightarrow> \<lparr>hr_status = 400, hr_body = PlainText ''Bad Request''\<rparr>
       | No_hijack \<Rightarrow> \<lparr>hr_status = 500, hr_body = PlainText ''Internal Server Error''\<rparr>), a))"

section \<open>Routing\<close>

datatype segment = Lit string | Param string

text \<open>The last segment of a path must not be empty where a placeholder stands.\<close>

fun match_path :: "segment list \<Rightarrow> string list \<Rightarrow> (string \<times> string) list option" where
  "match_path [] [] = Some []"
| "match_path (Lit s # ps) (x # xs) = (if s = x then match_path ps xs else None)"
| "match_path (Param n # ps) (x # xs) =
     (if x = [] \<and> xs = [] then None else map_option (Cons (n, x)) (match_path ps xs))"
| "match_path _ _ = None"

text \<open>Which middlewares a route has beside the global ones.\<close>

datatype guard = Public | Optional_auth | Authenticated | Authenticated_spam

record route =
  rt_method :: string
  rt_pattern :: "segment list"
  rt_guard :: guard
  rt_handler :: handler

definition api :: "segment list \<Rightarrow> segment list" where
  "api ps = Lit ''api'' # Lit ''v1'' # ps"

definition mk :: "string \<Rightarrow> segment list \<Rightarrow> guard \<Rightarrow> handler \<Rightarrow> route" where
  "mk m ps g h = \<lparr>rt_method = m, rt_pattern = api ps, rt_guard = g, rt_handler = h\<rparr>"

definition public_routes :: "backend \<Rightarrow> env \<Rightarrow> route list" where
  "public_routes bk env =
    [mk ''GET'' [Lit ''health''] Public HealthCheck,
     mk ''POST'' [Lit ''auth'', Lit ''register''] Public (AuthHandler_Register bk env),
     mk ''POST'' [Lit ''auth'', Lit ''login''] Public (AuthHandler_Login bk env),
     mk ''GET'' [Lit ''messages'', Lit ''nearby''] Optional_auth (MessageHandler_GetNearby bk env),
     mk ''GET'' [Lit ''heatmap''] Optional_auth (MessageHandler_GetHeatmap env),
     mk ''GET'' [Lit ''leaderboard''] Optional_auth (MessageHandler_GetLeaderboard env),
     mk ''GET'' [Lit ''events''] Optional_auth (MessageHandler_DetectEvents env),
     mk ''GET'' [Lit ''search''] Public (SearchHandler_Search env),
     mk ''GET'' [Lit ''search'', Lit ''hashtags'', Lit ''popular''] Public (SearchHandler_PopularHashtags env),
     mk ''GET'' [Lit ''users'', Param ''id'', Lit ''messages''] Public (MessageHandler_GetByUser env),
     mk ''GET'' [Lit ''users'', Param ''id'', Lit ''profile''] Public (GamificationHandler_GetUserProfile env),
     mk ''GET'' [Lit ''messages'', Param ''id'', Lit ''comments''] Public (InteractionHandler_GetComments env),
     \<lparr>rt_method = ''GET'', rt_pattern = [Lit ''ws''], rt_guard = Public, rt_handler = ws_handler bk env\<rparr>]"

definition private_routes :: "backend \<Rightarrow> env \<Rightarrow> route list" where
  "private_routes bk env =
    [mk ''GET'' [Lit ''auth'', Lit ''me''] Authenticated (AuthHandler_Me env),
     mk ''GET'' [Lit ''me'', Lit ''profile''] Authenticated (GamificationHandler_GetMyProfile env),
     mk ''POST'' [Lit ''messages''] Authenticated_spam (MessageHandler_Create bk env),
     mk ''DELETE'' [Lit ''messages'', Param ''id''] Authenticated (MessageHandler_Delete env),
     mk ''POST'' [Lit ''messages'', Param ''id'', Lit ''unlock''] Authenticated (MessageHandler_UnlockMystery bk env),
     mk ''POST'' [Lit ''messages'', Param ''id'', Lit ''like''] Authenticated (InteractionHandler_ToggleLike env),
     mk ''POST'' [Lit ''messages'', Param ''id'', Lit ''react''] Authenticated (InteractionHandler_ToggleReaction bk env),
     mk ''POST'' [Lit ''messages'', Param ''id'', Lit ''comments''] Authenticated (InteractionHandler_AddComment bk env),
     mk ''POST'' [Lit ''messages'', Param ''id'', Lit ''report''] Authenticated (InteractionHandler_ReportMessage bk env),
     mk ''DELETE'' [Lit ''comments'', Param ''commentId''] Authenticated (InteractionHandler_DeleteComment env)]"

definition routes :: "backend \<Rightarrow> env \<Rightarrow> route list" where
  "routes bk env = public_routes bk env @ private_routes bk env"

definition route_params :: "route \<Rightarrow> http_request \<Rightarrow> (string \<times> string) list option" where
  "route_params rt r = (if rt_method rt = rq_method r then match_path (rt_pattern rt) (rq_path r) else None)"

definition find_route :: "route list \<Rightarrow> http_request \<Rightarrow> (route \<times> (string \<times> string) list) option" where
  "find_route rts r =
     (case filter (\<lambda>rt. route_params rt r \<noteq> None) rts of
        [] \<Rightarrow> None
      | rt # _ \<Rightarrow> map_option (Pair rt) (route_params rt r))"

text \<open>Without a route: 405 for a method \<open>chi\<close> does not know or a path that has other methods, 404 otherwise.\<close>

definition chi_methods :: "string list" where
  "chi_methods = [''CONNECT'', ''DELETE'', ''GET'', ''HEAD'', ''OPTIONS'', ''PATCH'', ''POST'', ''PUT'', ''TRACE'']"

definition no_route :: "route list \<Rightarrow> http_request \<Rightarrow> http_response" where
  "no_route rts r =
     (if rq_method r \<notin> set chi_methods \<or> (\<exists>rt \<in> set rts. match_path (rt_pattern rt) (rq_path r) \<noteq> None)
      then \<lparr>hr_status = 405, hr_body = PlainText []\<rparr>
      else \<lparr>hr_status = 404, hr_body = PlainText ''404 page not found''\<rparr>)"

section \<open>The middleware stack\<close>

record server =
  sv_app :: app
  sv_visitors :: visitors
  sv_lastAction :: last_actions
  sv_clock :: instant

definition cooldown_ns :: int where
  "cooldown_ns = 5 * second_ns"

definition rate_limited :: http_response where
  "rate_limited = WriteError 429 ''RATE_LIMIT'' ''Trop de requetes''"

definition spam_limited :: http_response where
  "spam_limited = WriteError 429 ''SPAM_LIMIT'' ''Attendez avant de poster a nouveau''"

fun auth_response :: "auth_error \<Rightarrow> http_response" where
  "auth_response (AuthError code message) = WriteError 401 code message"

definition call_handler :: "handler \<Rightarrow> http_request \<Rightarrow> server \<Rightarrow> outcome \<times> server" where
  "call_handler h r sv = (case h r (sv_app sv) of (out, a) \<Rightarrow> (out, sv\<lparr>sv_app := a\<rparr>))"

fun run_guard :: "backend \<Rightarrow> env \<Rightarrow> guard \<Rightarrow> handler \<Rightarrow> http_request \<Rightarrow> server \<Rightarrow> outcome \<times> server" where
  "run_guard bk env Public h r sv = call_handler h r sv"
| "run_guard bk env Optional_auth h r sv =
     call_handler h (r\<lparr>rq_user := OptionalAuth (bk_lib bk) (bk_auth bk) (go_now env) (rq_authorization r)\<rparr>) sv"
| "run_guard bk env Authenticated h r sv =
     (case middleware_Auth (bk_lib bk) (bk_auth bk) (go_now env) (rq_authorization r) of
        Inl e \<Rightarrow> (Wrote (auth_response e), sv)
      | Inr ctx \<Rightarrow> call_handler h (r\<lparr>rq_user := ctx\<rparr>) sv)"
| "run_guard bk env Authenticated_spam h r sv =
     (case middleware_Auth (bk_lib bk) (bk_auth bk) (go_now env) (rq_authorization r) of
        Inl e \<Rightarrow> (Wrote (auth_response e), sv)
      | Inr ctx \<Rightarrow>
          (case AntiSpam cooldown_ns (GetUserID ctx) (go_now env) (sv_lastAction sv) of
             (False, la) \<Rightarrow> (Wrote spam_limited, sv\<lparr>sv_lastAction := la\<rparr>)
           | (True, la) \<Rightarrow> call_handler h (r\<lparr>rq_user := ctx\<rparr>) (sv\<lparr>sv_lastAction := la\<rparr>)))"

definition dispatch :: "backend \<Rightarrow> env \<Rightarrow> http_request \<Rightarrow> server \<Rightarrow> outcome \<times> server" where
  "dispatch bk env r sv =
     (case find_route (routes bk env) r of
        None \<Rightarrow> (Wrote (no_route (routes bk env) r), sv)
      | Some (rt, ps) \<Rightarrow>
          run_guard bk env (rt_guard rt) (rt_handler rt)
            (r\<lparr>rq_params := (\<lambda>n. case map_of ps n of Some v \<Rightarrow> v | None \<Rightarrow> []), rq_user := None\<rparr>) sv)"

text \<open>The \<open>Recoverer\<close> answers a panic with an empty 500.\<close>

definition recovered :: "outcome \<Rightarrow> http_response" where
  "recovered out = (case out of Wrote resp \<Rightarrow> resp | Panicked s \<Rightarrow> \<lparr>hr_status = 500, hr_body = PlainText []\<rparr>)"

definition serve :: "backend \<Rightarrow> env \<Rightarrow> http_request \<Rightarrow> server \<Rightarrow> http_response \<times> server" where
  "serve bk env r sv0 =
     (let sv = sv0\<lparr>sv_clock := go_now env\<rparr> in
      case RateLimit 10 20 (rq_remoteAddr r) (go_now env) (sv_visitors sv) of
        (False, vs) \<Rightarrow> (rate_limited, sv\<lparr>sv_visitors := vs\<rparr>)
      | (True, vs) \<Rightarrow>
          (case dispatch bk env r (sv\<lparr>sv_visitors := vs\<rparr>) of (out, sv') \<Rightarrow> (recovered out, sv')))"

section \<open>The routing table\<close>

lemma ws_handler_envelope: "envelope_ok (fst (ws_handler bk env r a))" "snd (ws_handler bk env r a) = a"
  by (simp_all add: ws_handler_def envelope_ok_def answers_with_def Let_def split: upgrade.splits)

lemma routes_envelope:
  assumes "rt \<in> set (routes bk env)"
  shows "envelope_ok (fst (rt_handler rt r a))"
  using assms
  by (auto simp: routes_def public_routes_def private_routes_def mk_def AuthHandler_Register_def AuthHandler_Login_def
      MessageHandler_GetNearby_def MessageHandler_GetHeatmap_def MessageHandler_GetLeaderboard_def MessageHandler_DetectEvents_def
      MessageHandler_GetByUser_def InteractionHandler_GetComments_def GamificationHandler_GetUserProfile_def
      SearchHandler_Search_def SearchHandler_PopularHashtags_def HealthCheck_def ws_handler_envelope
      AuthHandler_Me_def GamificationHandler_GetMyProfile_def MessageHandler_Create_def MessageHandler_Delete_def
      MessageHandler_UnlockMystery_def InteractionHandler_ToggleLike_def InteractionHandler_ToggleReaction_def
      InteractionHandler_AddComment_def InteractionHandler_ReportMessage_def InteractionHandler_DeleteComment_def Let_def
      write_ok split: option.splits prod.splits
      intro!: with_request_envelope respond_envelope)

lemma routes_keep_app:
  assumes "rt \<in> set (routes bk env)" and "app_ok a"
  shows "app_ok (snd (rt_handler rt r a))"
  using assms public_handlers_inv [OF assms(2)] private_handlers_inv [OF assms(2)] ws_handler_envelope(2)
  unfolding routes_def public_routes_def private_routes_def mk_def by auto

lemma find_route_Some:
  assumes "find_route rts r = Some (rt, ps)"
  shows "rt \<in> set rts \<and> rt_method rt = rq_method r \<and> match_path (rt_pattern rt) (rq_path r) = Some ps"
proof -
  from assms obtain rest where f: "filter (\<lambda>rt. route_params rt r \<noteq> None) rts = rt # rest" and "route_params rt r = Some ps"
    by (auto simp: find_route_def split: list.splits)
  moreover from f have "rt \<in> set rts" by (metis filter_is_subset list.set_intros(1) subsetD)
  ultimately show ?thesis by (auto simp: route_params_def split: if_splits)
qed

text \<open>Two patterns that some path matches both.\<close>

fun overlap :: "segment list \<Rightarrow> segment list \<Rightarrow> bool" where
  "overlap [] [] = True"
| "overlap (Lit s # ps) (Lit t # qs) = (s = t \<and> overlap ps qs)"
| "overlap (_ # ps) (_ # qs) = overlap ps qs"
| "overlap _ _ = False"

lemma match_both: "match_path ps xs \<noteq> None \<Longrightarrow> match_path qs xs \<noteq> None \<Longrightarrow> overlap ps qs"
proof (induction ps xs arbitrary: qs rule: match_path.induct)
  case (2 s ps x xs)
  then show ?case by (cases qs rule: list.exhaust; cases "hd qs") (auto split: if_splits)
next
  case (3 n ps x xs)
  then show ?case by (cases qs rule: list.exhaust; cases "hd qs") (auto split: if_splits)
next
  case 1
  then show ?case by (cases qs) auto
qed auto

definition route_table :: "(string \<times> segment list) list" where
  "route_table =
    [(''GET'', api [Lit ''health'']), (''POST'', api [Lit ''auth'', Lit ''register'']), (''POST'', api [Lit ''auth'', Lit ''login'']),
     (''GET'', api [Lit ''messages'', Lit ''nearby'']), (''GET'', api [Lit ''heatmap'']), (''GET'', api [Lit ''leaderboard'']),
     (''GET'', api [Lit ''events'']), (''GET'', api [Lit ''search'']),
     (''GET'', api [Lit ''search'', Lit ''hashtags'', Lit ''popular'']), (''GET'', api [Lit ''users'', Param ''id'', Lit ''messages'']),
     (''GET'', api [Lit ''users'', Param ''id'', Lit ''profile'']), (''GET'', api [Lit ''messages'', Param ''id'', Lit ''comments'']),
     (''GET'', [Lit ''ws'']),
     (''GET'', api [Lit ''auth'', Lit ''me'']), (''GET'', api [Lit ''me'', Lit ''profile'']), (''POST'', api [Lit ''messages'']),
     (''DELETE'', api [Lit ''messages'', Param ''id'']), (''POST'', api [Lit ''messages'', Param ''id'', Lit ''unlock'']),
     (''POST'', api [Lit ''messages'', Param ''id'', Lit ''like'']), (''POST'', api [Lit ''messages'', Param ''id'', Lit ''react'']),
     (''POST'', api [Lit ''messages'', Param ''id'', Lit ''comments'']), (''POST'', api [Lit ''messages'', Param ''id'', Lit ''report'']),
     (''DELETE'', api [Lit ''comments'', Param ''commentId''])]"

lemma route_table_eq: "map (\<lambda>rt. (rt_method rt, rt_pattern rt)) (routes bk env) = route_table"
  by (simp add: routes_def public_routes_def private_routes_def mk_def route_table_def)

lemma route_table_disjoint: "sorted_wrt (\<lambda>(m, ps) (n, qs). m = n \<longrightarrow> \<not> overlap ps qs) route_table"
  by code_simp

lemma one_match:
  assumes "sorted_wrt (\<lambda>a b. \<not> (P a \<and> P b)) xs" and "x \<in> set xs" and "P x"
  shows "filter P xs = [x]"
  using assms
proof (induction xs)
  case (Cons y ys)
  show ?case
  proof (cases "P y")
    case True
    with Cons.prems have "filter P ys = []" by (auto simp: filter_empty_conv)
    with True Cons.prems show ?thesis by (auto simp: filter_empty_conv)
  qed (use Cons in auto)
qed simp

text \<open>C39: the routing table is unambiguous: a request is dispatched to a route exactly when the route's method is the request's
  and its pattern matches the path, whatever the order of the table.\<close>

theorem find_route_iff:
  "find_route (routes bk env) r = Some (rt, ps) \<longleftrightarrow>
     rt \<in> set (routes bk env) \<and> rt_method rt = rq_method r \<and> match_path (rt_pattern rt) (rq_path r) = Some ps"
proof
  assume rt: "rt \<in> set (routes bk env) \<and> rt_method rt = rq_method r \<and> match_path (rt_pattern rt) (rq_path r) = Some ps"
  then have ok: "route_params rt r = Some ps" by (simp add: route_params_def)
  have "sorted_wrt (\<lambda>a b. rt_method a = rt_method b \<longrightarrow> \<not> overlap (rt_pattern a) (rt_pattern b)) (routes bk env)"
    using route_table_disjoint unfolding route_table_eq [symmetric, of bk env] sorted_wrt_map by simp
  then have "sorted_wrt (\<lambda>a b. \<not> (route_params a r \<noteq> None \<and> route_params b r \<noteq> None)) (routes bk env)"
    by (rule sorted_wrt_mono_rel [rotated]) (auto simp: route_params_def dest: match_both split: if_splits)
  then have "filter (\<lambda>rt. route_params rt r \<noteq> None) (routes bk env) = [rt]" by (rule one_match) (use rt ok in simp_all)
  with ok show "find_route (routes bk env) r = Some (rt, ps)" unfolding find_route_def by simp
qed (rule find_route_Some)

section \<open>The process\<close>

text \<open>
  The steps of the process: a request, a WebSocket connection (which takes the hub's write lock, so no broadcast is under way), a step
  of the hub's goroutines, a round of either cleanup goroutine, and what happens outside of it: the fate of the next database
  round trips and any change of the cache server. The clock does not go back. A request is one step; how requests
  interleave inside is modelled for the hub here, and for likes, reports and cached feeds in theories of their own.
\<close>

inductive background_step :: "server \<Rightarrow> server \<Rightarrow> bool" where
  hub: "hub_step (a_hub (sv_app sv)) h \<Longrightarrow> background_step sv (sv\<lparr>sv_app := (sv_app sv)\<lparr>a_hub := h\<rparr>\<rparr>)"
| sweep_visitors: "sv_clock sv \<le> t \<Longrightarrow>
    background_step sv (sv\<lparr>sv_clock := t, sv_visitors := RateLimit_cleanup t (sv_visitors sv)\<rparr>)"
| sweep_actions: "sv_clock sv \<le> t \<Longrightarrow>
    background_step sv (sv\<lparr>sv_clock := t, sv_lastAction := AntiSpam_cleanup cooldown_ns t (sv_lastAction sv)\<rparr>)"
| network: "background_step sv (sv\<lparr>sv_app := (sv_app sv)\<lparr>a_db := (a_db (sv_app sv))\<lparr>t_links := ls\<rparr>\<rparr>\<rparr>)"
| redis: "background_step sv (sv\<lparr>sv_app := (sv_app sv)\<lparr>a_cache := c\<rparr>\<rparr>)"

inductive server_step :: "backend \<Rightarrow> server \<Rightarrow> server \<Rightarrow> bool" for bk where
  request: "sv_clock sv \<le> go_now env \<Longrightarrow> server_step bk sv (snd (serve bk env r sv))"
| connect: "sv_clock sv \<le> go_now env \<Longrightarrow> serve bk env r sv = (resp, sv') \<Longrightarrow> hr_status resp = 101 \<Longrightarrow>
    h_active (a_hub (sv_app sv')) = [] \<Longrightarrow> h_conns (a_hub (sv_app sv')) c = None \<Longrightarrow>
    server_step bk sv (sv'\<lparr>sv_app := (sv_app sv')\<lparr>a_hub := ServeWS c (a_hub (sv_app sv'))\<rparr>\<rparr>)"
| background: "background_step sv sv' \<Longrightarrow> server_step bk sv sv'"

inductive_cases server_stepE: "server_step bk sv sv'"

text \<open>
  The start of \<open>main\<close>. The services are built from the configuration and the libraries; \<open>pool_ok\<close> says whether
  \<open>pgxpool.New\<close> accepts the URL, and \<open>None\<close> is the exit of \<open>log.Fatalf\<close>.
\<close>

definition main_backend :: "Config \<Rightarrow> backend \<Rightarrow> backend" where
  "main_backend cfg libs =
     libs\<lparr>bk_auth := NewAuthService (cfg_JWTSecret cfg) (cfg_JWTExpiry cfg), bk_msg := NewMessageService True True\<rparr>"

definition server_start :: "db \<Rightarrow> RedisCache \<Rightarrow> instant \<Rightarrow> server" where
  "server_start d c t = \<lparr>sv_app = \<lparr>a_db = d, a_cache = c, a_hub = NewHub\<rparr>, sv_visitors = (\<lambda>_. None), sv_lastAction = (\<lambda>_. None),
     sv_clock = t\<rparr>"

definition main_start :: "Config \<Rightarrow> bool \<Rightarrow> db \<Rightarrow> redis \<Rightarrow> instant \<Rightarrow> server option" where
  "main_start cfg pool_ok d r t =
     (if \<not> pool_ok then None
      else (case pool_Ping d of
              (Inl e, _) \<Rightarrow> None
            | (Inr _, d') \<Rightarrow> Some (server_start d' (NewRedisCache r (cfg_CacheTTL cfg)) t)))"

definition server_begins :: "server \<Rightarrow> bool" where
  "server_begins sv \<longleftrightarrow> (\<exists>cfg pool_ok d r t. db_ok d \<and> main_start cfg pool_ok d r t = Some sv)"

abbreviation server_reachable :: "backend \<Rightarrow> server \<Rightarrow> bool" where
  "server_reachable bk \<equiv> reachable server_begins (server_step bk)"

lemma server_reachable_start: "db_ok d \<Longrightarrow> main_start cfg pool_ok d r t = Some sv \<Longrightarrow> server_reachable bk sv"
  by (rule reachable.start) (unfold server_begins_def, blast)

lemmas server_reachable_step = reachable.step [where step = "server_step bk" for bk]

definition server_ok :: "server \<Rightarrow> bool" where
  "server_ok sv \<longleftrightarrow> app_ok (sv_app sv) \<and> visitors_ok 20 (sv_clock sv) (sv_visitors sv)"

lemma call_handler_app [simp]: "sv_app (snd (call_handler h r sv)) = snd (h r (sv_app sv))"
  "sv_visitors (snd (call_handler h r sv)) = sv_visitors sv" "sv_clock (snd (call_handler h r sv)) = sv_clock sv"
  "fst (call_handler h r sv) = fst (h r (sv_app sv))"
  by (simp_all add: call_handler_def split: prod.splits)

text \<open>A guard answers by itself and leaves the application alone, or calls the handler once.\<close>

lemma run_guard_cases:
  "(\<exists>resp. fst (run_guard bk env g h r sv) = Wrote resp \<and> hr_status resp \<in> {401, 429} \<and> (\<exists>e. hr_body resp = Failure e) \<and>
      sv_app (snd (run_guard bk env g h r sv)) = sv_app sv) \<or>
   (\<exists>ctx. fst (run_guard bk env g h r sv) = fst (h (r\<lparr>rq_user := ctx\<rparr>) (sv_app sv)) \<and>
      sv_app (snd (run_guard bk env g h r sv)) = snd (h (r\<lparr>rq_user := ctx\<rparr>) (sv_app sv)))"
proof -
  have auth: "hr_status (auth_response e) = 401 \<and> (\<exists>x. hr_body (auth_response e) = Failure x)" for e
    by (cases e) (simp add: WriteError_def)
  have self: "r = r\<lparr>rq_user := rq_user r\<rparr>" by simp
  show ?thesis
  proof (cases g)
    case Public
    with self show ?thesis by (intro disjI2 exI [of _ "rq_user r"]) simp
  qed (use auth in \<open>auto simp: spam_limited_def WriteError_def split: sum.splits prod.splits bool.splits\<close>)
qed

lemma run_guard_frame:
  "sv_visitors (snd (run_guard bk env g h r sv)) = sv_visitors sv" "sv_clock (snd (run_guard bk env g h r sv)) = sv_clock sv"
  by (cases g; auto split: sum.splits prod.splits bool.splits)+

lemma dispatch_frame:
  "sv_visitors (snd (dispatch bk env r sv)) = sv_visitors sv" "sv_clock (snd (dispatch bk env r sv)) = sv_clock sv"
  by (simp_all add: dispatch_def run_guard_frame split: option.splits)

lemma dispatch_app_ok:
  assumes "app_ok (sv_app sv)"
  shows "app_ok (sv_app (snd (dispatch bk env r sv)))"
proof (cases "find_route (routes bk env) r")
  case (Some p)
  obtain rt ps where p: "p = (rt, ps)" by fastforce
  have "rt \<in> set (routes bk env)" using find_route_Some Some p by blast
  from routes_keep_app [OF this assms] Some p show ?thesis
    using run_guard_cases [of bk env "rt_guard rt" "rt_handler rt"
        "r\<lparr>rq_params := (\<lambda>n. case map_of ps n of Some v \<Rightarrow> v | None \<Rightarrow> []), rq_user := None\<rparr>" sv] assms
    by (auto simp: dispatch_def)
qed (simp add: dispatch_def assms)

lemma serve_ok:
  assumes "server_ok sv" and "sv_clock sv \<le> go_now env"
  shows "server_ok (snd (serve bk env r sv))"
proof -
  obtain b vs where rl: "RateLimit 10 20 (rq_remoteAddr r) (go_now env) (sv_visitors sv) = (b, vs)" by fastforce
  have vs: "visitors_ok 20 (go_now env) vs"
    using RateLimit_ok [of 20 "sv_clock sv" "sv_visitors sv" 10 "go_now env" "rq_remoteAddr r"] assms rl by (simp add: server_ok_def)
  let ?sv = "sv\<lparr>sv_clock := go_now env, sv_visitors := vs\<rparr>"
  have "app_ok (sv_app (snd (dispatch bk env r ?sv)))" using assms(1) by (intro dispatch_app_ok) (simp add: server_ok_def)
  with vs assms(1) dispatch_frame [of bk env r ?sv] rl show ?thesis
    by (cases b) (auto simp: serve_def server_ok_def Let_def split: prod.splits)
qed

lemma background_step_ok: "background_step sv sv' \<Longrightarrow> server_ok sv \<Longrightarrow> server_ok sv'"
  by (induction rule: background_step.induct)
    (auto simp: server_ok_def app_ok_def intro: hub_reachable_step cleanup_ok visitors_ok_mono)

lemma server_step_ok: "server_step bk sv sv' \<Longrightarrow> server_ok sv \<Longrightarrow> server_ok sv'"
proof (induction rule: server_step.induct)
  case (request sv env r)
  then show ?case by (simp add: serve_ok)
next
  case (connect sv env r resp sv' c)
  then have "server_ok sv'" using serve_ok [of sv env bk r] by simp
  moreover have "hub_step (a_hub (sv_app sv')) (ServeWS c (a_hub (sv_app sv')))" using connect by (intro hub_step.serve)
  ultimately show ?case by (auto simp: server_ok_def app_ok_def intro: hub_reachable_step)
qed (rule background_step_ok)

lemma server_begins_ok:
  assumes "server_begins sv"
  shows "server_ok sv"
proof -
  from assms obtain cfg pool_ok d r t where start: "db_ok d" "main_start cfg pool_ok d r t = Some sv" by (auto simp: server_begins_def)
  have "db_ok (snd (pool_Ping d))" using start(1) by (rule db_inv)
  with start show ?thesis
    by (auto simp: main_start_def server_ok_def server_start_def app_ok_def visitors_ok_def hub_reachable_start
        split: if_splits prod.splits sum.splits)
qed

interpretation server_run: step_system server_begins "server_step bk" server_ok for bk
  by unfold_locales (erule server_begins_ok, erule (1) server_step_ok)

lemmas server_reachable_ok = server_run.reachable_inv

section \<open>A concrete server\<close>

definition demo_backend :: backend where
  "demo_backend = \<lparr>bk_lib = demo_lib, bk_auth = demo_svc, bk_msg = demo_service,
     bk_json = (\<lambda>s. if s = ''post'' then Some (encode_CreateMessageRequest demo_request) else None),
     bk_marshal = (\<lambda>e. Some (msg_Content (ev_Payload e))), bk_error_text = (\<lambda>e. []),
     bk_upgrade = (\<lambda>r. Upgraded)\<rparr>"

definition demo_http :: "string \<Rightarrow> string list \<Rightarrow> string \<Rightarrow> http_request" where
  "demo_http m path tok = \<lparr>rq_method = m, rq_path = ''api'' # ''v1'' # path, rq_query = (\<lambda>_. []), rq_authorization = tok,
     rq_remoteAddr = ''1.2.3.4'', rq_body = ''post'', rq_params = (\<lambda>_. []), rq_user = None\<rparr>"

definition demo_server :: server where
  "demo_server = server_start demo_db \<lparr>rc_client = None, rc_ttl = 10 * 1000000000\<rparr> 0"

lemma demo_main_start:
  "main_start (Load (\<lambda>_. None) (\<lambda>_. [])) True demo_db \<lparr>rd_store = [], rd_links = [Unreachable], rd_pages = (\<lambda>ks. [ks])\<rparr> 0 = Some demo_server"
  by (simp add: main_start_def demo_server_def pool_Ping_def query_def exec_def
        next_link_def empty_db_def NewRedisCache_def rd_next_def Load_def demo_db_def)

lemma demo_server_reachable: "server_reachable bk demo_server"
  by (rule server_reachable_start [OF demo_db_ok demo_main_start])

lemma demo_server_step: "server_reachable bk (snd (serve bk demo_env r demo_server))"
proof (rule server_reachable_step)
  show "server_reachable bk demo_server" by (rule demo_server_reachable)
  show "server_step bk demo_server (snd (serve bk demo_env r demo_server))"
    by (rule server_step.request) (simp add: demo_server_def server_start_def demo_env_def)
qed

lemma demo_delete_route:
  "find_route (routes bk env) (demo_http ''DELETE'' [''messages'', ''m1''] tok) =
     Some (mk ''DELETE'' [Lit ''messages'', Param ''id''] Authenticated (MessageHandler_Delete env), [(''id'', ''m1'')])"
  by (simp add: find_route_def route_params_def routes_def public_routes_def private_routes_def mk_def api_def demo_http_def)

text \<open>C2: the invariant of the process. Whatever requests arrive, however the goroutines of the WebSocket clients run, whenever
  the cleanups run, and whatever the connections to the database and the cache do, from a start on a well-formed database
  the counters of every message equal the number of its rows, no user likes a message twice, the rows refer to existing
  messages and users, the hub has not panicked, and every bucket of the rate limiter holds between zero and twenty tokens.\<close>

theorem Server_invariant:
  assumes "server_reachable bk sv" and "d = a_db (sv_app sv)"
  shows "(\<forall>m \<in> set (t_messages d). has_user d (mr_user_id m) \<and>
      mr_likes_count m = int (likes_of d (mr_id m)) \<and>
      mr_comments_count m = int (count_where (\<lambda>r. ir_message_id r = mr_id m \<and> is_comment r) (t_interactions d)) \<and>
      mr_unlocks_count m = int (count_where (\<lambda>r. kr_message_id r = mr_id m) (t_unlocks d))) \<and>
    distinct (map like_key (filter is_like (t_interactions d))) \<and>
    (\<forall>r \<in> set (t_interactions d). has_message d (ir_message_id r) \<and> has_user d (ir_user_id r)) \<and>
    \<not> h_panic (a_hub (sv_app sv)) \<and>
    (\<forall>ip v. sv_visitors sv ip = Some v \<longrightarrow> 0 \<le> tokens v \<and> tokens v \<le> 20)"
proof -
  from server_reachable_ok [OF assms(1)] have ok: "db_ok d" "hub_reachable (a_hub (sv_app sv))"
    "visitors_ok 20 (sv_clock sv) (sv_visitors sv)"
    by (simp_all add: server_ok_def app_ok_def assms(2))
  from ok(1) have "wf_messages d" "wf_interactions d" "wf_counts d" by (simp_all add: db_ok_def)
  with hub_reachable_ok [OF ok(2)] ok(3) show ?thesis
    by (auto simp: wf_messages_def message_row_ok_def wf_interactions_def wf_counts_def counts_ok_def likes_of_def visitors_ok_def
        hub_ok_def)
qed

text \<open>After a like over HTTP.\<close>

lemma Server_invariant_witness:
  "let sv = snd (serve demo_backend demo_env (demo_http ''POST'' [''messages'', ''m1'', ''like''] ''Bearer 0.9.5.bobbysecret'') demo_server)
   in distinct (map like_key (filter is_like (t_interactions (a_db (sv_app sv))))) \<and> \<not> h_panic (a_hub (sv_app sv))"
  using Server_invariant [OF demo_server_step refl] by (simp add: Let_def)

section \<open>Answers\<close>

text \<open>C40: every answer of the server is well formed: it has a status of success exactly when a handler answered with data. The body is
  then that data in the envelope if the JSON encoder can write it, and empty if the data has a float or a time that the encoder
  refuses (a nearby feed around \<open>lat=NaN\<close>). Every other status comes with an error or a plain text, for a handler that panicked too.\<close>

theorem serve_envelope:
  "(hr_status (fst (serve bk env r sv)) \<in> {200, 201} \<longleftrightarrow>
      (\<exists>x. hr_body (fst (serve bk env r sv)) = (if json_data x then Success x else Unencoded x))) \<and>
   (hr_status (fst (serve bk env r sv)) \<notin> {200, 201} \<longleftrightarrow>
      (\<exists>e. hr_body (fst (serve bk env r sv)) = Failure e) \<or> (\<exists>s. hr_body (fst (serve bk env r sv)) = PlainText s))"
proof -
  obtain b vs where rl: "RateLimit 10 20 (rq_remoteAddr r) (go_now env) (sv_visitors sv) = (b, vs)" by fastforce
  let ?sv = "sv\<lparr>sv_clock := go_now env, sv_visitors := vs\<rparr>"
  have "envelope_ok (fst (dispatch bk env r ?sv))"
  proof (cases "find_route (routes bk env) r")
    case None
    then show ?thesis by (simp add: dispatch_def no_route_def envelope_ok_def answers_with_def)
  next
    case (Some p)
    obtain rt ps where p: "p = (rt, ps)" by fastforce
    have "rt \<in> set (routes bk env)" using find_route_Some Some p by blast
    from routes_envelope [OF this] show ?thesis
      using run_guard_cases [of bk env "rt_guard rt" "rt_handler rt"
          "r\<lparr>rq_params := (\<lambda>n. case map_of ps n of Some v \<Rightarrow> v | None \<Rightarrow> []), rq_user := None\<rparr>" ?sv]
      by (auto simp: dispatch_def Some p envelope_ok_def answers_with_def)
  qed
  then have "envelope_ok (Wrote (fst (serve bk env r sv)))"
    by (cases b) (auto simp: serve_def rl Let_def rate_limited_def WriteError_def recovered_def envelope_ok_def answers_with_def
        split: prod.splits outcome.splits)
  then show ?thesis unfolding envelope_ok_def answers_with_def outcome.case .
qed

text \<open>C13: a protected route without a valid token. The request is answered 401 (or 429 by the rate limiter), and neither the
  database, the cache nor the hub is touched, nor is the user charged with an action.\<close>

theorem Private_needs_token:
  assumes "find_route (routes bk env) r = Some (rt, ps)" and "rt \<in> set (private_routes bk env)"
    and "middleware_Auth (bk_lib bk) (bk_auth bk) (go_now env) (rq_authorization r) = Inl e"
    and "serve bk env r sv = (resp, sv')"
  shows "hr_status resp \<in> {401, 429} \<and> sv_app sv' = sv_app sv \<and> sv_lastAction sv' = sv_lastAction sv"
proof -
  have "rt_guard rt \<in> {Authenticated, Authenticated_spam}" using assms(2) by (auto simp: private_routes_def mk_def)
  with assms(1,3,4) show ?thesis
    by (cases e) (auto simp: serve_def dispatch_def Let_def rate_limited_def WriteError_def recovered_def
        split: prod.splits bool.splits)
qed

lemma Private_needs_token_witness:
  "hr_status (fst (serve demo_backend demo_env (demo_http ''DELETE'' [''messages'', ''m1''] []) demo_server)) \<in> {401, 429} \<and>
   sv_app (snd (serve demo_backend demo_env (demo_http ''DELETE'' [''messages'', ''m1''] []) demo_server)) = sv_app demo_server"
proof -
  let ?rt = "mk ''DELETE'' [Lit ''messages'', Param ''id''] Authenticated (MessageHandler_Delete demo_env)"
  have "?rt \<in> set (private_routes demo_backend demo_env)" by (simp add: private_routes_def)
  moreover have "middleware_Auth (bk_lib demo_backend) (bk_auth demo_backend) (go_now demo_env)
      (rq_authorization (demo_http ''DELETE'' [''messages'', ''m1''] [])) = Inl (AuthError ''AUTH_REQUIRED'' ''Token requis'')"
    by (simp add: middleware_Auth_def demo_http_def)
  ultimately show ?thesis using Private_needs_token [OF demo_delete_route _ _ surjective_pairing] by blast
qed

end
