(* ===== verification/Board.thy ===== *)
theory Board
  imports Server
begin

text \<open>
  What the server promises its users, as an abstract machine: a board of posts and of what users do to them, in which every step
  belongs to one user and touches only that user's entries. The theory shows that the database behind the server refines it:
  whatever a request does, it is a sequence of board steps of the user its token names, and none at all without a token.
\<close>

section \<open>The abstract machine\<close>

text \<open>Posts with their authors, likes and comments as (identifier, post, user), unlocks, reactions and badges.\<close>

record board =
  bd_posts :: "(string \<times> string) set"
  bd_acts :: "(string \<times> string \<times> string) set"
  bd_unlocks :: "(string \<times> string) set"
  bd_reactions :: "(string \<times> string \<times> string) set"
  bd_badges :: "(string \<times> string) set"

inductive board_step :: "string \<Rightarrow> board \<Rightarrow> board \<Rightarrow> bool" for u where
  publish: "i \<notin> fst ` bd_posts b \<Longrightarrow> board_step u b (b\<lparr>bd_posts := insert (i, u) (bd_posts b)\<rparr>)"
| withdraw: "(i, u) \<in> bd_posts b \<Longrightarrow>
    board_step u b \<lparr>bd_posts = bd_posts b - {(i, u)}, bd_acts = {x \<in> bd_acts b. fst (snd x) \<noteq> i},
      bd_unlocks = {x \<in> bd_unlocks b. fst x \<noteq> i}, bd_reactions = {x \<in> bd_reactions b. fst x \<noteq> i}, bd_badges = bd_badges b\<rparr>"
| act: "m \<in> fst ` bd_posts b \<Longrightarrow> board_step u b (b\<lparr>bd_acts := insert (k, m, u) (bd_acts b)\<rparr>)"
| undo: "(k, m, u) \<in> bd_acts b \<Longrightarrow> board_step u b (b\<lparr>bd_acts := bd_acts b - {(k, m, u)}\<rparr>)"
| unlock: "m \<in> fst ` bd_posts b \<Longrightarrow> board_step u b (b\<lparr>bd_unlocks := insert (m, u) (bd_unlocks b)\<rparr>)"
| react: "m \<in> fst ` bd_posts b \<Longrightarrow> board_step u b (b\<lparr>bd_reactions := insert (m, u, e) (bd_reactions b)\<rparr>)"
| unreact: "(m, u, e) \<in> bd_reactions b \<Longrightarrow> board_step u b (b\<lparr>bd_reactions := bd_reactions b - {(m, u, e)}\<rparr>)"
| earn: "board_step u b (b\<lparr>bd_badges := insert (u, t) (bd_badges b)\<rparr>)"

inductive_cases board_stepE: "board_step u b b'"

text \<open>What the user \<open>who\<close>, if there is one, may have done.\<close>

definition board_moves :: "string option \<Rightarrow> board \<Rightarrow> board \<Rightarrow> bool" where
  "board_moves who b b' = (case who of None \<Rightarrow> b' = b | Some u \<Rightarrow> (board_step u)\<^sup>*\<^sup>* b b')"

lemma board_moves_refl [simp, intro]: "board_moves who b b"
  by (simp add: board_moves_def split: option.splits)

lemma board_moves_trans [trans]: "board_moves who a b \<Longrightarrow> board_moves who b c \<Longrightarrow> board_moves who a c"
  by (auto simp: board_moves_def split: option.splits)

lemma board_moves_step: "who = Some u \<Longrightarrow> board_step u b b' \<Longrightarrow> board_moves who b b'"
  by (simp add: board_moves_def)

section \<open>The abstraction\<close>

definition post_key :: "message_row \<Rightarrow> string \<times> string" where
  "post_key m = (mr_id m, mr_user_id m)"

definition act_key :: "interaction_row \<Rightarrow> string \<times> string \<times> string" where
  "act_key r = (ir_id r, ir_message_id r, ir_user_id r)"

definition board_of :: "db \<Rightarrow> board" where
  "board_of d = \<lparr>bd_posts = set (map post_key (t_messages d)), bd_acts = set (map act_key (t_interactions d)),
     bd_unlocks = set (map unlock_key (t_unlocks d)), bd_reactions = set (map reaction_key (t_reactions d)),
     bd_badges = set (map badge_key (t_badges d))\<rparr>"

lemma board_frame:
  assumes "map post_key (t_messages d') = map post_key (t_messages d)" "t_interactions d' = t_interactions d"
    "t_unlocks d' = t_unlocks d" "t_reactions d' = t_reactions d" "t_badges d' = t_badges d"
  shows "board_of d' = board_of d"
  using assms by (simp only: board_of_def)

lemma board_frames [simp]:
  "board_of (d\<lparr>t_links := ls\<rparr>) = board_of d" "board_of (d\<lparr>t_uuids := n\<rparr>) = board_of d"
  "board_of (d\<lparr>t_users := us\<rparr>) = board_of d" "board_of (d\<lparr>t_streaks := ss\<rparr>) = board_of d"
  "board_of (d\<lparr>t_reports := rs\<rparr>) = board_of d"
  by (rule board_frame; simp)+

lemma has_message_posts: "has_message d m \<longleftrightarrow> m \<in> fst ` bd_posts (board_of d)"
  by (force simp: has_message_def board_of_def post_key_def)

lemma set_filter_key: "(\<And>r. P r \<longleftrightarrow> Q (k r)) \<Longrightarrow> set (map k (filter P rs)) = {x \<in> set (map k rs). Q x}"
  by auto

lemma update_posts: "(\<And>m. post_key (f m) = post_key m) \<Longrightarrow> map post_key (update_where P f ms) = map post_key ms"
  by (rule map_update_where)

section \<open>Statements\<close>

text \<open>A statement that acts for a user, and what follows for its execution over an unreliable connection.\<close>

locale board_statement =
  fixes st :: "'a stmt" and who :: "string option"
  assumes moves: "st d = (Inr x, d') \<Longrightarrow> db_ok d \<Longrightarrow> board_moves who (board_of d) (board_of d')"
begin

lemma exec_moves: "exec st d = (r, d') \<Longrightarrow> db_ok d \<Longrightarrow> board_moves who (board_of d) (board_of d')"
  by (auto simp: exec_def next_link_def split: list.splits sum.splits prod.splits if_splits dest: moves)

end

interpretation query_board: board_statement "\<lambda>d. (q d, d)" who for q :: "db \<Rightarrow> db_error + 'a" and who
  by unfold_locales auto

interpretation create_board: board_statement "create_stmt env userID req" "uuid_in env userID" for env userID req
proof
  fix d x d'
  assume "create_stmt env userID req d = (Inr x, d')"
  then obtain uid where u: "uuid_in env userID = Some uid"
    and ins: "insert_message (create_row env (uuid_v4 env (t_uuids d)) uid req) (d\<lparr>t_uuids := Suc (t_uuids d)\<rparr>) = Inr d'"
    by (auto simp: create_stmt_def gen_uuid_def Let_def split: option.splits sum.splits)
  then have new: "\<not> has_message d (uuid_v4 env (t_uuids d))"
    and d': "board_of d' = (board_of d)\<lparr>bd_posts := insert (uuid_v4 env (t_uuids d), uid) (bd_posts (board_of d))\<rparr>"
    by (auto simp: insert_message_def create_row_def board_of_def post_key_def has_message_def split: if_splits)
  show "board_moves (uuid_in env userID) (board_of d) (board_of d')"
    unfolding d' by (rule board_moves_step [OF u], rule board_step.publish) (use new in \<open>simp add: has_message_posts\<close>)
qed

interpretation delete_message_board: board_statement "delete_message_stmt env i userID" "uuid_in env userID" for env i userID
proof
  fix d x d'
  assume st: "delete_message_stmt env i userID d = (Inr x, d')"
  then obtain mid uid where u: "uuid_in env userID = Some uid"
    and del: "delete_messages env (\<lambda>m. mr_id m = mid \<and> mr_user_id m = uid) d = Inr d'"
    by (auto simp: delete_message_stmt_def uuid_param_def Let_def split: sum.splits option.splits)
  let ?P = "\<lambda>m. mr_id m = mid \<and> mr_user_id m = uid"
  show "board_moves (uuid_in env userID) (board_of d) (board_of d')"
  proof (cases "filter ?P (t_messages d) = []")
    case True
    with del show ?thesis by (simp add: delete_messages_def)
  next
    case False
    then have gone: "set (map mr_id (filter ?P (t_messages d))) = {mid}" and mem: "(mid, uid) \<in> bd_posts (board_of d)"
      by (auto simp: filter_empty_conv board_of_def post_key_def image_iff)
    from del False obtain reps where d': "d' = d\<lparr>t_messages := filter (\<lambda>m. \<not> ?P m) (t_messages d),
        t_interactions := filter (\<lambda>r. ir_message_id r \<notin> {mid}) (t_interactions d),
        t_unlocks := filter (\<lambda>r. kr_message_id r \<notin> {mid}) (t_unlocks d),
        t_reactions := filter (\<lambda>r. rr_message_id r \<notin> {mid}) (t_reactions d), t_reports := reps\<rparr>"
      unfolding delete_messages_def Let_def gone by (auto split: sum.splits if_splits)
    have "set (map post_key (filter (\<lambda>m. \<not> ?P m) (t_messages d))) = set (map post_key (t_messages d)) - {(mid, uid)}"
      by (auto simp: post_key_def)
    moreover have "set (map act_key (filter (\<lambda>r. ir_message_id r \<notin> {mid}) (t_interactions d))) =
        {x \<in> set (map act_key (t_interactions d)). fst (snd x) \<noteq> mid}" by (rule set_filter_key) (simp add: act_key_def)
    moreover have "set (map unlock_key (filter (\<lambda>r. kr_message_id r \<notin> {mid}) (t_unlocks d))) =
        {x \<in> set (map unlock_key (t_unlocks d)). fst x \<noteq> mid}" by (rule set_filter_key) (simp add: unlock_key_def)
    moreover have "set (map reaction_key (filter (\<lambda>r. rr_message_id r \<notin> {mid}) (t_reactions d))) =
        {x \<in> set (map reaction_key (t_reactions d)). fst x \<noteq> mid}" by (rule set_filter_key) (simp add: reaction_key_def)
    ultimately have "board_of d' = \<lparr>bd_posts = bd_posts (board_of d) - {(mid, uid)},
        bd_acts = {x \<in> bd_acts (board_of d). fst (snd x) \<noteq> mid}, bd_unlocks = {x \<in> bd_unlocks (board_of d). fst x \<noteq> mid},
        bd_reactions = {x \<in> bd_reactions (board_of d). fst x \<noteq> mid}, bd_badges = bd_badges (board_of d)\<rparr>"
      unfolding board_of_def d' by (simp del: set_map set_filter)
    with board_moves_step [OF u board_step.withdraw [OF mem]] show ?thesis by simp
  qed
qed

interpretation unlock_board: board_statement "unlock_stmt env messageID userID" "uuid_in env userID" for env messageID userID
proof
  fix d x d'
  assume "unlock_stmt env messageID userID d = (Inr x, d')"
  then obtain mid uid where u: "uuid_in env userID = Some uid"
    and ins: "insert_unlock \<lparr>kr_message_id = mid, kr_user_id = uid\<rparr> d = Inr (x, d')"
    by (auto simp: unlock_stmt_def uuid_param_def split: sum.splits option.splits)
  show "board_moves (uuid_in env userID) (board_of d) (board_of d')"
  proof (cases x)
    case True
    with ins have mem: "has_message d mid"
      and d': "d' = d\<lparr>t_unlocks := t_unlocks d @ [\<lparr>kr_message_id = mid, kr_user_id = uid\<rparr>],
        t_messages := update_where (\<lambda>m. mr_id m = mid) (\<lambda>m. m\<lparr>mr_unlocks_count := mr_unlocks_count m + 1\<rparr>) (t_messages d)\<rparr>"
      by (auto simp: insert_unlock_def split: if_splits)
    have "map post_key (update_where (\<lambda>m. mr_id m = mid) (\<lambda>m. m\<lparr>mr_unlocks_count := mr_unlocks_count m + 1\<rparr>) (t_messages d)) =
        map post_key (t_messages d)" by (rule update_posts) (simp add: post_key_def)
    then have "board_of d' = (board_of d)\<lparr>bd_unlocks := insert (mid, uid) (bd_unlocks (board_of d))\<rparr>"
      unfolding board_of_def d' by (simp add: unlock_key_def del: set_map)
    with mem show ?thesis by (auto intro: board_moves_step [OF u] board_step.unlock simp: has_message_posts)
  next
    case False
    with ins show ?thesis by (auto simp: insert_unlock_def split: if_splits)
  qed
qed

text \<open>The count triggers do not show on the board.\<close>

lemma board_counts: "board_of (d\<lparr>t_messages := map (shift_counts k rs) ms\<rparr>) = board_of (d\<lparr>t_messages := ms\<rparr>)"
  by (rule board_frame) (simp_all add: post_key_def)

interpretation insert_interaction_board:
  board_statement "insert_interaction_stmt env messageID userID ty c" "uuid_in env userID" for env messageID userID ty c
proof
  fix d x d'
  assume "insert_interaction_stmt env messageID userID ty c d = (Inr x, d')"
  then obtain mid uid where u: "uuid_in env userID = Some uid"
    and ins: "insert_interaction \<lparr>ir_id = uuid_v4 env (t_uuids d), ir_message_id = mid, ir_user_id = uid, ir_type = ty,
      ir_content = c, ir_created_at = db_now env\<rparr> (d\<lparr>t_uuids := Suc (t_uuids d)\<rparr>) = Inr d'"
    by (auto simp: insert_interaction_stmt_def uuid_param_def gen_uuid_def Let_def split: sum.splits option.splits)
  define r where "r = \<lparr>ir_id = uuid_v4 env (t_uuids d), ir_message_id = mid, ir_user_id = uid, ir_type = ty,
      ir_content = c, ir_created_at = db_now env\<rparr>"
  have r: "ir_message_id r = mid" "ir_user_id r = uid" by (simp_all add: r_def)
  from ins [folded r_def] r have mem: "has_message d mid"
    and d': "d' = d\<lparr>t_uuids := Suc (t_uuids d), t_interactions := t_interactions d @ [r],
      t_messages := map (shift_counts 1 [r]) (t_messages d)\<rparr>"
    by (auto simp: insert_interaction_def update_interaction_counts_eq has_message_def split: if_splits)
  have "board_of d' = (board_of d)\<lparr>bd_acts := insert (ir_id r, mid, uid) (bd_acts (board_of d))\<rparr>"
    unfolding d' board_counts using r by (simp add: board_of_def act_key_def)
  with mem show "board_moves (uuid_in env userID) (board_of d) (board_of d')"
    by (auto intro: board_moves_step [OF u] board_step.act simp: has_message_posts)
qed

lemma delete_interactions_board:
  "board_of (delete_interactions P d) =
     (board_of d)\<lparr>bd_acts := set (map act_key (filter (\<lambda>r. \<not> P r) (t_interactions d)))\<rparr>"
  unfolding delete_interactions_def fold_update_interaction_counts board_counts by (simp add: board_of_def)

text \<open>Identifiers are unique, so a deletion that matches one row of a user undoes one act of that user.\<close>

lemma delete_own_act:
  assumes "db_ok d" and "r \<in> set (t_interactions d)" and "\<And>x. x \<in> set (t_interactions d) \<Longrightarrow> P x \<longleftrightarrow> ir_id x = ir_id r"
  shows "board_moves (Some (ir_user_id r)) (board_of d) (board_of (delete_interactions P d))"
proof -
  have dist: "distinct (map ir_id (t_interactions d))" using assms(1) by (simp add: db_ok_def wf_interactions_def)
  have "P x \<longleftrightarrow> act_key x = act_key r" if "x \<in> set (t_interactions d)" for x
    using assms(2,3) that dist by (auto simp: act_key_def dest: distinct_map_unique)
  then have "set (map act_key (filter (\<lambda>r. \<not> P r) (t_interactions d))) = bd_acts (board_of d) - {act_key r}"
    by (auto simp: board_of_def)
  moreover have "act_key r \<in> bd_acts (board_of d)" using assms(2) by (simp add: board_of_def)
  ultimately show ?thesis
    unfolding delete_interactions_board by (auto intro!: board_moves_step board_step.undo simp: act_key_def)
qed

lemma delete_interactions_nothing: "filter P (t_interactions d) = [] \<Longrightarrow> board_of (delete_interactions P d) = board_of d"
  unfolding delete_interactions_board by (simp add: board_of_def filter_empty_conv filter_id_conv)

interpretation delete_comment_board: board_statement "delete_comment_stmt env i userID" "uuid_in env userID" for env i userID
proof
  fix d x d'
  assume "delete_comment_stmt env i userID d = (Inr x, d')" and ok: "db_ok d"
  then obtain cid uid where u: "uuid_in env userID = Some uid"
    and d': "d' = delete_interactions (\<lambda>r. ir_id r = cid \<and> ir_user_id r = uid \<and> ir_type r = ''comment'') d"
    by (auto simp: delete_comment_stmt_def uuid_param_def Let_def split: sum.splits option.splits)
  let ?P = "\<lambda>r. ir_id r = cid \<and> ir_user_id r = uid \<and> ir_type r = ''comment''"
  show "board_moves (uuid_in env userID) (board_of d) (board_of d')"
  proof (cases "filter ?P (t_interactions d) = []")
    case True
    then show ?thesis unfolding d' by (simp add: delete_interactions_nothing)
  next
    case False
    then obtain r where r: "r \<in> set (t_interactions d)" "?P r" by (auto simp: filter_empty_conv)
    have dist: "distinct (map ir_id (t_interactions d))" using ok by (simp add: db_ok_def wf_interactions_def)
    have "?P x \<longleftrightarrow> ir_id x = ir_id r" if "x \<in> set (t_interactions d)" for x
      using r that dist by (auto dest: distinct_map_unique)
    from delete_own_act [OF ok r(1) this] r(2) u show ?thesis unfolding d' by simp
  qed
qed

interpretation insert_reaction_board:
  board_statement "insert_reaction_stmt env messageID userID e" "uuid_in env userID" for env messageID userID e
proof
  fix d x d'
  assume "insert_reaction_stmt env messageID userID e d = (Inr x, d')"
  then obtain mid uid where u: "uuid_in env userID = Some uid"
    and ins: "insert_reaction \<lparr>rr_id = uuid_v4 env (t_uuids d), rr_message_id = mid, rr_user_id = uid, rr_emoji = e,
      rr_created_at = db_now env\<rparr> (d\<lparr>t_uuids := Suc (t_uuids d)\<rparr>) = Inr d'"
    by (auto simp: insert_reaction_stmt_def uuid_param_def gen_uuid_def split: sum.splits option.splits)
  define r where "r = \<lparr>rr_id = uuid_v4 env (t_uuids d), rr_message_id = mid, rr_user_id = uid, rr_emoji = e,
      rr_created_at = db_now env\<rparr>"
  have r: "reaction_key r = (mid, uid, e)" by (simp add: r_def reaction_key_def)
  from ins [folded r_def] r have mem: "has_message d mid" and d': "d' = d\<lparr>t_uuids := Suc (t_uuids d), t_reactions := t_reactions d @ [r]\<rparr>"
    by (auto simp: insert_reaction_def has_message_def reaction_key_def split: if_splits)
  have "board_of d' = (board_of d)\<lparr>bd_reactions := insert (mid, uid, e) (bd_reactions (board_of d))\<rparr>"
    unfolding d' using r by (simp add: board_of_def)
  with mem show "board_moves (uuid_in env userID) (board_of d) (board_of d')"
    by (auto intro: board_moves_step [OF u] board_step.react simp: has_message_posts)
qed

lemma delete_own_reaction:
  assumes "db_ok d" and "r \<in> set (t_reactions d)"
  shows "board_moves (Some (rr_user_id r)) (board_of d) (board_of (d\<lparr>t_reactions := filter (\<lambda>x. rr_id x \<noteq> rr_id r) (t_reactions d)\<rparr>))"
proof -
  have dist: "distinct (map rr_id (t_reactions d))" "distinct (map reaction_key (t_reactions d))"
    using assms(1) by (simp_all add: db_ok_def wf_reactions_def)
  have "rr_id x \<noteq> rr_id r \<longleftrightarrow> reaction_key x \<noteq> reaction_key r" if "x \<in> set (t_reactions d)" for x
    using distinct_map_unique [OF dist(1) that assms(2)] distinct_map_unique [OF dist(2) that assms(2)] by auto
  then have "set (map reaction_key (filter (\<lambda>x. rr_id x \<noteq> rr_id r) (t_reactions d))) = bd_reactions (board_of d) - {reaction_key r}"
    by (auto simp: board_of_def)
  then have "board_of (d\<lparr>t_reactions := filter (\<lambda>x. rr_id x \<noteq> rr_id r) (t_reactions d)\<rparr>) =
      (board_of d)\<lparr>bd_reactions := bd_reactions (board_of d) - {reaction_key r}\<rparr>"
    by (simp add: board_of_def del: set_map)
  moreover have "reaction_key r \<in> bd_reactions (board_of d)" using assms(2) by (simp add: board_of_def)
  ultimately show ?thesis by (auto intro!: board_moves_step board_step.unreact simp: reaction_key_def)
qed

interpretation award_badge_board: board_statement "award_badge_stmt env userID t" "uuid_in env userID" for env userID t
proof
  fix d x d'
  assume "award_badge_stmt env userID t d = (Inr x, d')"
  then obtain uid where u: "uuid_in env userID = Some uid"
    and ins: "insert_badge \<lparr>br_id = uuid_v4 env (t_uuids d), br_user_id = uid, br_badge_type = t, br_earned_at = db_now env\<rparr>
      (d\<lparr>t_uuids := Suc (t_uuids d)\<rparr>) = Inr d'"
    by (auto simp: award_badge_stmt_def uuid_param_def gen_uuid_def split: sum.splits option.splits)
  define b where "b = \<lparr>br_id = uuid_v4 env (t_uuids d), br_user_id = uid, br_badge_type = t, br_earned_at = db_now env\<rparr>"
  have b: "badge_key b = (uid, t)" by (simp add: b_def badge_key_def)
  have "board_of (d\<lparr>t_badges := t_badges d @ [b]\<rparr>) = (board_of d)\<lparr>bd_badges := insert (uid, t) (bd_badges (board_of d))\<rparr>"
    unfolding board_of_def using b by simp
  moreover from ins [folded b_def] have "board_of d' = board_of d \<or> board_of d' = board_of (d\<lparr>t_badges := t_badges d @ [b]\<rparr>)"
    by (auto simp: insert_badge_def split: if_splits intro: board_frame)
  ultimately have "board_of d' = board_of d \<or>
      board_of d' = (board_of d)\<lparr>bd_badges := insert (uid, t) (bd_badges (board_of d))\<rparr>" by simp
  then show "board_moves (uuid_in env userID) (board_of d) (board_of d')"
    using board_moves_step [OF u board_step.earn [of uid "board_of d" t]] by auto
qed

text \<open>Reports, streaks and accounts are not on the board.\<close>

lemma board_hide: "board_of (d\<lparr>t_messages := update_where P (\<lambda>m. m\<lparr>mr_is_hidden := True\<rparr>) (t_messages d)\<rparr>) = board_of d"
  by (rule board_frame) (simp_all add: update_posts post_key_def)

interpretation report_board: board_statement "report_stmt env m u r t" who for env m u r t who
  by unfold_locales (auto simp: report_stmt_def insert_report_def split: sum.splits if_splits option.splits)

interpretation hide_board: board_statement "hide_stmt env m" who for env m who
  by unfold_locales (auto simp: hide_stmt_def board_hide split: sum.splits)

interpretation record_post_board: board_statement "record_post_stmt env u" who for env u who
  by unfold_locales (auto simp: record_post_stmt_def upsert_streak_def split: sum.splits if_splits)

interpretation record_unlock_board: board_statement "record_unlock_stmt env u" who for env u who
  by unfold_locales (auto simp: record_unlock_stmt_def upsert_streak_def split: sum.splits if_splits)

interpretation create_user_board: board_statement "create_user_stmt env u" who for env u who
  by unfold_locales (auto simp: create_user_stmt_def gen_uuid_def insert_user_def split: sum.splits if_splits)

section \<open>Repository methods\<close>

named_theorems moves

lemma query_board_same: "query q d = (r, d') \<Longrightarrow> board_of d' = board_of d"
  using query_tables [of q d r d'] by auto

lemma query_rows_board_same: "query_rows env q d = (r, d') \<Longrightarrow> board_of d' = board_of d"
  using query_rows_tables [of env q d r d'] by auto

lemma query_rows_board_snd [simp]: "board_of (snd (query_rows env q d)) = board_of d"
  by (metis prod.collapse query_rows_board_same)

lemmas query_boards = query_board_same query_rows_board_same

lemma query_board_snd [simp]: "board_of (snd (query q d)) = board_of d"
  by (metis prod.collapse query_board_same)

lemma message_repo_moves [moves]:
  assumes "db_ok d"
  shows "board_moves (uuid_in env u) (board_of d) (board_of (snd (MessageRepo_Create env u req d)))"
    "board_moves (uuid_in env u) (board_of d) (board_of (snd (MessageRepo_Delete env i u d)))"
    "board_moves (uuid_in env u) (board_of d) (board_of (snd (MessageRepo_UnlockMystery env i u d)))"
  using create_board.exec_moves [OF surjective_pairing assms] unlock_board.exec_moves [OF surjective_pairing assms]
    delete_message_board.exec_moves [OF _ assms]
  by (auto simp: MessageRepo_Create_def MessageRepo_Delete_def MessageRepo_UnlockMystery_def split: prod.splits sum.splits)

lemma interaction_repo_moves [moves]:
  assumes "db_ok d"
  shows "board_moves (uuid_in env u) (board_of d) (board_of (snd (InteractionRepo_AddComment env m u c d)))"
    "board_moves (uuid_in env u) (board_of d) (board_of (snd (InteractionRepo_DeleteComment env i u d)))"
    "board_moves who (board_of d) (board_of (snd (InteractionRepo_ReportMessage env m u r t d)))"
    "board_moves who (board_of d) (board_of (snd (InteractionRepo_HideMessage env m d)))"
  using insert_interaction_board.exec_moves [OF _ assms] delete_comment_board.exec_moves [OF _ assms]
    report_board.exec_moves [OF surjective_pairing assms] hide_board.exec_moves [OF surjective_pairing assms]
  by (auto simp: InteractionRepo_AddComment_def InteractionRepo_DeleteComment_def InteractionRepo_ReportMessage_def
      InteractionRepo_HideMessage_def split: prod.splits sum.splits dest!: first_row_D)

lemma gamification_moves [moves]:
  assumes "db_ok d"
  shows "board_moves (uuid_in env u) (board_of d) (board_of (snd (GamificationRepo_AwardBadge env u t d)))"
    "board_moves who (board_of d) (board_of (snd (GamificationRepo_RecordPost env u lat lng d)))"
    "board_moves who (board_of d) (board_of (snd (GamificationRepo_RecordUnlock env u d)))"
  using award_badge_board.exec_moves [OF surjective_pairing assms] record_post_board.exec_moves [OF surjective_pairing assms]
    record_unlock_board.exec_moves [OF surjective_pairing assms]
  by (simp_all add: GamificationRepo_AwardBadge_def GamificationRepo_RecordPost_def GamificationRepo_RecordUnlock_def)

lemma award_if_moves:
  assumes "db_ok d" and "board_moves (uuid_in env u) b (board_of d)"
  shows "board_moves (uuid_in env u) b (board_of (award_if c env u t d))"
  using assms gamification_moves(1) [OF assms(1), of env u t] board_moves_trans by (auto simp: award_if_def)

lemma award_if_db_ok: "db_ok d \<Longrightarrow> db_ok (award_if c env u t d)"
  by (simp add: award_if_def AwardBadge_inv)

lemma CheckAndAwardBadges_moves [moves]:
  assumes "db_ok d"
  shows "board_moves (uuid_in env u) (board_of d) (board_of (snd (GamificationRepo_CheckAndAwardBadges env u d)))"
proof -
  obtain x d1 where g: "GamificationRepo_GetStreak env u d = (x, d1)" by fastforce
  then have "board_of d1 = board_of d"
    by (auto simp: GamificationRepo_GetStreak_def split: prod.splits sum.splits dest!: first_row_D dest: query_boards)
  moreover have "db_ok d1" using GetStreak_ok [OF g assms] .
  ultimately show ?thesis
    by (cases x) (simp_all add: GamificationRepo_CheckAndAwardBadges_def g Let_def award_if_moves award_if_db_ok)
qed

section \<open>Likes and reactions\<close>

lemma found_like_moves:
  assumes "db_ok d" and "query (find_like env m u) d = (Inr (i # js), d1)" and "exec (delete_like_stmt i) d1 = (r, d2)"
  shows "board_moves (uuid_in env u) (board_of d) (board_of d2)"
proof -
  note q = query_InrD [OF assms(2)]
  from find_like_Inr [OF conjunct1 [OF q]] obtain mid uid x xs where u: "uuid_in env u = Some uid"
    and "filter (is_like_of mid uid) (t_interactions d) = x # xs" and i: "i = ir_id x"
    by (auto simp: Cons_eq_map_conv)
  then have x: "x \<in> set (t_interactions d)" "ir_user_id x = uid"
    by (auto dest!: filter_eq_ConsD simp: is_like_of_def)
  from exec_cases [OF assms(3)] show ?thesis
  proof (elim disjE exE)
    fix ls assume "d2 = d1\<lparr>t_links := ls\<rparr>"
    with q show ?thesis by simp
  next
    fix ls z assume "delete_like_stmt i (d1\<lparr>t_links := ls\<rparr>) = (Inr z, d2)"
    with q i have "d2 = delete_interactions (\<lambda>r. ir_id r = ir_id x) (d\<lparr>t_links := ls\<rparr>)" by (simp add: delete_like_stmt_def)
    with delete_own_act [of "d\<lparr>t_links := ls\<rparr>" x "\<lambda>r. ir_id r = ir_id x"] assms(1) x u show ?thesis by simp
  qed
qed

lemma like_tx_moves:
  assumes "db_ok d" and "like_tx env m u d = (r, d')"
  shows "board_moves (uuid_in env u) (board_of d) (board_of d')"
proof -
  obtain f d1 where q: "first_row (query (find_like env m u) d) = (f, d1)" by fastforce
  obtain g d2 where p: "flip_like env m u f d1 = (g, d2)" by fastforce
  have d1: "db_ok d1" "board_of d1 = board_of d"
    using q assms(1) by (auto dest!: first_row_D dest: query_keepsD query_boards)
  have "board_moves (uuid_in env u) (board_of d) (board_of d2)"
  proof (cases f)
    case (Inr i)
    from first_row_Inr [OF q [unfolded this]] obtain js where "query (find_like env m u) d = (Inr (i # js), d1)" ..
    from found_like_moves [OF assms(1) this] p Inr show ?thesis by (auto simp: flip_like_def split: prod.splits sum.splits)
  next
    case (Inl e)
    with p d1 insert_interaction_board.exec_moves [OF _ d1(1)] show ?thesis
      by (auto simp: flip_like_def split: prod.splits sum.splits if_splits)
  qed
  moreover have "board_of d' = board_of d2"
    using assms(2) q p by (auto simp: like_tx_def split: prod.splits sum.splits dest!: first_row_D dest: query_boards)
  ultimately show ?thesis by simp
qed

lemma ToggleLike_moves [moves]:
  assumes "db_ok d"
  shows "board_moves (uuid_in env u) (board_of d) (board_of (snd (InteractionRepo_ToggleLike env m u d)))"
proof -
  obtain b d1 where t: "tx_begin d = (b, d1)" by fastforce
  have d1: "db_ok d1" "board_of d1 = board_of d"
    using tx_begin_ok [OF t assms] query_board_same [OF t [unfolded tx_begin_def]] by simp_all
  obtain l d2 where l: "like_tx env m u d1 = (l, d2)" by fastforce
  have "board_of (rollback_to d1 x) = board_of d" for x using d1 by (simp add: rollback_to_def)
  then have "board_of (snd (tx_commit d1 d2)) = board_of d2 \<or> board_of (snd (tx_commit d1 d2)) = board_of d"
    by (auto simp: tx_commit_def next_link_def split: list.splits)
  with like_tx_moves [OF d1(1) l] t l d1 show ?thesis
    by (auto simp: InteractionRepo_ToggleLike_def rollback_to_def split: sum.splits prod.splits)
qed

lemma found_reaction_moves:
  assumes "db_ok d" and "query (find_reaction env m u e) d = (Inr (i # js), d1)" and "exec (delete_reaction_stmt i) d1 = (r, d2)"
  shows "board_moves (uuid_in env u) (board_of d) (board_of d2)"
proof -
  note q = query_InrD [OF assms(2)]
  from q obtain mid uid x xs where u: "uuid_in env u = Some uid" and i: "i = rr_id x"
    and f: "filter (\<lambda>r. reaction_key r = (mid, uid, e)) (t_reactions d) = x # xs"
    by (auto simp: find_reaction_def uuid_param_def split: sum.splits option.splits if_splits)
  from filter_eq_ConsD [OF f] have x: "x \<in> set (t_reactions d)" "rr_user_id x = uid" by (auto simp: reaction_key_def)
  from exec_cases [OF assms(3)] show ?thesis
  proof (elim disjE exE)
    fix ls assume "d2 = d1\<lparr>t_links := ls\<rparr>"
    with q show ?thesis by simp
  next
    fix ls z assume "delete_reaction_stmt i (d1\<lparr>t_links := ls\<rparr>) = (Inr z, d2)"
    with q i have "d2 = (d\<lparr>t_links := ls\<rparr>)\<lparr>t_reactions := filter (\<lambda>y. rr_id y \<noteq> rr_id x) (t_reactions (d\<lparr>t_links := ls\<rparr>))\<rparr>"
      by (simp add: delete_reaction_stmt_def)
    with delete_own_reaction [of "d\<lparr>t_links := ls\<rparr>" x] assms(1) x u show ?thesis by simp
  qed
qed

lemma ToggleReaction_moves [moves]:
  assumes "db_ok d"
  shows "board_moves (uuid_in env u) (board_of d) (board_of (snd (InteractionRepo_ToggleReaction env m u e d)))"
proof -
  obtain f d1 where q: "first_row (query (find_reaction env m u e) d) = (f, d1)" by fastforce
  have d1: "db_ok d1" "board_of d1 = board_of d"
    using q assms by (auto dest!: first_row_D dest: query_keepsD query_boards)
  show ?thesis
  proof (cases f)
    case (Inr i)
    from first_row_Inr [OF q [unfolded this]] obtain js where "query (find_reaction env m u e) d = (Inr (i # js), d1)" ..
    from found_reaction_moves [OF assms this] Inr show ?thesis
      by (auto simp: InteractionRepo_ToggleReaction_def q split: prod.splits sum.splits)
  next
    case (Inl x)
    with d1 insert_reaction_board.exec_moves [OF _ d1(1)] show ?thesis
      by (auto simp: InteractionRepo_ToggleReaction_def q split: prod.splits sum.splits)
  qed
qed

section \<open>Services\<close>

text \<open>Methods that only read.\<close>

lemma read_methods_moves [moves]:
  "board_moves who (board_of d) (board_of (snd (MessageRepo_GetNearby env q d)))"
  "board_moves who (board_of d) (board_of (snd (MessageRepo_GetByUser env u d)))"
  "board_moves who (board_of d) (board_of (snd (MessageRepo_IsUnlocked env i u d)))"
  "board_moves who (board_of d) (board_of (snd (MessageRepo_GetMessageContent env i d)))"
  "board_moves who (board_of d) (board_of (snd (MessageRepo_GetHeatmap env lat lng radius d)))"
  "board_moves who (board_of d) (board_of (snd (MessageRepo_GetLeaderboard env lat lng radius limit d)))"
  "board_moves who (board_of d) (board_of (snd (MessageRepo_DetectEvents env lat lng radius d)))"
  "board_moves who (board_of d) (board_of (snd (MessageRepo_GetPopularHashtags env limit d)))"
  "board_moves who (board_of d) (board_of (snd (InteractionService_GetComments env i d)))"
  "board_moves who (board_of d) (board_of (snd (AuthService_GetUser env i d)))"
  "board_moves who (board_of d) (board_of (snd (pool_Ping d)))"
  by (simp_all add: MessageRepo_GetNearby_def MessageRepo_GetByUser_def MessageRepo_IsUnlocked_def
      MessageRepo_GetMessageContent_def MessageRepo_GetHeatmap_def MessageRepo_GetLeaderboard_def MessageRepo_DetectEvents_def
      MessageRepo_GetPopularHashtags_def InteractionService_GetComments_def InteractionRepo_GetComments_def AuthService_GetUser_def
      UserRepo_GetByID_def pool_Ping_def split: prod.splits sum.splits)
    (metis board_moves_refl query_board_same query_rows_board_same)

lemma search_moves [moves]:
  "board_moves who (board_of d) (board_of (snd (SearchService_Search env q d)))"
  "board_moves who (board_of d) (board_of (snd (SearchService_GetPopularHashtags env n d)))"
  by (auto simp: SearchService_Search_def SearchService_searchUsers_def SearchService_searchHashtags_def
      MessageRepo_SearchByHashtag_def UserRepo_SearchByUsername_def SearchService_GetPopularHashtags_def
      MessageRepo_GetPopularHashtags_def Let_def split: prod.splits sum.splits dest!: query_boards)

lemma profile_moves [moves]: "board_moves who (board_of d) (board_of (snd (GamificationService_GetProfile env u d)))"
  by (auto simp: GamificationService_GetProfile_def GamificationRepo_GetStreak_def GamificationRepo_GetBadges_def
      split: prod.splits sum.splits dest!: first_row_D query_boards)

lemma account_moves [moves]:
  assumes "db_ok d"
  shows "board_moves who (board_of d) (board_of (snd (AuthService_Register lib svc env reg d)))"
    "board_moves who (board_of d) (board_of (snd (AuthService_Login lib svc env lgn d)))"
  using create_user_board.exec_moves [OF _ assms]
  by (auto simp: AuthService_Register_def AuthService_Login_def UserRepo_Create_def UserRepo_GetByEmail_def
      split: prod.splits sum.splits dest!: first_row_D dest: query_boards)

lemma report_moves [moves]:
  assumes "db_ok d"
  shows "board_moves who (board_of d) (board_of (snd (InteractionService_ReportMessage env m u r t d)))"
proof -
  obtain x d1 where 1: "InteractionRepo_ReportMessage env m u r t d = (x, d1)" by fastforce
  obtain n d2 where 2: "InteractionRepo_GetReportCount env m d1 = (n, d2)" by fastforce
  have "db_ok d1" using interaction_methods_inv(4) [OF assms, of env m u r t] 1 by simp
  then have "db_ok d2" using interaction_methods_inv(5) [of d1 env m] 2 by simp
  moreover have "board_of d2 = board_of d1" using 2 unfolding InteractionRepo_GetReportCount_def by (rule query_board_same)
  moreover have "board_moves who (board_of d) (board_of d1)" using interaction_repo_moves(3) [OF assms, of who env m u r t] 1 by simp
  ultimately show ?thesis
    using interaction_repo_moves(4) [of d2 who env m] board_moves_trans [of who "board_of d" "board_of d2"]
    by (auto simp: InteractionService_ReportMessage_def 1 2 split: sum.splits)
qed

lemma interaction_service_moves [moves]:
  assumes "db_ok d"
  shows "board_moves (uuid_in env u) (board_of d) (board_of (snd (InteractionService_ToggleLike env m u d)))"
    "board_moves (uuid_in env u) (board_of d) (board_of (snd (InteractionService_AddComment env m u c d)))"
    "board_moves (uuid_in env u) (board_of d) (board_of (snd (InteractionService_DeleteComment env i u d)))"
  using assms by (simp_all add: InteractionService_ToggleLike_def InteractionService_AddComment_def
      InteractionService_DeleteComment_def moves)

lemma service_reaction_moves [moves]:
  assumes "db_ok d"
  shows "board_moves (uuid_in env u) (board_of d) (board_of (snd (InteractionService_ToggleReaction env m u e d)))"
  using ToggleReaction_moves [OF assms, of env u m "strings_TrimSpace e"]
  by (auto simp: InteractionService_ToggleReaction_def InteractionRepo_GetReactionsByMessage_def
      split: prod.splits sum.splits dest!: query_boards)

section \<open>The message service\<close>

text \<open>What a method does to the board of the process.\<close>

definition app_moves :: "string option \<Rightarrow> app \<Rightarrow> app \<Rightarrow> bool" where
  "app_moves who a a' = board_moves who (board_of (a_db a)) (board_of (a_db a'))"

lemma app_moves_refl [simp, intro]: "app_moves who a a"
  by (simp add: app_moves_def)

lemma app_moves_trans [trans]: "app_moves who a b \<Longrightarrow> app_moves who b c \<Longrightarrow> app_moves who a c"
  unfolding app_moves_def by (rule board_moves_trans)

lemma app_moves_frames [simp]:
  "app_moves who a (b\<lparr>a_cache := c\<rparr>) = app_moves who a b" "app_moves who a (b\<lparr>a_hub := h\<rparr>) = app_moves who a b"
  "app_moves who (a\<lparr>a_cache := c\<rparr>) b = app_moves who a b"
  by (simp_all add: app_moves_def)

lemma on_db_moves:
  assumes "app_ok a" and "\<And>d. db_ok d \<Longrightarrow> board_moves who (board_of d) (board_of (snd (act d)))"
  shows "app_moves who a (snd (on_db act a))"
  using assms by (simp add: on_db_eq app_ok_def app_moves_def)

lemma on_db_movesD:
  assumes "on_db act a = (r, a')" and "app_ok a" and "\<And>d. db_ok d \<Longrightarrow> board_moves who (board_of d) (board_of (snd (act d)))"
  shows "app_moves who a a'"
  using on_db_moves [OF assms(2), of who act] assms(1,3) by simp

text \<open>A second call after a first.\<close>

lemma on_db_then:
  assumes "app_ok a" and "app_moves who a0 a" and "\<And>d. db_ok d \<Longrightarrow> board_moves who (board_of d) (board_of (snd (act d)))"
  shows "app_moves who a0 (snd (on_db act a))"
  using app_moves_trans [OF assms(2) on_db_moves [OF assms(1,3)]] .

lemma record_creation_moves:
  assumes "app_ok a" and "app_moves (uuid_in env u) a0 a"
  shows "app_moves (uuid_in env u) a0 (record_creation env u req a)"
  using assms unfolding record_creation_def Let_def
  by (auto intro!: on_db_then on_db_ok moves db_inv)

lemma record_unlocked_moves:
  assumes "app_ok a" and "app_moves (uuid_in env u) a0 a"
  shows "app_moves (uuid_in env u) a0 (record_unlocked env u a)"
  using assms unfolding record_unlocked_def by (auto intro!: on_db_then on_db_ok moves db_inv)

lemma MessageService_Create_moves:
  assumes "app_ok a"
  shows "app_moves (uuid_in env u) a (snd (MessageService_Create svc marshal env u req a))"
proof -
  obtain r a1 where c: "on_db (MessageRepo_Create env u req) a = (r, a1)" by fastforce
  have a1: "app_ok a1" using c assms by (rule on_db_okD) (rule db_inv)
  have mv: "app_moves (uuid_in env u) a a1"
    using c assms by (rule on_db_movesD) (rule moves)
  let ?a2 = "a1\<lparr>a_cache := RedisCache_InvalidateZone (go_now env) (a_cache a1)\<rparr>"
  have "app_ok (?a2\<lparr>a_hub := Hub_BroadcastNewMessage marshal m (a_hub ?a2)\<rparr>)" for m
    using a1 by (intro broadcast_ok) simp
  from record_creation_moves [OF this, of env u a] mv show ?thesis
    by (cases r) (auto simp: MessageService_Create_def c Let_def)
qed

lemma MessageService_Delete_moves:
  assumes "app_ok a"
  shows "app_moves (uuid_in env u) a (snd (MessageService_Delete env i u a))"
proof -
  obtain r a1 where c: "on_db (MessageRepo_Delete env i u) a = (r, a1)" by fastforce
  then have "app_moves (uuid_in env u) a a1" using assms by (rule on_db_movesD) (rule moves)
  then show ?thesis by (simp add: MessageService_Delete_def c split: sum.splits)
qed

lemma mask_mystery_board: "mask_mystery env u ms d = (x, d') \<Longrightarrow> board_of d' = board_of d"
proof (induction ms arbitrary: d x)
  case (Cons m ms)
  have one: "mask_one env u m d = (y, d1) \<Longrightarrow> board_of d1 = board_of d" for y d1
    by (auto simp: mask_one_def check_unlocked_def MessageRepo_IsUnlocked_def
        split: if_splits prod.splits sum.splits dest!: query_boards)
  from Cons show ?case by (auto split: prod.splits dest!: one)
qed simp

lemma enrich_board: "enrich svc env u ms d = (x, d') \<Longrightarrow> board_of d' = board_of d"
  by (auto simp: enrich_def InteractionRepo_GetReactionsByMessages_def
      split: if_splits prod.splits sum.splits option.splits dest!: query_boards)

lemma fetch_nearby_moves: "app_moves who a (snd (fetch_nearby svc env q key a))"
  using read_methods_moves(1) [of who "a_db a" env q]
  by (auto simp: fetch_nearby_def on_db_eq app_moves_def Let_def split: sum.splits prod.splits option.splits
      dest!: mask_mystery_board enrich_board)

lemma MessageService_GetNearby_moves: "app_moves who a (snd (MessageService_GetNearby svc env q a))"
  using fetch_nearby_moves [of who "a\<lparr>a_cache := c\<rparr>" svc env "clamp_query q" for c] fetch_nearby_moves [of who a]
  by (auto simp: MessageService_GetNearby_def Let_def split: option.splits sum.splits prod.splits)

lemma finish_unlock_moves:
  assumes "app_ok a" and "app_moves (uuid_in env u) a0 a"
  shows "app_moves (uuid_in env u) a0 (snd (finish_unlock svc env i u m a))"
proof -
  obtain r a1 where un: "on_db (MessageRepo_UnlockMystery env i u) a = (r, a1)" by fastforce
  have a1: "app_ok a1" using un assms(1) by (rule on_db_okD) (rule db_inv)
  have "app_moves (uuid_in env u) a a1" using un assms(1) by (rule on_db_movesD) (rule moves)
  with assms(2) have mv: "app_moves (uuid_in env u) a0 a1" by (rule app_moves_trans)
  define a2 where "a2 c = (if c then record_unlocked env u a1 else a1)" for c
  have "app_ok (a2 c)" "app_moves (uuid_in env u) a0 (a2 c)" for c
    using a1 mv by (simp_all add: a2_def record_unlocked_ok record_unlocked_moves)
  then have "app_moves (uuid_in env u) a0 (snd (on_db (MessageRepo_GetMessageContent env i) (a2 c)))" for c
    by (intro on_db_then moves)
  with mv show ?thesis
    by (auto simp: finish_unlock_def un Let_def a2_def [symmetric] split: sum.splits prod.splits) (metis snd_conv)+
qed

lemma MessageService_UnlockMystery_moves:
  assumes "app_ok a"
  shows "app_moves (uuid_in env u) a (snd (MessageService_UnlockMystery svc env i u lat lng a))"
proof -
  obtain r a1 where g: "on_db (MessageRepo_GetNearby env (unlock_query u lat lng)) a = (r, a1)" by fastforce
  have "app_ok a1" using g assms by (rule on_db_okD) (rule db_inv)
  moreover have "app_moves (uuid_in env u) a a1"
    using g assms by (rule on_db_movesD) (rule moves)
  ultimately show ?thesis
    by (auto simp: MessageService_UnlockMystery_def g finish_unlock_moves split: sum.splits option.splits)
qed

section \<open>Handlers\<close>

lemma respond_moves: "app_moves who a (snd (call a)) \<Longrightarrow> app_moves who a (snd (respond call e k a))"
  by (auto simp: respond_def split: prod.splits sum.splits go_error.splits)

lemma with_request_moves: "(\<And>req. app_moves who a (snd (next req a))) \<Longrightarrow> app_moves who a (snd (with_request j dec val next r a))"
  by (auto simp: with_request_def split: option.splits)

lemmas service_moves = with_request_moves respond_moves on_db_moves MessageService_GetNearby_moves MessageService_Create_moves
  MessageService_Delete_moves MessageService_UnlockMystery_moves moves

text \<open>A public handler does nothing to the board.\<close>

lemma public_moves:
  assumes "app_ok a" and "rt \<in> set (public_routes bk env)"
  shows "app_moves who a (snd (rt_handler rt r a))"
  using assms
  by (auto simp: public_routes_def mk_def AuthHandler_Register_def AuthHandler_Login_def
      MessageHandler_GetNearby_def MessageHandler_GetHeatmap_def MessageHandler_GetLeaderboard_def MessageHandler_DetectEvents_def
      MessageHandler_GetByUser_def InteractionHandler_GetComments_def GamificationHandler_GetUserProfile_def
      SearchHandler_Search_def SearchHandler_PopularHashtags_def HealthCheck_def ws_handler_envelope(2) MessageService_GetHeatmap_def
      MessageService_GetLeaderboard_def MessageService_DetectEvents_def MessageService_GetByUser_def Let_def
      intro!: service_moves)

text \<open>A private handler acts for the user in the context of the request.\<close>

lemma private_moves:
  assumes "app_ok a" and "rt \<in> set (private_routes bk env)"
  shows "app_moves (uuid_in env (GetUserID (rq_user r))) a (snd (rt_handler rt r a))"
  using assms
  by (auto simp: private_routes_def mk_def AuthHandler_Me_def GamificationHandler_GetMyProfile_def MessageHandler_Create_def
      MessageHandler_Delete_def MessageHandler_UnlockMystery_def InteractionHandler_ToggleLike_def
      InteractionHandler_ToggleReaction_def InteractionHandler_AddComment_def InteractionHandler_ReportMessage_def
      InteractionHandler_DeleteComment_def Let_def split: option.splits intro!: service_moves)

section \<open>The server refines the board\<close>

text \<open>The user that the token of a request names, as the database knows the identifier.\<close>

definition token_user :: "backend \<Rightarrow> env \<Rightarrow> http_request \<Rightarrow> string option" where
  "token_user bk env r =
     (case middleware_Auth (bk_lib bk) (bk_auth bk) (go_now env) (rq_authorization r) of
        Inl e \<Rightarrow> None | Inr ctx \<Rightarrow> uuid_in env (GetUserID ctx))"

lemma run_guard_moves:
  assumes "rt \<in> set (routes bk env)" and "app_ok (sv_app sv)"
  shows "app_moves (token_user bk env r) (sv_app sv) (sv_app (snd (run_guard bk env (rt_guard rt) (rt_handler rt) r sv)))"
proof (cases "rt \<in> set (public_routes bk env)")
  case True
  from public_moves [OF assms(2) this] run_guard_cases [of bk env "rt_guard rt" "rt_handler rt" r sv] show ?thesis by auto
next
  case False
  with assms(1) have priv: "rt \<in> set (private_routes bk env)" by (simp add: routes_def)
  then have g: "rt_guard rt = Authenticated \<or> rt_guard rt = Authenticated_spam" by (auto simp: private_routes_def mk_def)
  have "app_moves (uuid_in env (GetUserID ctx)) (sv_app sv) (snd (rt_handler rt (r\<lparr>rq_user := ctx\<rparr>) (sv_app sv)))" for ctx
    using private_moves [OF assms(2) priv, of "r\<lparr>rq_user := ctx\<rparr>"] by simp
  with g show ?thesis by (auto simp: token_user_def split: sum.splits prod.splits bool.splits)
qed

lemma serve_moves:
  assumes "app_ok (sv_app sv)"
  shows "app_moves (token_user bk env r) (sv_app sv) (sv_app (snd (serve bk env r sv)))"
proof -
  obtain b vs where rl: "RateLimit 10 20 (rq_remoteAddr r) (go_now env) (sv_visitors sv) = (b, vs)" by fastforce
  let ?sv = "sv\<lparr>sv_clock := go_now env, sv_visitors := vs\<rparr>"
  have "app_moves (token_user bk env r) (sv_app sv) (sv_app (snd (dispatch bk env r ?sv)))"
  proof (cases "find_route (routes bk env) r")
    case (Some p)
    obtain rt ps where p: "p = (rt, ps)" by fastforce
    let ?r = "r\<lparr>rq_params := (\<lambda>n. case map_of ps n of Some v \<Rightarrow> v | None \<Rightarrow> []), rq_user := None\<rparr>"
    have "token_user bk env ?r = token_user bk env r" by (simp add: token_user_def)
    with run_guard_moves [of rt bk env ?sv ?r] find_route_Some [of _ r rt ps] Some p assms show ?thesis
      by (auto simp: dispatch_def)
  qed (simp add: dispatch_def)
  then show ?thesis by (cases b) (auto simp: serve_def rl Let_def split: prod.splits)
qed

text \<open>C1: the server refines the board. Whatever a request asks for and whatever happens to the connections on the way, its effect
  on posts, likes, comments, unlocks, reactions and badges is a sequence of board steps of the user that its valid token
  names; a request without a valid token has no effect on them.\<close>

theorem Server_refines_board:
  assumes "server_reachable bk sv" and "serve bk env r sv = (resp, sv')"
  shows "board_moves (token_user bk env r) (board_of (a_db (sv_app sv))) (board_of (a_db (sv_app sv')))"
  using serve_moves [of sv bk env r] server_reachable_ok [OF assms(1)] assms(2) by (simp add: server_ok_def app_moves_def)

text \<open>No other user's steps add or withdraw a post of \<open>v\<close>, or add anything in the name of \<open>v\<close>.\<close>

definition untouched :: "string \<Rightarrow> board \<Rightarrow> board \<Rightarrow> bool" where
  "untouched v b b' \<longleftrightarrow>
     (\<forall>i. (i, v) \<in> bd_posts b' \<longleftrightarrow> (i, v) \<in> bd_posts b) \<and> (\<forall>t. (v, t) \<in> bd_badges b' \<longleftrightarrow> (v, t) \<in> bd_badges b) \<and>
     (\<forall>k m. (k, m, v) \<in> bd_acts b' \<longrightarrow> (k, m, v) \<in> bd_acts b) \<and> (\<forall>m. (m, v) \<in> bd_unlocks b' \<longrightarrow> (m, v) \<in> bd_unlocks b) \<and>
     (\<forall>m e. (m, v, e) \<in> bd_reactions b' \<longrightarrow> (m, v, e) \<in> bd_reactions b)"

lemma foreign_step: "board_step u b b' \<Longrightarrow> v \<noteq> u \<Longrightarrow> untouched v b b'"
  unfolding untouched_def by (induction rule: board_step.induct) auto

lemma foreign_steps: "(board_step u)\<^sup>*\<^sup>* b b' \<Longrightarrow> v \<noteq> u \<Longrightarrow> untouched v b b'"
proof (induction rule: rtranclp_induct)
  case (step b1 b2)
  then have "untouched v b b1" "untouched v b1 b2" by (auto intro: foreign_step)
  then show ?case unfolding untouched_def by blast
qed (simp add: untouched_def)

lemma foreign_moves: "board_moves who b b' \<Longrightarrow> who \<noteq> Some v \<Longrightarrow> untouched v b b'"
  by (cases who) (auto simp: board_moves_def untouched_def [of v b b] intro: foreign_steps)


section \<open>A concrete request\<close>

lemma demo_token: "token_user demo_backend demo_env (demo_http m path ''Bearer 0.9.5.bobbysecret'') = Some ''bobby''"
proof -
  have t: "''0.9.5.bobbysecret'' = demo_text 0 9 ''bobby'' ''secret''" and h: "strings_TrimPrefix ''Bearer 0.9.5.bobbysecret'' ''Bearer '' = ''0.9.5.bobbysecret''"
    by code_simp+
  have "middleware_Auth demo_lib demo_svc 1000 ''Bearer 0.9.5.bobbysecret'' = Inr (Some ''bobby'')"
    unfolding middleware_Auth_def h Let_def unfolding t by (simp add: demo_accepts)
  then show ?thesis by (simp add: token_user_def demo_backend_def demo_env_def demo_http_def GetUserID_def)
qed

text \<open>\<open>bobby\<close> asks to delete the message of \<open>alice\<close>.\<close>

lemma Server_refines_board_witness:
  "board_moves (Some ''bobby'') (board_of demo_db)
     (board_of (a_db (sv_app (snd (serve demo_backend demo_env (demo_http ''DELETE'' [''messages'', ''m1''] ''Bearer 0.9.5.bobbysecret'') demo_server)))))"
proof -
  have "server_reachable demo_backend demo_server" by (rule demo_server_reachable)
  from Server_refines_board [OF this surjective_pairing, of demo_env "demo_http ''DELETE'' [''messages'', ''m1''] ''Bearer 0.9.5.bobbysecret''"]
  show ?thesis by (simp add: demo_token) (simp add: demo_server_def server_start_def)
qed


end
