(* ===== verification/Lifecycle.thy ===== *)
theory Lifecycle
  imports Server
begin

text \<open>
  The end of \<open>main\<close> in \<open>backend/cmd/server/main.go\<close>: the server runs in its own goroutine, a signal starts the shutdown, and the
  deferred calls close the cache and the pool. \<open>net/http\<close> is known by its documentation: \<open>Shutdown\<close> stops accepting, waits
  for the requests under way and returns an error when its context expires first; connections that were hijacked for WebSockets
  are not its business. \<open>log.Fatalf\<close> exits with status 1 and runs no deferred call.
\<close>

section \<open>The main goroutine\<close>

datatype deferred = Cancel_context | Close_cache | Close_pool

text \<open>Waiting for a signal; in \<open>Shutdown\<close> with its deadline; returning, with the deferred calls that are left; gone, with a status.\<close>

datatype main_phase = Waiting | Draining instant | Returning "deferred list" | Exited nat

text \<open>
  \<open>lf_active\<close>: the connections with a request under way; \<open>lf_hijacked\<close>: those that became WebSockets; \<open>lf_accepted\<close> and
  \<open>lf_answered\<close> record what was ever accepted and answered.
\<close>

record lifecycle =
  lf_server :: server
  lf_phase :: main_phase
  lf_clock :: instant
  lf_active :: "nat set"
  lf_hijacked :: "nat set"
  lf_accepted :: "nat set"
  lf_answered :: "nat set"
  lf_cache_open :: bool
  lf_pool_open :: bool

definition shutdown_timeout :: int where
  "shutdown_timeout = 10 * second_ns"

text \<open>In the order in which \<open>main\<close> runs them, the last one deferred first.\<close>

definition deferred_calls :: "deferred list" where
  "deferred_calls = [Cancel_context, Close_cache, Close_pool]"

fun run_deferred :: "deferred \<Rightarrow> lifecycle \<Rightarrow> lifecycle" where
  "run_deferred Cancel_context l = l"
| "run_deferred Close_cache l = l\<lparr>lf_cache_open := False\<rparr>"
| "run_deferred Close_pool l = l\<lparr>lf_pool_open := False\<rparr>"

definition life_start :: "server \<Rightarrow> lifecycle" where
  "life_start sv = \<lparr>lf_server = sv, lf_phase = Waiting, lf_clock = sv_clock sv, lf_active = {}, lf_hijacked = {}, lf_accepted = {},
     lf_answered = {}, lf_cache_open = True, lf_pool_open = True\<rparr>"

definition serving :: "main_phase \<Rightarrow> bool" where
  "serving p \<longleftrightarrow> (case p of Waiting \<Rightarrow> True | Draining dl \<Rightarrow> True | _ \<Rightarrow> False)"

definition exited :: "main_phase \<Rightarrow> bool" where
  "exited p \<longleftrightarrow> (case p of Exited n \<Rightarrow> True | _ \<Rightarrow> False)"

text \<open>
  The steps. Requests are accepted until the signal and answered until the process is gone or has drained; the other goroutines of
  the process run as long as it does; time passes, but not beyond the deadline of \<open>Shutdown\<close> while that waits. A request is handled at some time
  up to now.
\<close>

inductive life_step :: "backend \<Rightarrow> lifecycle \<Rightarrow> lifecycle \<Rightarrow> bool" for bk where
  accept: "lf_phase l = Waiting \<Longrightarrow> c \<notin> lf_accepted l \<Longrightarrow>
    life_step bk l (l\<lparr>lf_active := insert c (lf_active l), lf_accepted := insert c (lf_accepted l)\<rparr>)"
| answer: "serving (lf_phase l) \<Longrightarrow> c \<in> lf_active l \<Longrightarrow> sv_clock (lf_server l) \<le> go_now env \<Longrightarrow> go_now env \<le> lf_clock l \<Longrightarrow>
    life_step bk l (l\<lparr>lf_server := snd (serve bk env r (lf_server l)), lf_active := lf_active l - {c},
      lf_answered := insert c (lf_answered l)\<rparr>)"
| upgrade: "serving (lf_phase l) \<Longrightarrow> c \<in> lf_active l \<Longrightarrow> sv_clock (lf_server l) \<le> go_now env \<Longrightarrow> go_now env \<le> lf_clock l \<Longrightarrow>
    serve bk env r (lf_server l) = (resp, sv') \<Longrightarrow> hr_status resp = 101 \<Longrightarrow>
    h_active (a_hub (sv_app sv')) = [] \<Longrightarrow> h_conns (a_hub (sv_app sv')) c = None \<Longrightarrow>
    life_step bk l (l\<lparr>lf_server := sv'\<lparr>sv_app := (sv_app sv')\<lparr>a_hub := ServeWS c (a_hub (sv_app sv'))\<rparr>\<rparr>,
      lf_active := lf_active l - {c}, lf_hijacked := insert c (lf_hijacked l)\<rparr>)"
| goroutine: "\<not> exited (lf_phase l) \<Longrightarrow> background_step (lf_server l) sv' \<Longrightarrow> sv_clock sv' \<le> lf_clock l \<Longrightarrow>
    life_step bk l (l\<lparr>lf_server := sv'\<rparr>)"
| tick: "\<not> exited (lf_phase l) \<Longrightarrow> lf_clock l \<le> t \<Longrightarrow> (\<And>dl. lf_phase l = Draining dl \<Longrightarrow> t \<le> dl) \<Longrightarrow>
    life_step bk l (l\<lparr>lf_clock := t\<rparr>)"
| listen_fails: "lf_phase l = Waiting \<Longrightarrow> life_step bk l (l\<lparr>lf_phase := Exited 1\<rparr>)"
| signal: "lf_phase l = Waiting \<Longrightarrow> life_step bk l (l\<lparr>lf_phase := Draining (lf_clock l + shutdown_timeout)\<rparr>)"
| drained: "lf_phase l = Draining dl \<Longrightarrow> lf_active l = {} \<Longrightarrow> life_step bk l (l\<lparr>lf_phase := Returning deferred_calls\<rparr>)"
| expired: "lf_phase l = Draining dl \<Longrightarrow> dl \<le> lf_clock l \<Longrightarrow> life_step bk l (l\<lparr>lf_phase := Exited 1\<rparr>)"
| deferred: "lf_phase l = Returning (x # xs) \<Longrightarrow> life_step bk l ((run_deferred x l)\<lparr>lf_phase := Returning xs\<rparr>)"
| return: "lf_phase l = Returning [] \<Longrightarrow> life_step bk l (l\<lparr>lf_phase := Exited 0\<rparr>)"

definition life_begins :: "lifecycle \<Rightarrow> bool" where
  "life_begins l \<longleftrightarrow> (\<exists>sv. server_begins sv \<and> l = life_start sv)"

abbreviation life_reachable :: "backend \<Rightarrow> lifecycle \<Rightarrow> bool" where
  "life_reachable bk \<equiv> reachable life_begins (life_step bk)"

lemma life_reachable_start: "db_ok d \<Longrightarrow> main_start cfg pool_ok d r t = Some sv \<Longrightarrow> life_reachable bk (life_start sv)"
  by (rule reachable.start) (unfold life_begins_def server_begins_def, blast)

lemmas life_reachable_step = reachable.step [where step = "life_step bk" for bk]

section \<open>The invariant\<close>

text \<open>The resources are open as long as their deferred calls are still to run.\<close>

fun phase_inv :: "main_phase \<Rightarrow> lifecycle \<Rightarrow> bool" where
  "phase_inv Waiting l = (lf_cache_open l \<and> lf_pool_open l)"
| "phase_inv (Draining dl) l = (lf_cache_open l \<and> lf_pool_open l \<and> lf_clock l \<le> dl)"
| "phase_inv (Returning xs) l = (lf_active l = {} \<and> suffix xs deferred_calls \<and>
     lf_cache_open l = (Close_cache \<in> set xs) \<and> lf_pool_open l = (Close_pool \<in> set xs))"
| "phase_inv (Exited n) l = (n = 0 \<longrightarrow> lf_active l = {} \<and> \<not> lf_cache_open l \<and> \<not> lf_pool_open l)"

definition life_ok :: "backend \<Rightarrow> lifecycle \<Rightarrow> bool" where
  "life_ok bk l \<longleftrightarrow> server_reachable bk (lf_server l) \<and> finite (lf_active l) \<and> phase_inv (lf_phase l) l \<and>
     lf_accepted l = lf_active l \<union> lf_answered l \<union> lf_hijacked l"

lemma suffix_deferred:
  "suffix xs deferred_calls \<longleftrightarrow> xs \<in> {[Cancel_context, Close_cache, Close_pool], [Close_cache, Close_pool], [Close_pool], []}"
  by (auto simp: deferred_calls_def suffix_Cons)

lemma phase_inv_cong:
  assumes "lf_active l' = lf_active l" "lf_cache_open l' = lf_cache_open l" "lf_pool_open l' = lf_pool_open l" "lf_clock l' = lf_clock l"
  shows "phase_inv p l' = phase_inv p l"
  using assms by (cases p) auto

lemma serving_inv: "serving p \<Longrightarrow> phase_inv p l \<Longrightarrow> lf_clock l' = lf_clock l \<Longrightarrow> lf_cache_open l' = lf_cache_open l \<Longrightarrow>
  lf_pool_open l' = lf_pool_open l \<Longrightarrow> phase_inv p l'"
  by (cases p) (auto simp: serving_def)

lemma life_step_ok: "life_step bk l l' \<Longrightarrow> life_ok bk l \<Longrightarrow> life_ok bk l'"
proof (induction rule: life_step.induct)
  case (answer l c env r)
  let ?sv = "snd (serve bk env r (lf_server l))"
  have "server_reachable bk (lf_server l)" using answer by (simp add: life_ok_def)
  moreover have "server_step bk (lf_server l) ?sv" using answer(3) by (rule server_step.request)
  ultimately have "server_reachable bk ?sv" by (rule server_reachable_step)
  with answer show ?case unfolding life_ok_def by (auto elim: serving_inv)
next
  case (upgrade l c env r resp sv')
  let ?sv = "sv'\<lparr>sv_app := (sv_app sv')\<lparr>a_hub := ServeWS c (a_hub (sv_app sv'))\<rparr>\<rparr>"
  have "server_reachable bk (lf_server l)" using upgrade by (simp add: life_ok_def)
  moreover have "server_step bk (lf_server l) ?sv" using upgrade by (intro server_step.connect)
  ultimately have "server_reachable bk ?sv" by (rule server_reachable_step)
  with upgrade show ?case unfolding life_ok_def by (auto elim: serving_inv)
next
  case (goroutine l sv')
  have "server_reachable bk (lf_server l)" using goroutine by (simp add: life_ok_def)
  moreover have "server_step bk (lf_server l) sv'" using goroutine(2) by (rule server_step.background)
  ultimately have "server_reachable bk sv'" by (rule server_reachable_step)
  with goroutine show ?case by (simp add: life_ok_def phase_inv_cong [of "l\<lparr>lf_server := sv'\<rparr>" l])
next
  case (tick l t)
  then show ?case by (cases "lf_phase l") (simp_all add: life_ok_def exited_def)
next
  case (deferred l x xs)
  then show ?case by (cases x) (auto simp: life_ok_def suffix_deferred)
qed (auto simp: life_ok_def suffix_deferred deferred_calls_def shutdown_timeout_def second_ns_def)

interpretation life_run: step_system life_begins "life_step bk" "life_ok bk" for bk
  by unfold_locales ((auto simp: life_begins_def life_ok_def life_start_def reachable.start)[1], erule (1) life_step_ok)

lemmas life_reachable_ok = life_run.reachable_inv

text \<open>C14: a graceful end. As long as a request is under way and the process lives, the pool and the cache are open; when the process exits with status 0,
  every request it ever accepted has been answered (or its connection taken over by a WebSocket), and the cache and the pool
  have been closed; and whatever the exit, forced or not, the state left behind is one the running server reaches, so the invariant of the
  database holds in it.\<close>

theorem Shutdown_graceful:
  assumes "life_reachable bk l"
  shows "(lf_active l \<noteq> {} \<and> (\<forall>n. lf_phase l \<noteq> Exited n) \<longrightarrow> lf_pool_open l \<and> lf_cache_open l) \<and>
    (lf_phase l = Exited 0 \<longrightarrow> lf_accepted l = lf_answered l \<union> lf_hijacked l \<and> \<not> lf_cache_open l \<and> \<not> lf_pool_open l) \<and>
    db_ok (a_db (sv_app (lf_server l)))"
proof -
  note ok = life_reachable_ok [OF assms, unfolded life_ok_def]
  have "db_ok (a_db (sv_app (lf_server l)))"
    using server_reachable_ok [OF conjunct1 [OF ok]] by (simp add: server_ok_def app_ok_def)
  with ok show ?thesis by (cases "lf_phase l") auto
qed

lemma demo_life: "life_reachable bk (life_start demo_server)"
  by (rule life_reachable_start [OF demo_db_ok demo_main_start])

lemma Shutdown_graceful_witness:
  "lf_pool_open ((life_start demo_server)\<lparr>lf_active := {7}, lf_accepted := {7}\<rparr>) \<and>
   db_ok (a_db (sv_app (lf_server ((life_start demo_server)\<lparr>lf_active := {7}, lf_accepted := {7}\<rparr>))))"
proof -
  let ?l = "(life_start demo_server)\<lparr>lf_active := {7}, lf_accepted := {7}\<rparr>"
  have "life_step demo_backend (life_start demo_server) ?l"
    using life_step.accept [of "life_start demo_server" 7 demo_backend] by (simp add: life_start_def)
  from Shutdown_graceful [OF life_reachable_step [OF demo_life this]] show ?thesis by (simp add: life_start_def)
qed

section \<open>Termination\<close>

text \<open>What is left to do: the requests under way, the deferred calls, the return.\<close>

fun work_left :: "main_phase \<Rightarrow> lifecycle \<Rightarrow> nat" where
  "work_left Waiting l = 0"
| "work_left (Draining dl) l = 6 + card (lf_active l)"
| "work_left (Returning xs) l = Suc (length xs)"
| "work_left (Exited n) l = 0"

lemma shutdown_decreases:
  assumes "life_ok bk l" and "life_step bk l l'" and "lf_phase l \<noteq> Waiting"
  shows "lf_phase l' = lf_phase l \<and> lf_active l' = lf_active l \<or> work_left (lf_phase l') l' < work_left (lf_phase l) l"
proof -
  have fewer: "card (lf_active l) - Suc 0 < card (lf_active l)" if "c \<in> lf_active l" for c
    using assms(1) that card_gt_0_iff [of "lf_active l"] by (auto simp: life_ok_def)
  from assms(2,3) show ?thesis
    by (cases; cases "lf_phase l") (auto simp: serving_def deferred_calls_def fewer)
qed

lemma returns:
  "lf_phase l = Returning xs \<Longrightarrow> \<exists>l'. (life_step bk)\<^sup>*\<^sup>* l l' \<and> lf_phase l' = Exited 0 \<and> lf_clock l' = lf_clock l"
proof (induction xs arbitrary: l)
  case Nil
  then show ?case using life_step.return [OF Nil] by (intro exI [of _ "l\<lparr>lf_phase := Exited 0\<rparr>"]) auto
next
  case (Cons x xs)
  let ?l = "(run_deferred x l)\<lparr>lf_phase := Returning xs\<rparr>"
  have "life_step bk l ?l" using Cons.prems by (rule life_step.deferred)
  moreover have "lf_clock ?l = lf_clock l" by (cases x) simp_all
  moreover from Cons.IH [of ?l] obtain l' where "(life_step bk)\<^sup>*\<^sup>* ?l l'" "lf_phase l' = Exited 0" "lf_clock l' = lf_clock ?l" by auto
  ultimately show ?case by (metis converse_rtranclp_into_rtranclp)
qed

lemma drains:
  assumes "lf_phase l = Draining dl" and "lf_clock l \<le> dl"
  shows "\<exists>l'. (life_step bk)\<^sup>*\<^sup>* l l' \<and> lf_phase l' = Exited (if lf_active l = {} then 0 else 1) \<and> lf_clock l' \<le> dl"
proof (cases "lf_active l = {}")
  case True
  with assms have step: "life_step bk l (l\<lparr>lf_phase := Returning deferred_calls\<rparr>)" by (intro life_step.drained)
  from returns [of "l\<lparr>lf_phase := Returning deferred_calls\<rparr>" deferred_calls bk] obtain l' where
    "(life_step bk)\<^sup>*\<^sup>* (l\<lparr>lf_phase := Returning deferred_calls\<rparr>) l'" "lf_phase l' = Exited 0" "lf_clock l' = lf_clock l" by auto
  with step True assms(2) show ?thesis by (intro exI [of _ l']) auto
next
  case False
  have "life_step bk l (l\<lparr>lf_clock := dl\<rparr>)" using assms by (intro life_step.tick) (auto simp: exited_def)
  moreover have "life_step bk (l\<lparr>lf_clock := dl\<rparr>) (l\<lparr>lf_clock := dl, lf_phase := Exited 1\<rparr>)"
    using life_step.expired [of "l\<lparr>lf_clock := dl\<rparr>" dl bk] assms(1) by simp
  ultimately show ?thesis using False by (intro exI [of _ "l\<lparr>lf_clock := dl, lf_phase := Exited 1\<rparr>"]) auto
qed

text \<open>C15: the shutdown ends. Once the signal has come, every step of the process either leaves the phase of \<open>main\<close> and the requests under way alone or
  brings the end nearer, so only finitely many others can happen; \<open>Shutdown\<close> never waits beyond its deadline; and the
  process can always exit: with status 0 if it has drained or no request is under way, and with 1 at the deadline otherwise.\<close>

theorem Shutdown_terminates:
  assumes "life_reachable bk l" and "lf_phase l = Draining dl \<or> lf_phase l = Returning xs"
  shows "(lf_phase l = Draining dl \<longrightarrow> lf_clock l \<le> dl) \<and>
    (\<forall>l'. life_step bk l l' \<longrightarrow>
       lf_phase l' = lf_phase l \<and> lf_active l' = lf_active l \<or> work_left (lf_phase l') l' < work_left (lf_phase l) l) \<and>
    (\<exists>l'. (life_step bk)\<^sup>*\<^sup>* l l' \<and> lf_phase l' = Exited (if lf_active l = {} then 0 else 1) \<and> lf_clock l' \<le> max (lf_clock l) dl)"
proof -
  note ok = life_reachable_ok [OF assms(1)]
  have exit: "\<exists>l'. (life_step bk)\<^sup>*\<^sup>* l l' \<and> lf_phase l' = Exited (if lf_active l = {} then 0 else 1) \<and> lf_clock l' \<le> max (lf_clock l) dl"
    using assms(2)
  proof
    assume dr: "lf_phase l = Draining dl"
    with ok have "lf_clock l \<le> dl" by (simp add: life_ok_def)
    from drains [OF dr this, of bk] show ?thesis by (meson le_max_iff_disj)
  next
    assume re: "lf_phase l = Returning xs"
    with ok have "lf_active l = {}" by (simp add: life_ok_def)
    with returns [OF re, of bk] show ?thesis by (auto simp: le_max_iff_disj)
  qed
  have "lf_phase l \<noteq> Waiting" using assms(2) by auto
  moreover have "lf_phase l = Draining dl \<longrightarrow> lf_clock l \<le> dl" using ok by (auto simp: life_ok_def)
  ultimately show ?thesis using shutdown_decreases [OF ok] exit by blast
qed

text \<open>A signal right after the start.\<close>

lemma Shutdown_terminates_witness:
  "\<exists>l'. (life_step demo_backend)\<^sup>*\<^sup>* ((life_start demo_server)\<lparr>lf_phase := Draining shutdown_timeout\<rparr>) l' \<and> lf_phase l' = Exited 0"
proof -
  let ?l = "(life_start demo_server)\<lparr>lf_phase := Draining shutdown_timeout\<rparr>"
  have "life_step demo_backend (life_start demo_server) ?l"
    using life_step.signal [of "life_start demo_server" demo_backend] by (simp add: life_start_def demo_server_def server_start_def)
  from Shutdown_terminates [OF life_reachable_step [OF demo_life this], of shutdown_timeout] show ?thesis
    by (fastforce simp: life_start_def)
qed

end
