(* ===== verification/Spec2Isabelle.thy ===== *)
theory Spec2Isabelle
  imports Geo Like_Race Report_Race Feed_Race Ws_Heartbeat Json_Encode Board Lifecycle
begin

text \<open>
  A verification of the GeoNote backend, the Go server under \<open>src/backend\<close>. Users leave messages at places; others who
  come near see, like, comment, react to and report them. A message may be a \<^emph>\<open>mystery\<close>, readable after an unlock on the
  spot, or a \<^emph>\<open>capsule\<close>, readable after a date.

  \<^bold>\<open>The program.\<close> \<open>cmd/server/main.go\<close> builds a router with a rate limiter in front of all routes, optional or required
  authentication per group and a cool-down on posting. A handler (\<open>internal/handler\<close>) decodes and validates the request
  (\<open>internal/model\<close>) and calls a service (\<open>internal/service\<close>), which calls the repositories
  (\<open>internal/repository\<close>, SQL on PostgreSQL with the schema, triggers and functions of \<open>migrations\<close>), the Redis cache
  of nearby feeds (\<open>internal/cache\<close>) and the hub of WebSocket clients (\<open>internal/ws\<close>). Creating or deleting a message
  clears the cache, and creating one broadcasts it and updates streaks and badges.

  \<^bold>\<open>Conventions.\<close> An instant is an integer number of nanoseconds, a finite \<open>float64\<close> a real number, a number that comes
  from a query string, which may be NaN or infinite, a \<open>go_float\<close>, a slice a list, a string its bytes, a table
  the list of its rows. An action on the database has type \<open>db \<Rightarrow> (go_error + 'a) \<times> db\<close>: every error return of the code is a
  left value, and the component \<open>t_links\<close> of the database holds the fate of the next round trips (answered, unreachable, or
  done but with the reply lost), the empty list being a healthy connection; so a theorem without a hypothesis on \<open>t_links\<close>
  holds for every failure of the network. A method that reads a list asks \<open>rows.Next\<close> until there is no row and never asks
  \<open>rows.Err\<close>, so that a failure on the way looks like the end of the rows: \<open>query_rows\<close> returns the part of the answer that
  arrived (the empty list when the server refused the statement) and an error only if \<open>Query\<close> itself had one. Services act on the record \<open>app\<close> of database, cache and hub; handlers return
  what was written, or the panic; \<open>server\<close> adds the maps of the two limiters and the clock. An \<open>env\<close> is what one request reads from
  outside: the time, the identifiers the database generates, and the documented behaviour of PostGIS, of UUID, time and
  number parsing and of the Unicode tables. Operations are named \<open>Component_Method\<close> after the code's methods.

  \<^bold>\<open>Theories.\<close>
  \<^item> \<open>GN_Prelude\<close>: generic lemmas on lists and counting, the collections of the development, and the locale \<open>step_system\<close>
    of step relations with an invariant, interpreted on the hub, the races, the server and its life.
  \<^item> \<open>Go_Strings\<close>: the functions of \<open>strings\<close>, \<open>strconv\<close> and \<open>regexp\<close> that the code uses.
  \<^item> \<open>Api_Model\<close>: \<open>internal/model/*.go\<close>, structs as records and every \<open>Validate\<close>. \<open>Json_Decode\<close>: how a
    JSON value is stored into the request structs. \<open>Json_Encode\<close>: how a message is written under its tags and read back.
  \<^item> \<open>Geo\<close>: \<open>internal/geo/haversine.go\<close>; the function is the great-circle distance.
  \<^item> \<open>Database\<close>: the tables, keys, checks, cascades and triggers of the migrations, statements and transactions.
    \<open>Db_Invariant\<close>: the invariant \<open>db_ok\<close>, and the locale \<open>pg_statement\<close> of statements that keep it, interpreted on every
    statement of the repositories.
  \<^item> \<open>Message_Repo\<close>, \<open>User_Repo\<close>, \<open>Interaction_Repo\<close>, \<open>Gamification_Repo\<close>: the repositories and the
    stored functions they call, method by method. \<open>Like_Race\<close>: the statements of concurrent \<open>ToggleLike\<close> transactions as a
    step relation; alone, a session does what the transaction of \<open>Interaction_Repo\<close> does. \<open>Report_Race\<close>: the same for the statements of
    concurrent \<open>ReportMessage\<close> calls and their auto-moderation.
  \<^item> \<open>Redis_Cache\<close>: \<open>internal/cache/redis.go\<close> over a store with expiry; the locale \<open>key_cache\<close> states what the
    message service relies on and is interpreted on the cache.
  \<^item> \<open>Ws_Hub\<close>: \<open>internal/ws/hub.go\<close> and \<open>client.go\<close> as a step relation over the interleavings that the lock and the
    channels allow. \<open>Ws_Heartbeat\<close>: the read deadline, the pong handler and the ping ticker of \<open>client.go\<close>.
  \<^item> \<open>Rate_Limit\<close>: \<open>internal/middleware/ratelimit.go\<close>. \<open>Auth\<close>: \<open>internal/service/auth_service.go\<close> and
    \<open>internal/middleware/auth.go\<close>, with bcrypt and golang-jwt (version 5) as arguments whose documented behaviour is \<open>auth_laws\<close>.
  \<^item> \<open>Message_Service\<close>, \<open>Interaction_Service\<close>, \<open>Search_Service\<close>: the services (the gamification service is in
    \<open>Gamification_Repo\<close>). \<open>Feed_Race\<close>: the round trips of concurrent \<open>GetNearby\<close>, \<open>Create\<close> and \<open>Delete\<close> requests to database and cache,
    with each page of the scan and the deletion of \<open>InvalidateZone\<close> as steps; alone, a reader does what \<open>MessageService.GetNearby\<close> does, and a
    clearing what \<open>RedisCache.InvalidateZone\<close> does.
  \<^item> \<open>Handlers\<close>: \<open>internal/handler/*.go\<close>. \<open>Config\<close>: \<open>internal/config/config.go\<close>. \<open>Server\<close>: \<open>main.go\<close>, the routing table, the
    middleware stack \<open>serve\<close>, the start and the steps of the process. \<open>Lifecycle\<close>: the end of \<open>main\<close>, serving, signal, \<open>Shutdown\<close> and the deferred calls.
  \<^item> \<open>Board\<close>: an abstract machine for what users may do to each other's data, the locale \<open>board_statement\<close> of statements that are a
    step of it, interpreted on every statement, and the refinement.

  \<^bold>\<open>What is shown.\<close>
  \<^item> Of the whole process (\<open>Board\<close>, \<open>Server\<close>): a request has the effect of steps of the user its token names, and no user's
    messages, badges, likes, comments, unlocks or reactions are made by anybody else; the counters agree with the rows in
    every reachable state, under any requests, failures and interleavings of the hub; protected routes need a token; routing
    is unambiguous; answers are well formed, up to the empty body after data that the JSON encoder refuses. The shutdown (\<open>Lifecycle\<close>) waits for the requests under way with pool and cache open,
    ends at its deadline at the latest, and leaves a consistent database.
  \<^item> Of messages: what a nearby query returns, masking and geofence of mystery messages, creation with its hashtags,
    expiry, cache and broadcast, deletion by the owner with its cascades, moderation, also when reports race, paging of searches.
  \<^item> Of interactions: the like transaction is right on a healthy connection and atomic on a failing one, and stays
    right when transactions race; comments and reactions. Of gamification: streaks are runs of consecutive days, badges the reached thresholds.
  \<^item> Of the hub: no panic, bounded buffers, delivery in order and without gaps to clients that keep up, progress of every pump and of the lock, and how long silent and responsive clients stay.
  \<^item> Of the limiters: the number of requests let through in any window, the cool-down, and that cleaning up changes no decision.
  \<^item> Of authentication: what exactly the middlewares let through, tokens and passwords round trip.
  \<^item> Of the cache: what was stored is found until it expires or is cleared, which requests share a key, how old a hit may be when
    requests overlap, and that the JSON text of a
    list of messages reads back as that list.

  \<^bold>\<open>Bounds and fuel.\<close> No function has fuel: every loop of the code runs over a list and is structural recursion, or
  is a step of a relation (the pumps of the hub and the cleanup goroutines, which never end). Integers are unbounded except
  where the database, \<open>strconv\<close> or the JSON decoder has a width: \<open>int4\<close> columns and parameters are checked as the database does, and
  \<open>Atoi\<close> is bounded by 64 bits.

  \<^bold>\<open>Not modelled.\<close> Rounding of \<open>float64\<close>; the characters of JSON texts (a text is its tree of values; of the bodies of answers
  it is only modelled whether the encoder can write them); request logs; the CORS headers; the clock of the request timeout (it cancels the
  context after thirty seconds, which the statements that remain see as failing round trips, and these are covered); the middlewares
  \<open>RequestID\<close> and \<open>SecurityHeaders\<close>, which \<open>main\<close> names and the repository lacks; interleaving of the statements of two requests
  other than likes, reports, feeds and the clearing of their cache by posts and deletions (one request is one step of the process); the two
  tables \<open>beta_signups\<close> and \<open>events\<close>, which no code reads or writes, indexes, seed data; the constraints of \<open>content_reports\<close>, whose migration is missing, are an argument.
  The mobile application is a client of the API and not part of the server.
\<close>

end
